(* ===== verification/Prelude.thy ===== *)
theory Prelude
  imports Main "HOL-Library.Word"
begin

unbundle bit_operations_syntax

text \<open>
  Shared vocabulary of the development: the machine types of the Rust sources
  (\<open>u8\<close>, \<open>u32\<close>, \<open>u64\<close>, byte vectors, UTF-8 strings), the result type that keeps
  the three ways a Rust call can end apart (a value, an \<open>Err\<close>, a panic), the
  big-endian integer layouts of \<open>to_be_bytes\<close> and \<open>from_be_bytes\<close>, a random
  byte stream in the place of \<open>OsRng\<close>, and the lemmas about them that the
  component theories use.
\<close>

section \<open>Lemma collections\<close>

named_theorems wire_simps \<open>one decoder step on bytes an encoder wrote\<close>
named_theorems wire_dests \<open>what a successful decoder step says of its input\<close>
named_theorems length_simps \<open>lengths of encodings and of primitive outputs\<close>

section \<open>Machine types\<close>

type_synonym u8 = "8 word"
type_synonym u16 = "16 word"
type_synonym u32 = "32 word"
type_synonym u64 = "64 word"
type_synonym bytes = "u8 list"

text \<open>
  The target is 64-bit: a \<open>usize\<close> is a natural number that is at most
  \<open>usize_max\<close>, and a \<open>Vec\<close> allocates at most \<open>isize_max\<close> bytes.
\<close>

definition usize_max :: nat where "usize_max = 2 ^ 64 - 1"

definition isize_max :: nat where "isize_max = 2 ^ 63 - 1"

definition u32_max :: nat where "u32_max = 2 ^ 32 - 1"

definition u64_max :: nat where "u64_max = 2 ^ 64 - 1"

section \<open>How a call ends\<close>

datatype ('a, 'e) res = Ok (the_Ok: 'a) | Err (the_Err: 'e) | Panic

fun and_then :: "('a, 'e) res \<Rightarrow> ('a \<Rightarrow> ('b, 'e) res) \<Rightarrow> ('b, 'e) res" where
  "and_then (Ok x) f = f x"
| "and_then (Err e) f = Err e"
| "and_then Panic f = Panic"

text \<open>\<open>map_err\<close> and \<open>From\<close>-conversions of \<open>?\<close>: a panic is no error value and passes.\<close>

fun map_err :: "('e \<Rightarrow> 'f) \<Rightarrow> ('a, 'e) res \<Rightarrow> ('a, 'f) res" where
  "map_err h (Ok x) = Ok x"
| "map_err h (Err e) = Err (h e)"
| "map_err h Panic = Panic"

fun is_ok :: "('a, 'e) res \<Rightarrow> bool" where
  "is_ok (Ok x) = True"
| "is_ok _ = False"

fun ok_or :: "'e \<Rightarrow> 'a option \<Rightarrow> ('a, 'e) res" where
  "ok_or e None = Err e"
| "ok_or e (Some x) = Ok x"

text \<open>A \<open>for\<close> loop that pushes one result per element and returns at the first failure.\<close>

fun collect_res :: "('a \<Rightarrow> ('b, 'e) res) \<Rightarrow> 'a list \<Rightarrow> ('b list, 'e) res" where
  "collect_res f [] = Ok []"
| "collect_res f (x # xs) =
     and_then (f x) (\<lambda>y. and_then (collect_res f xs) (\<lambda>ys. Ok (y # ys)))"

lemma and_then_eq_Ok [simp]: "and_then r f = Ok y \<longleftrightarrow> (\<exists>x. r = Ok x \<and> f x = Ok y)"
  by (cases r) auto

lemma Ok_eq_and_then [simp]: "Ok y = and_then r f \<longleftrightarrow> (\<exists>x. r = Ok x \<and> f x = Ok y)"
  by (cases r) auto

lemma and_then_eq_Panic: "and_then r f = Panic \<longleftrightarrow> r = Panic \<or> (\<exists>x. r = Ok x \<and> f x = Panic)"
  by (cases r) auto

lemma and_then_assoc: "and_then (and_then r f) g = and_then r (\<lambda>x. and_then (f x) g)"
  by (cases r) auto

lemma map_err_eq_Ok [simp]: "map_err h r = Ok x \<longleftrightarrow> r = Ok x"
  by (cases r) auto

lemma map_err_eq_Panic [simp]: "map_err h r = Panic \<longleftrightarrow> r = Panic"
  by (cases r) auto

lemma is_ok_iff: "is_ok r \<longleftrightarrow> (\<exists>x. r = Ok x)"
  by (cases r) auto

lemma ok_or_eq_Ok [simp]: "ok_or e o' = Ok x \<longleftrightarrow> o' = Some x"
  by (cases o') auto

lemma ok_or_not_Panic [simp]: "ok_or e o' \<noteq> Panic"
  by (cases o') auto

lemma collect_res_Ok_iff:
  "collect_res f xs = Ok ys \<longleftrightarrow> length ys = length xs \<and> (\<forall>i < length xs. f (xs ! i) = Ok (ys ! i))"
proof (induction xs arbitrary: ys)
  case Nil
  then show ?case by auto
next
  case (Cons x xs)
  show ?case
  proof (cases ys)
    case Nil
    then show ?thesis by simp
  next
    case (Cons y ys')
    then show ?thesis using Cons.IH [of ys'] by (auto simp: nth_Cons split: nat.splits)
  qed
qed

lemma collect_res_cong:
  "(\<And>x. x \<in> set xs \<Longrightarrow> f x = g x) \<Longrightarrow> collect_res f xs = collect_res g xs"
  by (induction xs) simp_all

lemma collect_res_map: "(\<And>x. x \<in> set xs \<Longrightarrow> f x = Ok (g x)) \<Longrightarrow> collect_res f xs = Ok (map g xs)"
  by (induction xs) simp_all

text \<open>\<open>position\<close>: the first index whose element satisfies the predicate.\<close>

fun position :: "('a \<Rightarrow> bool) \<Rightarrow> 'a list \<Rightarrow> nat option" where
  "position P [] = None"
| "position P (x # xs) = (if P x then Some 0 else map_option Suc (position P xs))"

lemma position_Some: "position P xs = Some k \<Longrightarrow> k < length xs \<and> P (xs ! k) \<and> (\<forall>j < k. \<not> P (xs ! j))"
proof (induction xs arbitrary: k)
  case (Cons x xs)
  then show ?case by (cases k) (auto split: if_splits simp: less_Suc_eq_0_disj)
qed simp

lemma position_None: "position P xs = None \<longleftrightarrow> (\<forall>x \<in> set xs. \<not> P x)"
  by (induction xs) auto

section \<open>Big-endian layouts\<close>

fun be_bytes :: "nat \<Rightarrow> nat \<Rightarrow> bytes" where
  "be_bytes 0 v = []"
| "be_bytes (Suc n) v = of_nat (v div 256 ^ n) # be_bytes n v"

definition be_nat :: "bytes \<Rightarrow> nat" where
  "be_nat bs = foldl (\<lambda>acc b. acc * 256 + unat b) 0 bs"

definition u32_be :: "u32 \<Rightarrow> bytes" where "u32_be w = be_bytes 4 (unat w)"

definition u64_be :: "u64 \<Rightarrow> bytes" where "u64_be w = be_bytes 8 (unat w)"

definition u32_of_be :: "bytes \<Rightarrow> u32" where "u32_of_be bs = of_nat (be_nat bs)"

definition u64_of_be :: "bytes \<Rightarrow> u64" where "u64_of_be bs = of_nat (be_nat bs)"

lemma unat_bound: "unat (w :: 'a::len word) < 2 ^ LENGTH('a)"
  by (rule unsigned_less)

lemma length_be_bytes [simp, length_simps]: "length (be_bytes n v) = n"
  by (induction n) simp_all

lemma length_u32_be [simp, length_simps]: "length (u32_be w) = 4"
  by (simp add: u32_be_def)

lemma length_u64_be [simp, length_simps]: "length (u64_be w) = 8"
  by (simp add: u64_be_def)

lemma be_nat_Nil [simp]: "be_nat [] = 0"
  by (simp add: be_nat_def)

lemma foldl_be: "foldl (\<lambda>acc b. acc * 256 + unat (b :: u8)) a bs = a * 256 ^ length bs + be_nat bs"
proof (induction bs arbitrary: a)
  case Nil
  then show ?case by (simp add: be_nat_def)
next
  case (Cons b bs)
  have "be_nat (b # bs) = unat b * 256 ^ length bs + be_nat bs"
    using Cons [of "unat b"] by (simp add: be_nat_def)
  then show ?case using Cons [of "a * 256 + unat b"] by (simp add: algebra_simps)
qed

lemma be_nat_Cons [simp]: "be_nat (b # bs) = unat b * 256 ^ length bs + be_nat bs"
  using foldl_be [of "unat b" bs] by (simp add: be_nat_def)

lemma be_nat_less: "be_nat bs < 256 ^ length bs"
proof (induction bs)
  case Nil
  then show ?case by simp
next
  case (Cons b bs)
  have "unat b < 256" using unat_bound [of b] by simp
  then have "unat b + 1 \<le> 256" by simp
  then have "(unat b + 1) * 256 ^ length bs \<le> 256 * 256 ^ length bs"
    by (rule mult_right_mono) simp
  then have "unat b * 256 ^ length bs + 256 ^ length bs \<le> 256 * 256 ^ length bs"
    by (simp only: distrib_right mult_1)
  with Cons have "unat b * 256 ^ length bs + be_nat bs < 256 * 256 ^ length bs" by linarith
  then show ?case by simp
qed

lemma be_nat_be_bytes_mod: "be_nat (be_bytes n v) = v mod 256 ^ n"
proof (induction n)
  case 0
  then show ?case by simp
next
  case (Suc n)
  have "v mod (256 ^ n * 256) = 256 ^ n * (v div 256 ^ n mod 256) + v mod 256 ^ n"
    by (rule mod_mult2_eq)
  with Suc show ?case by (simp add: unat_of_nat mult.commute)
qed

lemma be_nat_be_bytes: "v < 256 ^ n \<Longrightarrow> be_nat (be_bytes n v) = v"
  by (simp add: be_nat_be_bytes_mod)

lemma of_nat_eq_0_word_dvd: "256 dvd n \<Longrightarrow> (of_nat n :: u8) = 0"
  by (simp add: word_of_nat_eq_0_iff)

lemma be_bytes_add_high: "n \<le> m \<Longrightarrow> be_bytes n (a * 256 ^ m + r) = be_bytes n r"
proof (induction n)
  case 0
  then show ?case by simp
next
  case (Suc n)
  then obtain k where m: "m = Suc (n + k)" by (metis add_Suc less_eqE)
  have "a * 256 ^ m + r = (a * 256 ^ k * 256) * 256 ^ n + r"
    by (simp add: m power_add algebra_simps)
  then have "(a * 256 ^ m + r) div 256 ^ n = a * 256 ^ k * 256 + r div 256 ^ n"
    by (simp only: div_mult_self3 [of "256 ^ n"] power_not_zero zero_neq_numeral) simp
  moreover have "(of_nat (a * 256 ^ k * 256) :: u8) = 0"
    by (rule of_nat_eq_0_word_dvd) simp
  ultimately show ?case using Suc by (simp add: of_nat_add)
qed

lemma be_bytes_be_nat: "length bs = n \<Longrightarrow> be_bytes n (be_nat bs) = bs"
proof (induction bs arbitrary: n)
  case Nil
  then show ?case by simp
next
  case (Cons b bs)
  then have n: "n = Suc (length bs)" by simp
  have "(unat b * 256 ^ length bs + be_nat bs) div 256 ^ length bs = unat b"
    using be_nat_less [of bs] by simp
  then show ?case using Cons.IH by (simp add: n be_bytes_add_high)
qed

lemma u32_of_be_u32_be [simp]: "u32_of_be (u32_be w) = w"
  using unat_bound [of w] by (simp add: u32_of_be_def u32_be_def be_nat_be_bytes)

lemma u64_of_be_u64_be [simp]: "u64_of_be (u64_be w) = w"
  using unat_bound [of w] by (simp add: u64_of_be_def u64_be_def be_nat_be_bytes)

lemma unat_u32_of_be: "length bs = 4 \<Longrightarrow> unat (u32_of_be bs) = be_nat bs"
  using be_nat_less [of bs] by (simp add: u32_of_be_def unat_of_nat)

lemma unat_u64_of_be: "length bs = 8 \<Longrightarrow> unat (u64_of_be bs) = be_nat bs"
  using be_nat_less [of bs] by (simp add: u64_of_be_def unat_of_nat)

lemma u32_be_u32_of_be [simp]: "length bs = 4 \<Longrightarrow> u32_be (u32_of_be bs) = bs"
  by (simp add: u32_be_def unat_u32_of_be be_bytes_be_nat)

lemma u64_be_u64_of_be [simp]: "length bs = 8 \<Longrightarrow> u64_be (u64_of_be bs) = bs"
  by (simp add: u64_be_def unat_u64_of_be be_bytes_be_nat)

lemma u32_be_inject [simp]: "u32_be a = u32_be b \<longleftrightarrow> a = b"
  by (metis u32_of_be_u32_be)

lemma u64_be_inject [simp]: "u64_be a = u64_be b \<longleftrightarrow> a = b"
  by (metis u64_of_be_u64_be)

section \<open>Integer conversions\<close>

text \<open>\<open>u8::try_from\<close>, \<open>u16::try_from\<close>, \<open>u32::try_from\<close> on a \<open>u64\<close>, \<open>u64::try_from\<close> on a \<open>usize\<close>.\<close>

definition try_u8 :: "u64 \<Rightarrow> u8 option" where
  "try_u8 v = (if v \<le> 0xFF then Some (ucast v) else None)"

definition try_u16 :: "u64 \<Rightarrow> u16 option" where
  "try_u16 v = (if v \<le> 0xFFFF then Some (ucast v) else None)"

definition try_u32 :: "u64 \<Rightarrow> u32 option" where
  "try_u32 v = (if v \<le> 0xFFFFFFFF then Some (ucast v) else None)"

definition try_u64 :: "nat \<Rightarrow> u64 option" where
  "try_u64 n = (if n \<le> u64_max then Some (of_nat n) else None)"

definition try_u32_usize :: "nat \<Rightarrow> u32 option" where
  "try_u32_usize n = (if n \<le> u32_max then Some (of_nat n) else None)"

definition try_u8_usize :: "nat \<Rightarrow> u8 option" where
  "try_u8_usize n = (if n \<le> 255 then Some (of_nat n) else None)"

definition try_usize :: "u64 \<Rightarrow> nat option" where
  "try_usize v = (if unat v \<le> usize_max then Some (unat v) else None)"

fun unwrap_or :: "'a \<Rightarrow> 'a option \<Rightarrow> 'a" where
  "unwrap_or d None = d"
| "unwrap_or d (Some x) = x"

lemma try_usize_Some [simp]: "try_usize v = Some (unat v)"
  using unat_bound [of v] by (simp add: try_usize_def usize_max_def)

lemma unat_ucast_u8 [simp]: "unat (ucast (x :: u8) :: u64) = unat x"
  using unat_bound [of x] by (simp add: unsigned_ucast_eq take_bit_nat_eq_self)

lemma unat_ucast_u32 [simp]: "unat (ucast (x :: u32) :: u64) = unat x"
  using unat_bound [of x] by (simp add: unsigned_ucast_eq take_bit_nat_eq_self)

lemma try_u8_ucast [simp]: "try_u8 (ucast (x :: u8)) = Some x"
  using unat_bound [of x]
  by (simp add: try_u8_def word_le_nat_alt word_unat_eq_iff unsigned_ucast_eq
      take_bit_nat_eq_self take_bit_word_eq_self)

lemma try_u32_ucast [simp]: "try_u32 (ucast (x :: u32)) = Some x"
  using unat_bound [of x]
  by (simp add: try_u32_def word_le_nat_alt word_unat_eq_iff unsigned_ucast_eq
      take_bit_nat_eq_self take_bit_word_eq_self)

lemma try_u8_SomeD: "try_u8 v = Some x \<Longrightarrow> v = ucast x"
  by (auto simp: try_u8_def word_le_nat_alt word_unat_eq_iff unsigned_ucast_eq take_bit_nat_eq_self
      split: if_splits)

lemma try_u32_SomeD: "try_u32 v = Some x \<Longrightarrow> v = ucast x"
  by (auto simp: try_u32_def word_le_nat_alt word_unat_eq_iff unsigned_ucast_eq take_bit_nat_eq_self
      split: if_splits)

lemma unat_of_u32: "n \<le> u32_max \<Longrightarrow> unat (of_nat n :: u32) = n"
  by (simp add: u32_max_def unat_of_nat)

lemma of_u32_inject: "n \<le> u32_max \<Longrightarrow> m \<le> u32_max \<Longrightarrow> (of_nat n :: u32) = of_nat m \<longleftrightarrow> n = m"
  by (metis unat_of_u32)

section \<open>Strings\<close>

text \<open>
  A Rust string is its UTF-8 code units, so a \<open>str\<close> is a \<open>string\<close> whose characters
  are the bytes of \<open>as_bytes\<close>. \<open>utf8_valid\<close> is the acceptance condition of
  \<open>core::str::from_utf8\<close> (no overlong forms, no surrogates, at most U+10FFFF).
\<close>

definition byte_of :: "char \<Rightarrow> u8" where
  "byte_of c = of_nat (of_char c)"

definition str_bytes :: "string \<Rightarrow> bytes" where
  "str_bytes s = map byte_of s"

definition bytes_str :: "bytes \<Rightarrow> string" where
  "bytes_str bs = map (\<lambda>b. char_of (unat b)) bs"

definition utf8_cont :: "u8 \<Rightarrow> bool" where
  "utf8_cont b \<longleftrightarrow> 0x80 \<le> b \<and> b \<le> 0xBF"

fun utf8_valid :: "bytes \<Rightarrow> bool" where
  "utf8_valid [] = True"
| "utf8_valid (a # bs) =
    (if a \<le> 0x7F then utf8_valid bs
     else if 0xC2 \<le> a \<and> a \<le> 0xDF then
       (case bs of b # bs' \<Rightarrow> utf8_cont b \<and> utf8_valid bs' | _ \<Rightarrow> False)
     else if 0xE0 \<le> a \<and> a \<le> 0xEF then
       (case bs of b # c # bs' \<Rightarrow>
          (if a = 0xE0 then 0xA0 \<le> b \<and> b \<le> 0xBF
           else if a = 0xED then 0x80 \<le> b \<and> b \<le> 0x9F else utf8_cont b)
          \<and> utf8_cont c \<and> utf8_valid bs'
        | _ \<Rightarrow> False)
     else if 0xF0 \<le> a \<and> a \<le> 0xF4 then
       (case bs of b # c # d # bs' \<Rightarrow>
          (if a = 0xF0 then 0x90 \<le> b \<and> b \<le> 0xBF
           else if a = 0xF4 then 0x80 \<le> b \<and> b \<le> 0x8F else utf8_cont b)
          \<and> utf8_cont c \<and> utf8_cont d \<and> utf8_valid bs'
        | _ \<Rightarrow> False)
     else False)"

definition str_ok :: "string \<Rightarrow> bool" where
  "str_ok s \<longleftrightarrow> utf8_valid (str_bytes s)"

lemma char_of_unat_byte_of [simp]: "char_of (unat (byte_of c)) = c"
  by (simp add: byte_of_def unat_of_nat)

lemma byte_of_char_of_unat [simp]: "byte_of (char_of (unat b)) = b"
proof -
  have "unat b < 256" using unat_bound [of b] by simp
  then show ?thesis by (simp add: byte_of_def)
qed

lemma bytes_str_str_bytes [simp]: "bytes_str (str_bytes s) = s"
  by (simp add: bytes_str_def str_bytes_def comp_def)

lemma str_bytes_bytes_str [simp]: "str_bytes (bytes_str bs) = bs"
  by (simp add: bytes_str_def str_bytes_def comp_def)

lemma length_str_bytes [simp, length_simps]: "length (str_bytes s) = length s"
  by (simp add: str_bytes_def)

lemma length_bytes_str [simp, length_simps]: "length (bytes_str bs) = length bs"
  by (simp add: bytes_str_def)

lemma str_bytes_inject [simp]: "str_bytes s = str_bytes t \<longleftrightarrow> s = t"
  by (metis bytes_str_str_bytes)

section \<open>Randomness\<close>

text \<open>
  \<open>OsRng\<close> is a stream of bytes that the model takes as an argument: \<open>fill_bytes n\<close>
  hands out the next \<open>n\<close> bytes and the rest of the stream. Every theorem holds for
  every stream.
\<close>

type_synonym rng = "nat \<Rightarrow> u8"

definition fill_bytes :: "nat \<Rightarrow> rng \<Rightarrow> bytes \<times> rng" where
  "fill_bytes n r = (map r [0..<n], \<lambda>i. r (i + n))"

lemma length_fill_bytes [simp, length_simps]: "length (fst (fill_bytes n r)) = n"
  by (simp add: fill_bytes_def)

section \<open>Lists\<close>

lemma append_eq_same_length:
  "length a = length c \<Longrightarrow> a @ b = c @ d \<longleftrightarrow> a = c \<and> b = d"
  by auto

lemma take_append_drop_2: "n \<le> m \<Longrightarrow> take n xs @ take (m - n) (drop n xs) = take m xs"
  by (metis le_add_diff_inverse take_add)

end
