(* ===== verification/Errors.thy ===== *)
theory Errors
  imports Prelude
begin

text \<open>
  The error enums of the crates \<open>crypto\<close>, \<open>core\<close>, \<open>log\<close>, \<open>node\<close> and \<open>relay\<close>, with the
  sources' constructors. Two enums have a \<open>Verify\<close> variant and two a \<open>NotFound\<close>
  variant; those carry the enum's name in front.
\<close>

datatype crypto_error =
    InvalidKeyLength
  | Encrypt
  | Decrypt
  | CryptoVerify
  | InvalidPublicKey
  | UnsupportedSuite

datatype core_error =
    Cbor string
  | Crypto crypto_error
  | Cell string
  | Length
  | CoreVerify
  | Invalid string

datatype log_error =
    IndexOutOfRange
  | ProofInvalid
  | TreeHeadInvalid

datatype node_error =
    NodeNotFound
  | Protocol string

datatype relay_error =
    RelayNotFound

end
