(* ===== verification/Merkle.thy ===== *)
theory Merkle
  imports Errors "HOL-Library.While_Combinator"
begin

text \<open>
  The RFC 6962 tree of \<open>crates/log/src/merkle.rs\<close>: tree hash, inclusion proofs and
  consistency proofs, with their verifiers. SHA-256 is a parameter \<open>sha\<close> of every
  definition that hashes. Completeness (an honest proof is accepted) holds for any
  \<open>sha\<close>; soundness (an accepted proof tells the truth) is stated for a \<open>sha\<close> with
  32-byte digests that has no collision among the finitely many strings that the tree
  and the verifier really hash.
\<close>

section \<open>Hashing\<close>

type_synonym hash = bytes

definition leaf_hash :: "(bytes \<Rightarrow> hash) \<Rightarrow> bytes \<Rightarrow> hash" where
  "leaf_hash sha data = sha (0x00 # data)"

definition node_hash :: "(bytes \<Rightarrow> hash) \<Rightarrow> hash \<Rightarrow> hash \<Rightarrow> hash" where
  "node_hash sha left right = sha (0x01 # left @ right)"

definition largest_power_of_two_less :: "nat \<Rightarrow> nat" where
  "largest_power_of_two_less n = while (\<lambda>k. k * 2 < n) (\<lambda>k. k * 2) 1"

lemma largest_power_of_two_less_spec:
  assumes "1 < n"
  shows "(\<exists>e. largest_power_of_two_less n = 2 ^ e) \<and> largest_power_of_two_less n < n
    \<and> n \<le> 2 * largest_power_of_two_less n"
  unfolding largest_power_of_two_less_def
proof (rule while_rule [where P = "\<lambda>k. (\<exists>e. k = 2 ^ e) \<and> k < n" and r = "measure (\<lambda>k. n - k)"])
  show "(\<exists>e. (1::nat) = 2 ^ e) \<and> 1 < n" using assms by (metis power_0)
  fix k :: nat
  assume k: "(\<exists>e. k = 2 ^ e) \<and> k < n" and "k * 2 < n"
  then show "(\<exists>e. k * 2 = 2 ^ e) \<and> k * 2 < n" by (metis power_Suc2)
  from k have "0 < k" by auto
  with \<open>k * 2 < n\<close> show "(k * 2, k) \<in> measure (\<lambda>k. n - k)" by simp
next
  fix k :: nat
  assume "(\<exists>e. k = 2 ^ e) \<and> k < n" and "\<not> k * 2 < n"
  then show "(\<exists>e. k = 2 ^ e) \<and> k < n \<and> n \<le> 2 * k" by simp
qed simp

lemma split_bounds:
  assumes "1 < n"
  shows "0 < largest_power_of_two_less n" and "largest_power_of_two_less n < n"
    and "n \<le> 2 * largest_power_of_two_less n"
  using largest_power_of_two_less_spec [OF assms] by auto

lemma split_sub: "1 < n \<Longrightarrow> n - largest_power_of_two_less n < n"
  using split_bounds(1) [of n] by simp

lemma split_length:
  assumes "leaves \<noteq> []" and "length leaves \<noteq> Suc 0"
  shows "largest_power_of_two_less (length leaves) < length leaves"
    and "length leaves - largest_power_of_two_less (length leaves) < length leaves"
proof -
  from assms have "1 < length leaves" by (cases leaves) auto
  then show "largest_power_of_two_less (length leaves) < length leaves"
    and "length leaves - largest_power_of_two_less (length leaves) < length leaves"
    by (rule split_bounds(2), rule split_sub)
qed

lemma power_of_two_between:
  assumes "(2::nat) ^ a < n" "n \<le> 2 * 2 ^ a" "2 ^ b < n" "n \<le> 2 * 2 ^ b"
  shows "a = b"
proof -
  have "(2::nat) ^ a < 2 ^ Suc b" "(2::nat) ^ b < 2 ^ Suc a" using assms by auto
  then have "a < Suc b" "b < Suc a" by (simp_all only: power_strict_increasing_iff one_less_numeral_iff semiring_norm)
  then show ?thesis by simp
qed

lemma split_unique:
  assumes "k = largest_power_of_two_less n" and "1 < n" and "k < m" and "m \<le> n"
  shows "largest_power_of_two_less m = k"
proof -
  from assms have "1 < m" using split_bounds(1) [of n] by simp
  from largest_power_of_two_less_spec [OF this] obtain a where
    a: "largest_power_of_two_less m = 2 ^ a" "2 ^ a < m" "m \<le> 2 * 2 ^ a" by auto
  from largest_power_of_two_less_spec [OF assms(2)] assms obtain b where
    b: "k = 2 ^ b" "2 ^ b < m" "m \<le> 2 * 2 ^ b" by auto
  from power_of_two_between [OF a(2,3) b(2,3)] a b show ?thesis by simp
qed

function mth :: "(bytes \<Rightarrow> hash) \<Rightarrow> hash list \<Rightarrow> hash" where
  "mth sha leaves =
    (if length leaves = 0 then sha []
     else if length leaves = 1 then leaves ! 0
     else let k = largest_power_of_two_less (length leaves);
              left = mth sha (take k leaves);
              right = mth sha (drop k leaves)
          in node_hash sha left right)"
  by pat_completeness auto
termination
  by (relation "measure (\<lambda>(sha, leaves). length leaves)") (auto simp: split_length min_less_iff_disj)

definition mth_data :: "(bytes \<Rightarrow> hash) \<Rightarrow> bytes list \<Rightarrow> hash" where
  "mth_data sha entries = mth sha (map (leaf_hash sha) entries)"

section \<open>Inclusion proofs\<close>

function path :: "(bytes \<Rightarrow> hash) \<Rightarrow> hash list \<Rightarrow> nat \<Rightarrow> hash list" where
  "path sha leaves index =
    (let n = length leaves in
     if n \<le> 1 then []
     else let k = largest_power_of_two_less n;
              proof = (if index < k then path sha (take k leaves) index
                       else path sha (drop k leaves) (index - k))
          in if index < k then proof @ [mth sha (drop k leaves)]
             else proof @ [mth sha (take k leaves)])"
  by pat_completeness auto
termination
  by (relation "measure (\<lambda>(sha, leaves, index). length leaves)") (auto simp: split_bounds split_sub min_less_iff_disj)

definition inclusion_proof ::
    "(bytes \<Rightarrow> hash) \<Rightarrow> hash list \<Rightarrow> nat \<Rightarrow> (hash list, log_error) res" where
  "inclusion_proof sha leaves index =
    (if index \<ge> length leaves then Err IndexOutOfRange else Ok (path sha leaves index))"

function compute_root ::
    "(bytes \<Rightarrow> hash) \<Rightarrow> hash \<Rightarrow> nat \<Rightarrow> nat \<Rightarrow> hash list \<Rightarrow> nat \<Rightarrow> (hash \<times> nat) option" where
  "compute_root sha leaf index n proof pos =
    (if n = 0 then None
     else if n = 1 then Some (leaf, pos)
     else let k = largest_power_of_two_less n in
       if index < k then
         (case compute_root sha leaf index k proof pos of
            None \<Rightarrow> None
          | Some (left, next) \<Rightarrow>
              if next < length proof
              then Some (node_hash sha left (proof ! next), next + 1) else None)
       else
         (case compute_root sha leaf (index - k) (n - k) proof pos of
            None \<Rightarrow> None
          | Some (right, next) \<Rightarrow>
              if next < length proof
              then Some (node_hash sha (proof ! next) right, next + 1) else None))"
  by pat_completeness auto
termination
  by (relation "measure (\<lambda>(sha, leaf, index, n, proof, pos). n)") (auto simp: split_bounds)

definition verify_inclusion ::
    "(bytes \<Rightarrow> hash) \<Rightarrow> hash \<Rightarrow> nat \<Rightarrow> nat \<Rightarrow> hash list \<Rightarrow> hash \<Rightarrow> bool" where
  "verify_inclusion sha leaf index tree_size proof root =
    (if index \<ge> tree_size \<or> tree_size = 0 then False
     else case compute_root sha leaf index tree_size proof 0 of
       Some (computed, used) \<Rightarrow> used = length proof \<and> computed = root
     | None \<Rightarrow> False)"

section \<open>Consistency proofs\<close>

text \<open>
  \<open>subproof\<close> and \<open>verify_subproof\<close> are private and only entered with \<open>0 < m\<close> and \<open>m \<le> n\<close>,
  which their recursion keeps (lemma \<open>split_domain\<close>). Outside, where the source would
  recurse for ever (\<open>m = 0\<close> and \<open>n = 1\<close>), the model stops with an empty answer.
\<close>

function subproof :: "(bytes \<Rightarrow> hash) \<Rightarrow> nat \<Rightarrow> hash list \<Rightarrow> bool \<Rightarrow> hash list" where
  "subproof sha m leaves old_known =
    (let n = length leaves in
     if m = n then (if old_known then [] else [mth sha leaves])
     else if n \<le> 1 then []
     else let k = largest_power_of_two_less n;
              proof = (if m \<le> k then subproof sha m (take k leaves) old_known
                       else subproof sha (m - k) (drop k leaves) False)
          in if m \<le> k then proof @ [mth sha (drop k leaves)]
             else proof @ [mth sha (take k leaves)])"
  by pat_completeness auto
termination
  by (relation "measure (\<lambda>(sha, m, leaves, old_known). length leaves)")
    (auto simp: split_bounds split_sub min_less_iff_disj)

definition consistency_proof ::
    "(bytes \<Rightarrow> hash) \<Rightarrow> hash list \<Rightarrow> nat \<Rightarrow> (hash list, log_error) res" where
  "consistency_proof sha leaves m =
    (if m > length leaves then Err IndexOutOfRange
     else if m = 0 \<or> m = length leaves then Ok []
     else Ok (subproof sha m leaves True))"

function verify_subproof ::
    "(bytes \<Rightarrow> hash) \<Rightarrow> nat \<Rightarrow> nat \<Rightarrow> hash \<Rightarrow> hash list \<Rightarrow> nat \<Rightarrow> bool
      \<Rightarrow> (hash \<times> hash \<times> nat) option" where
  "verify_subproof sha m n old_root proof pos old_known =
    (if m = n then
       (if old_known then Some (old_root, old_root, pos)
        else if pos < length proof then Some (proof ! pos, proof ! pos, pos + 1) else None)
     else if n \<le> 1 then None
     else let k = largest_power_of_two_less n in
       if m \<le> k then
         (case verify_subproof sha m k old_root proof pos old_known of
            None \<Rightarrow> None
          | Some (old, new_left, next) \<Rightarrow>
              if next < length proof
              then Some (old, node_hash sha new_left (proof ! next), next + 1) else None)
       else
         (case verify_subproof sha (m - k) (n - k) old_root proof pos False of
            None \<Rightarrow> None
          | Some (old_right, new_right, next) \<Rightarrow>
              if next < length proof
              then Some (node_hash sha (proof ! next) old_right,
                         node_hash sha (proof ! next) new_right, next + 1)
              else None))"
  by pat_completeness auto
termination
  by (relation "measure (\<lambda>(sha, m, n, old_root, proof, pos, old_known). n)") (auto simp: split_bounds)

definition verify_consistency ::
    "(bytes \<Rightarrow> hash) \<Rightarrow> nat \<Rightarrow> nat \<Rightarrow> hash \<Rightarrow> hash \<Rightarrow> hash list \<Rightarrow> bool" where
  "verify_consistency sha m n old_root new_root proof =
    (if m > n then False
     else if m = 0 then (let empty = mth sha [] in proof = [] \<and> old_root = empty)
     else if m = n then proof = [] \<and> old_root = new_root
     else case verify_subproof sha m n old_root proof 0 True of
       Some (old, new, used) \<Rightarrow> used = length proof \<and> old = old_root \<and> new = new_root
     | None \<Rightarrow> False)"

declare mth.simps [simp del] path.simps [simp del] compute_root.simps [simp del]
  subproof.simps [simp del] verify_subproof.simps [simp del]

section \<open>Unfolding at a split\<close>

abbreviation cut :: "nat \<Rightarrow> nat" where
  "cut \<equiv> largest_power_of_two_less"

lemma mth_Nil [simp]: "mth sha [] = sha []"
  by (simp add: mth.simps)

lemma mth_single [simp]: "mth sha [x] = x"
  by (simp add: mth.simps)

lemma mth_split:
  "1 < length leaves \<Longrightarrow> mth sha leaves =
    node_hash sha (mth sha (take (cut (length leaves)) leaves)) (mth sha (drop (cut (length leaves)) leaves))"
  by (subst mth.simps) (auto simp: Let_def)

lemma path_single: "length leaves \<le> 1 \<Longrightarrow> path sha leaves i = []"
  by (simp add: path.simps)

lemma path_left:
  "1 < length leaves \<Longrightarrow> i < cut (length leaves) \<Longrightarrow> path sha leaves i =
    path sha (take (cut (length leaves)) leaves) i @ [mth sha (drop (cut (length leaves)) leaves)]"
  by (subst path.simps) (simp add: Let_def)

lemma path_right:
  "1 < length leaves \<Longrightarrow> \<not> i < cut (length leaves) \<Longrightarrow> path sha leaves i =
    path sha (drop (cut (length leaves)) leaves) (i - cut (length leaves))
      @ [mth sha (take (cut (length leaves)) leaves)]"
  by (subst path.simps) (simp add: Let_def)

lemma compute_root_one [simp]: "compute_root sha leaf i (Suc 0) proof pos = Some (leaf, pos)"
  by (simp add: compute_root.simps)

lemma compute_root_left:
  "1 < n \<Longrightarrow> i < cut n \<Longrightarrow> compute_root sha leaf i n proof pos =
    (case compute_root sha leaf i (cut n) proof pos of None \<Rightarrow> None
     | Some (left, next) \<Rightarrow> if next < length proof
         then Some (node_hash sha left (proof ! next), next + 1) else None)"
  by (subst compute_root.simps) (simp add: Let_def)

lemma compute_root_right:
  "1 < n \<Longrightarrow> \<not> i < cut n \<Longrightarrow> compute_root sha leaf i n proof pos =
    (case compute_root sha leaf (i - cut n) (n - cut n) proof pos of None \<Rightarrow> None
     | Some (right, next) \<Rightarrow> if next < length proof
         then Some (node_hash sha (proof ! next) right, next + 1) else None)"
  by (subst compute_root.simps) (simp add: Let_def)

text \<open>Induction along the splits of a tree with \<open>n\<close> leaves.\<close>

lemma split_induct [consumes 1, case_names one node]:
  assumes "0 < n"
    and one: "P 1"
    and node: "\<And>n. 1 < n \<Longrightarrow> P (cut n) \<Longrightarrow> P (n - cut n) \<Longrightarrow> P n"
  shows "P n"
  using assms(1)
proof (induction n rule: less_induct)
  case (less n)
  show ?case
  proof (cases "n = 1")
    case True
    with one show ?thesis by simp
  next
    case False
    with less.prems have n: "1 < n" by simp
    have "P (cut n)" and "P (n - cut n)"
      using less.IH [of "cut n"] less.IH [of "n - cut n"] split_bounds [OF n] by simp_all
    with n show ?thesis by (rule node)
  qed
qed

section \<open>Completeness\<close>

lemma compute_root_complete:
  assumes "0 < n"
  shows "length leaves = n \<Longrightarrow> i < n \<Longrightarrow>
    compute_root sha (leaves ! i) i n (pre @ path sha leaves i @ suf) (length pre)
      = Some (mth sha leaves, length pre + length (path sha leaves i))"
  using assms
proof (induction n arbitrary: leaves i suf rule: split_induct)
  case one
  then obtain x where "leaves = [x]" by (cases leaves) auto
  with one show ?case by (simp add: path_single)
next
  case (node n)
  note k = split_bounds [OF node.hyps]
  have len: "length (take (cut n) leaves) = cut n" "length (drop (cut n) leaves) = n - cut n"
    using k node.prems by auto
  show ?case
  proof (cases "i < cut n")
    case True
    from node.IH(1) [OF len(1) True] True node k show ?thesis
      by (simp add: compute_root_left path_left mth_split nth_append)
  next
    case False
    then have "i - cut n < n - cut n" using node.prems k by simp
    from node.IH(2) [OF len(2) this] False node k show ?thesis
      by (simp add: compute_root_right path_right mth_split nth_append)
  qed
qed

text \<open>
  C7. Every leaf of every tree has an inclusion proof, and the verifier accepts it against
  the tree's root; an index that is no leaf is refused.
\<close>

theorem inclusion_complete:
  "(case inclusion_proof sha leaves i of
      Ok proof \<Rightarrow> i < length leaves \<and>
        verify_inclusion sha (leaves ! i) i (length leaves) proof (mth sha leaves)
    | Err e \<Rightarrow> length leaves \<le> i \<and> e = IndexOutOfRange
    | Panic \<Rightarrow> False)"
  using compute_root_complete [of "length leaves" leaves i sha "[]" "[]"]
  by (cases "i < length leaves") (auto simp: inclusion_proof_def verify_inclusion_def)

section \<open>Soundness of inclusion\<close>

definition digest32 :: "(bytes \<Rightarrow> hash) \<Rightarrow> bool" where
  "digest32 sha \<longleftrightarrow> (\<forall>x. length (sha x) = 32)"

text \<open>The strings hashed for the inner nodes of a tree, and those hashed by the verifier.\<close>

function mth_inputs :: "(bytes \<Rightarrow> hash) \<Rightarrow> hash list \<Rightarrow> bytes list" where
  "mth_inputs sha leaves =
    (if length leaves \<le> 1 then []
     else let k = cut (length leaves) in
       (0x01 # mth sha (take k leaves) @ mth sha (drop k leaves))
         # mth_inputs sha (take k leaves) @ mth_inputs sha (drop k leaves))"
  by pat_completeness auto
termination
  by (relation "measure (\<lambda>(sha, leaves). length leaves)")
    (auto simp: split_bounds split_sub min_less_iff_disj)

function root_inputs ::
    "(bytes \<Rightarrow> hash) \<Rightarrow> hash \<Rightarrow> nat \<Rightarrow> nat \<Rightarrow> hash list \<Rightarrow> nat \<Rightarrow> bytes list" where
  "root_inputs sha leaf i n proof pos =
    (if n \<le> 1 then []
     else let k = cut n in
       if i < k then
         (case compute_root sha leaf i k proof pos of None \<Rightarrow> []
          | Some (left, next) \<Rightarrow> (0x01 # left @ proof ! next) # root_inputs sha leaf i k proof pos)
       else
         (case compute_root sha leaf (i - k) (n - k) proof pos of None \<Rightarrow> []
          | Some (right, next) \<Rightarrow>
              (0x01 # (proof ! next) @ right) # root_inputs sha leaf (i - k) (n - k) proof pos))"
  by pat_completeness auto
termination
  by (relation "measure (\<lambda>(sha, leaf, i, n, proof, pos). n)") (auto simp: split_bounds split_sub)

declare mth_inputs.simps [simp del] root_inputs.simps [simp del]

lemma mth_inputs_split:
  "1 < length leaves \<Longrightarrow> mth_inputs sha leaves =
    (0x01 # mth sha (take (cut (length leaves)) leaves) @ mth sha (drop (cut (length leaves)) leaves))
      # mth_inputs sha (take (cut (length leaves)) leaves) @ mth_inputs sha (drop (cut (length leaves)) leaves)"
  by (subst mth_inputs.simps) (simp add: Let_def)

lemma root_inputs_left:
  "1 < n \<Longrightarrow> i < cut n \<Longrightarrow> compute_root sha leaf i (cut n) proof pos = Some (left, next) \<Longrightarrow>
    root_inputs sha leaf i n proof pos
      = (0x01 # left @ proof ! next) # root_inputs sha leaf i (cut n) proof pos"
  by (subst root_inputs.simps) (simp add: Let_def)

lemma root_inputs_right:
  "1 < n \<Longrightarrow> \<not> i < cut n \<Longrightarrow>
    compute_root sha leaf (i - cut n) (n - cut n) proof pos = Some (right, next) \<Longrightarrow>
    root_inputs sha leaf i n proof pos
      = (0x01 # (proof ! next) @ right) # root_inputs sha leaf (i - cut n) (n - cut n) proof pos"
  by (subst root_inputs.simps) (simp add: Let_def)

lemma length_node_hash: "digest32 sha \<Longrightarrow> length (node_hash sha l r) = 32"
  by (simp add: digest32_def node_hash_def)

lemma length_mth:
  assumes "digest32 sha" and "\<forall>l \<in> set leaves. length l = 32"
  shows "length (mth sha leaves) = 32"
proof (cases "1 < length leaves")
  case True
  with assms show ?thesis by (simp add: mth_split length_node_hash)
next
  case False
  then show ?thesis using assms by (cases leaves) (auto simp: digest32_def)
qed

lemma length_compute_root:
  assumes "digest32 sha" and "compute_root sha leaf i n proof pos = Some (h, nx)" and "length leaf = 32"
  shows "length h = 32"
proof -
  consider "n = 0" | "n = 1" | "1 < n" by linarith
  then show ?thesis
  proof cases
    case 3
    with assms show ?thesis
      by (cases "i < cut n")
        (auto simp: compute_root_left compute_root_right length_node_hash split: option.splits if_splits)
  qed (use assms in \<open>auto simp: compute_root.simps\<close>)
qed

lemma node_hash_injD:
  assumes "node_hash sha l r = node_hash sha l' r'" and "inj_on sha S"
    and "0x01 # l @ r \<in> S" and "0x01 # l' @ r' \<in> S"
    and "length l = length l' \<or> length r = length r'"
  shows "l = l' \<and> r = r'"
proof -
  from assms(1-4) have "0x01 # l @ r = 0x01 # l' @ r'"
    by (auto simp: node_hash_def dest: inj_onD)
  with assms(5) show ?thesis by auto
qed

lemma compute_root_leftE:
  assumes "compute_root sha leaf i n proof pos = Some (h, nxt)" and "1 < n" and "i < cut n"
  obtains left nx where "compute_root sha leaf i (cut n) proof pos = Some (left, nx)"
    and "nx < length proof" and "h = node_hash sha left (proof ! nx)" and "nxt = nx + 1"
    and "set (root_inputs sha leaf i n proof pos)
      = insert (0x01 # left @ proof ! nx) (set (root_inputs sha leaf i (cut n) proof pos))"
  using assms by (auto simp: compute_root_left root_inputs_left split: option.splits if_splits)

lemma compute_root_rightE:
  assumes "compute_root sha leaf i n proof pos = Some (h, nxt)" and "1 < n" and "\<not> i < cut n"
  obtains right nx where "compute_root sha leaf (i - cut n) (n - cut n) proof pos = Some (right, nx)"
    and "nx < length proof" and "h = node_hash sha (proof ! nx) right" and "nxt = nx + 1"
    and "set (root_inputs sha leaf i n proof pos)
      = insert (0x01 # (proof ! nx) @ right) (set (root_inputs sha leaf (i - cut n) (n - cut n) proof pos))"
  using assms by (auto simp: compute_root_right root_inputs_right split: option.splits if_splits)

text \<open>A node of the tree and a node of the verifier with the same hash have the same children.\<close>

lemma mth_node_injD:
  assumes "node_hash sha l r = mth sha leaves" and "1 < length leaves" and "inj_on sha S"
    and "set (mth_inputs sha leaves) \<subseteq> S" and "0x01 # l @ r \<in> S"
    and "digest32 sha" and "\<forall>x \<in> set leaves. length x = 32" and "length l = 32 \<or> length r = 32"
  shows "l = mth sha (take (cut (length leaves)) leaves)"
    and "r = mth sha (drop (cut (length leaves)) leaves)"
proof -
  let ?L = "take (cut (length leaves)) leaves" and ?R = "drop (cut (length leaves)) leaves"
  have l32: "length (mth sha ?L) = 32" "length (mth sha ?R) = 32"
    using assms(6,7) by (auto intro!: length_mth dest: in_set_takeD in_set_dropD)
  have "l = mth sha ?L \<and> r = mth sha ?R"
  proof (rule node_hash_injD [OF _ assms(3,5)])
    show "node_hash sha l r = node_hash sha (mth sha ?L) (mth sha ?R)"
      using assms(1,2) by (simp add: mth_split)
    show "0x01 # mth sha ?L @ mth sha ?R \<in> S"
      using assms(2,4) by (simp add: mth_inputs_split)
  qed (use l32 assms(8) in auto)
  then show "l = mth sha ?L" and "r = mth sha ?R" by auto
qed

lemma compute_root_sound:
  assumes "0 < n" and sha: "digest32 sha" "inj_on sha S" and leaf: "length leaf = 32"
  shows "length leaves = n \<Longrightarrow> i < n \<Longrightarrow> \<forall>l \<in> set leaves. length l = 32 \<Longrightarrow>
    set (mth_inputs sha leaves) \<subseteq> S \<Longrightarrow> set (root_inputs sha leaf i n proof pos) \<subseteq> S \<Longrightarrow>
    compute_root sha leaf i n proof pos = Some (mth sha leaves, nxt) \<Longrightarrow>
    leaf = leaves ! i \<and> nxt = pos + length (path sha leaves i)
      \<and> take (length (path sha leaves i)) (drop pos proof) = path sha leaves i"
  using assms(1)
proof (induction n arbitrary: leaves i nxt rule: split_induct)
  case one
  then obtain x where "leaves = [x]" by (cases leaves) auto
  with one show ?case by (auto simp: path_single)
next
  case (node n)
  note k = split_bounds [OF node.hyps]
  let ?L = "take (cut n) leaves" and ?R = "drop (cut n) leaves"
  have len: "length ?L = cut n" "length ?R = n - cut n" using k node.prems by auto
  have l32: "\<forall>l \<in> set ?L. length l = 32" "\<forall>l \<in> set ?R. length l = 32"
    using node.prems(3) by (auto dest: in_set_takeD in_set_dropD)
  have n1: "1 < length leaves" using node by simp
  have sub: "set (mth_inputs sha ?L) \<subseteq> S" "set (mth_inputs sha ?R) \<subseteq> S"
    using node.prems(1,4) n1 by (auto simp: mth_inputs_split)
  note child = mth_node_injD [OF _ n1 sha(2) node.prems(4) _ sha(1) node.prems(3), unfolded node.prems(1)]
  show ?case
  proof (cases "i < cut n")
    case True
    from compute_root_leftE [OF node.prems(6) node.hyps True] obtain left nx where
      r: "compute_root sha leaf i (cut n) proof pos = Some (left, nx)" "nx < length proof"
        "mth sha leaves = node_hash sha left (proof ! nx)" "nxt = nx + 1"
      and ins: "set (root_inputs sha leaf i n proof pos)
        = insert (0x01 # left @ proof ! nx) (set (root_inputs sha leaf i (cut n) proof pos))" by blast
    have "left = mth sha ?L" "proof ! nx = mth sha ?R"
      using child [of left "proof ! nx"] r(3) ins node.prems(5) length_compute_root [OF sha(1) r(1) leaf]
      by auto
    with node.IH(1) [OF len(1) True l32(1) sub(1)] r ins node.prems(1,5) True n1 show ?thesis
      by (auto simp: path_left take_Suc_conv_app_nth)
  next
    case False
    then have i: "i - cut n < n - cut n" using node.prems k by simp
    from compute_root_rightE [OF node.prems(6) node.hyps False] obtain right nx where
      r: "compute_root sha leaf (i - cut n) (n - cut n) proof pos = Some (right, nx)" "nx < length proof"
        "mth sha leaves = node_hash sha (proof ! nx) right" "nxt = nx + 1"
      and ins: "set (root_inputs sha leaf i n proof pos)
        = insert (0x01 # (proof ! nx) @ right) (set (root_inputs sha leaf (i - cut n) (n - cut n) proof pos))"
      by blast
    have "right = mth sha ?R" "proof ! nx = mth sha ?L"
      using child [of "proof ! nx" right] r(3) ins node.prems(5) length_compute_root [OF sha(1) r(1) leaf]
      by auto
    moreover have "?R ! (i - cut n) = leaves ! i" using False k node.prems(1) by simp
    ultimately show ?thesis
      using node.IH(2) [OF len(2) i l32(2) sub(2)] r ins node.prems(1,5) False n1
      by (auto simp: path_right take_Suc_conv_app_nth)
  qed
qed

text \<open>
  C5. Inclusion proofs are sound and not malleable. If the verifier accepts a leaf at index
  \<open>i\<close> against the root of a tree, and SHA-256 has no collision among the strings hashed
  for the tree's inner nodes and by the verifier, then the leaf is the tree's leaf \<open>i\<close>
  and the proof is the one \<open>inclusion_proof\<close> generates.
\<close>

theorem inclusion_sound:
  assumes "verify_inclusion sha leaf i (length leaves) proof (mth sha leaves)"
    and "digest32 sha" and "length leaf = 32" and "\<forall>l \<in> set leaves. length l = 32"
    and "inj_on sha (set (mth_inputs sha leaves) \<union> set (root_inputs sha leaf i (length leaves) proof 0))"
  shows "leaf = leaves ! i \<and> inclusion_proof sha leaves i = Ok proof"
proof -
  from assms(1) have i: "i < length leaves"
    and r: "compute_root sha leaf i (length leaves) proof 0 = Some (mth sha leaves, length proof)"
    by (auto simp: verify_inclusion_def split: if_splits option.splits)
  from i have "0 < length leaves" by auto
  from compute_root_sound [OF this assms(2,5,3) refl i assms(4) Un_upper1 Un_upper2 r]
  have "leaf = leaves ! i" "proof = path sha leaves i" by auto
  with i show ?thesis by (simp add: inclusion_proof_def)
qed

theorem inclusion_sound_witness:
  "verify_inclusion (\<lambda>x. take 32 (x @ replicate 32 0)) (replicate 32 5) 0 2 [replicate 32 6]
     (mth (\<lambda>x. take 32 (x @ replicate 32 0)) [replicate 32 5, replicate 32 6])
   \<and> inclusion_proof (\<lambda>x. take 32 (x @ replicate 32 0)) [replicate 32 5, replicate 32 6] 0
     = Ok [replicate 32 6]"
proof -
  let ?sha = "\<lambda>x :: bytes. take 32 (x @ replicate 32 (0 :: u8))"
  let ?l = "[replicate 32 5, replicate 32 6] :: hash list"
  have acc: "verify_inclusion ?sha (replicate 32 5) 0 (length ?l) [replicate 32 6] (mth ?sha ?l)"
    by code_simp
  have sha: "digest32 ?sha" by (auto simp: digest32_def min_def)
  have "set (mth_inputs ?sha ?l) \<union> set (root_inputs ?sha (replicate 32 5) 0 (length ?l) [replicate 32 6] 0)
      = {0x01 # replicate 32 5 @ replicate 32 6}"
    by code_simp
  then have inj: "inj_on ?sha (set (mth_inputs ?sha ?l)
      \<union> set (root_inputs ?sha (replicate 32 5) 0 (length ?l) [replicate 32 6] 0))"
    by (simp only: inj_on_insert inj_on_empty) simp
  from inclusion_sound [OF acc sha _ _ inj] acc show ?thesis by (simp add: numeral_2_eq_2)
qed

section \<open>Consistency\<close>

lemma subproof_same: "m = length leaves \<Longrightarrow> subproof sha m leaves known = (if known then [] else [mth sha leaves])"
  by (simp add: subproof.simps)

lemma subproof_left:
  "1 < length leaves \<Longrightarrow> m \<le> cut (length leaves) \<Longrightarrow> subproof sha m leaves known =
    subproof sha m (take (cut (length leaves)) leaves) known @ [mth sha (drop (cut (length leaves)) leaves)]"
  using split_bounds [of "length leaves"] by (subst subproof.simps) (simp add: Let_def)

lemma subproof_right:
  "1 < length leaves \<Longrightarrow> \<not> m \<le> cut (length leaves) \<Longrightarrow> m < length leaves \<Longrightarrow> subproof sha m leaves known =
    subproof sha (m - cut (length leaves)) (drop (cut (length leaves)) leaves) False
      @ [mth sha (take (cut (length leaves)) leaves)]"
  by (subst subproof.simps) (simp add: Let_def)

lemma verify_subproof_same:
  "verify_subproof sha n n old_root proof pos known =
    (if known then Some (old_root, old_root, pos)
     else if pos < length proof then Some (proof ! pos, proof ! pos, pos + 1) else None)"
  by (simp add: verify_subproof.simps)

lemma verify_subproof_left:
  "1 < n \<Longrightarrow> m \<le> cut n \<Longrightarrow> verify_subproof sha m n old_root proof pos known =
    (case verify_subproof sha m (cut n) old_root proof pos known of None \<Rightarrow> None
     | Some (old, new_left, next) \<Rightarrow> if next < length proof
         then Some (old, node_hash sha new_left (proof ! next), next + 1) else None)"
  using split_bounds [of n] by (subst verify_subproof.simps) (simp add: Let_def)

lemma verify_subproof_right:
  "1 < n \<Longrightarrow> \<not> m \<le> cut n \<Longrightarrow> m < n \<Longrightarrow> verify_subproof sha m n old_root proof pos known =
    (case verify_subproof sha (m - cut n) (n - cut n) old_root proof pos False of None \<Rightarrow> None
     | Some (old_right, new_right, next) \<Rightarrow> if next < length proof
         then Some (node_hash sha (proof ! next) old_right, node_hash sha (proof ! next) new_right, next + 1)
         else None)"
  by (subst verify_subproof.simps) (simp add: Let_def)

text \<open>The recursion stays where \<open>0 < m \<le> n\<close>, the domain on which the source terminates.\<close>

lemma split_domain:
  assumes "0 < m" and "m \<le> n" and "1 < n"
  shows "if m \<le> cut n then 0 < m \<and> m \<le> cut n else 0 < m - cut n \<and> m - cut n \<le> n - cut n"
  using assms by auto

lemma mth_prefix_right:
  assumes "length leaves = n" and "1 < n" and "cut n < m" and "m \<le> n"
  shows "mth sha (take m leaves) =
    node_hash sha (mth sha (take (cut n) leaves)) (mth sha (take (m - cut n) (drop (cut n) leaves)))"
proof -
  have "cut m = cut n" using split_unique [of "cut n" n m] assms by simp
  moreover have "1 < m" and "length (take m leaves) = m"
    using assms split_bounds [OF assms(2)] by auto
  ultimately have "mth sha (take m leaves) =
      node_hash sha (mth sha (take (cut n) (take m leaves))) (mth sha (drop (cut n) (take m leaves)))"
    by (metis mth_split)
  with assms(3) show ?thesis by (simp add: drop_take min_absorb1)
qed

lemma verify_subproof_complete:
  assumes "0 < n"
  shows "length leaves = n \<Longrightarrow> 0 < m \<Longrightarrow> m \<le> n \<Longrightarrow> (known \<Longrightarrow> old_root = mth sha (take m leaves)) \<Longrightarrow>
    verify_subproof sha m n old_root (pre @ subproof sha m leaves known @ suf) (length pre) known
      = Some (mth sha (take m leaves), mth sha leaves, length pre + length (subproof sha m leaves known))"
  using assms
proof (induction n arbitrary: leaves m known suf rule: split_induct)
  case one
  then have "m = 1" by simp
  with one show ?case by (simp add: verify_subproof_same subproof_same nth_append)
next
  case (node n)
  note k = split_bounds [OF node.hyps]
  have len: "length (take (cut n) leaves) = cut n" "length (drop (cut n) leaves) = n - cut n"
    using k node.prems by auto
  consider "m = n" | "m \<le> cut n" | "\<not> m \<le> cut n" "m < n" using node.prems by linarith
  then show ?case
  proof cases
    case 1
    with node.prems show ?thesis by (simp add: verify_subproof_same subproof_same nth_append)
  next
    case 2
    with k node.prems have "known \<Longrightarrow> old_root = mth sha (take m (take (cut n) leaves))" by (simp add: min_def)
    from node.IH(1) [OF len(1) node.prems(2) 2 this] 2 node.hyps node.prems(1) mth_split [of leaves sha]
    show ?thesis by (simp add: verify_subproof_left subproof_left nth_append min_def)
  next
    case 3
    then have m: "0 < m - cut n" "m - cut n \<le> n - cut n" by auto
    have "mth sha (take m leaves) = node_hash sha (mth sha (take (cut n) leaves))
        (mth sha (take (m - cut n) (drop (cut n) leaves)))"
      using 3 node by (intro mth_prefix_right) auto
    with node.IH(2) [OF len(2) m, of False] 3 node.hyps node.prems(1) mth_split [of leaves sha]
    show ?thesis by (simp add: verify_subproof_right subproof_right nth_append)
  qed
qed

text \<open>
  C8. Every prefix of every tree has a consistency proof that the verifier accepts between the
  two roots; a size beyond the tree is refused.
\<close>

theorem consistency_complete:
  "(case consistency_proof sha leaves m of
      Ok proof \<Rightarrow> m \<le> length leaves \<and>
        verify_consistency sha m (length leaves) (mth sha (take m leaves)) (mth sha leaves) proof
    | Err e \<Rightarrow> length leaves < m \<and> e = IndexOutOfRange
    | Panic \<Rightarrow> False)"
proof (cases "0 < m \<and> m < length leaves")
  case True
  then have "0 < length leaves" by auto
  from verify_subproof_complete [OF this refl, of m True "mth sha (take m leaves)" sha "[]" "[]"] True
  show ?thesis by (simp add: consistency_proof_def verify_consistency_def)
qed (auto simp: consistency_proof_def verify_consistency_def)

text \<open>The strings the verifier hashes on the way to the new root.\<close>

function new_inputs ::
    "(bytes \<Rightarrow> hash) \<Rightarrow> nat \<Rightarrow> nat \<Rightarrow> hash \<Rightarrow> hash list \<Rightarrow> nat \<Rightarrow> bool \<Rightarrow> bytes list" where
  "new_inputs sha m n old_root proof pos known =
    (if m = n \<or> n \<le> 1 then []
     else let k = cut n in
       if m \<le> k then
         (case verify_subproof sha m k old_root proof pos known of None \<Rightarrow> []
          | Some (old, new_left, next) \<Rightarrow>
              (0x01 # new_left @ proof ! next) # new_inputs sha m k old_root proof pos known)
       else
         (case verify_subproof sha (m - k) (n - k) old_root proof pos False of None \<Rightarrow> []
          | Some (old_right, new_right, next) \<Rightarrow>
              (0x01 # (proof ! next) @ new_right)
                # new_inputs sha (m - k) (n - k) old_root proof pos False))"
  by pat_completeness auto
termination
  by (relation "measure (\<lambda>(sha, m, n, old_root, proof, pos, known). n)") (auto simp: split_bounds split_sub)

declare new_inputs.simps [simp del]

lemma verify_subproof_leftE:
  assumes "verify_subproof sha m n old_root proof pos known = Some (old, new, nxt)"
    and "1 < n" and "m \<le> cut n"
  obtains new_left nx where
    "verify_subproof sha m (cut n) old_root proof pos known = Some (old, new_left, nx)"
    and "nx < length proof" and "new = node_hash sha new_left (proof ! nx)"
    and "set (new_inputs sha m n old_root proof pos known)
      = insert (0x01 # new_left @ proof ! nx) (set (new_inputs sha m (cut n) old_root proof pos known))"
  using assms split_bounds [OF assms(2)] new_inputs.simps [of sha m n old_root "proof" pos known]
  by (auto simp: verify_subproof_left Let_def split: option.splits if_splits)

lemma verify_subproof_rightE:
  assumes "verify_subproof sha m n old_root proof pos known = Some (old, new, nxt)"
    and "1 < n" and "\<not> m \<le> cut n" and "m < n"
  obtains old_right new_right nx where
    "verify_subproof sha (m - cut n) (n - cut n) old_root proof pos False = Some (old_right, new_right, nx)"
    and "nx < length proof" and "new = node_hash sha (proof ! nx) new_right"
    and "old = node_hash sha (proof ! nx) old_right"
    and "set (new_inputs sha m n old_root proof pos known)
      = insert (0x01 # (proof ! nx) @ new_right)
          (set (new_inputs sha (m - cut n) (n - cut n) old_root proof pos False))"
  using assms new_inputs.simps [of sha m n old_root "proof" pos known]
  by (auto simp: verify_subproof_right Let_def split: option.splits if_splits)

lemma verify_subproof_sound:
  assumes "0 < n" and sha: "digest32 sha" "inj_on sha S" and proof32: "\<forall>h \<in> set proof. length h = 32"
  shows "length leaves = n \<Longrightarrow> 0 < m \<Longrightarrow> m \<le> n \<Longrightarrow> \<forall>l \<in> set leaves. length l = 32 \<Longrightarrow>
    set (mth_inputs sha leaves) \<subseteq> S \<Longrightarrow> set (new_inputs sha m n old_root proof pos known) \<subseteq> S \<Longrightarrow>
    verify_subproof sha m n old_root proof pos known = Some (old, mth sha leaves, nxt) \<Longrightarrow>
    old = mth sha (take m leaves)"
  using assms(1)
proof (induction n arbitrary: leaves m known old nxt rule: split_induct)
  case one
  then have "m = 1" by simp
  with one show ?case by (auto simp: verify_subproof_same split: if_splits)
next
  case (node n)
  note k = split_bounds [OF node.hyps]
  let ?L = "take (cut n) leaves" and ?R = "drop (cut n) leaves"
  have len: "length ?L = cut n" "length ?R = n - cut n" using k node.prems by auto
  have l32: "\<forall>l \<in> set ?L. length l = 32" "\<forall>l \<in> set ?R. length l = 32"
    using node.prems(4) by (auto dest: in_set_takeD in_set_dropD)
  have n1: "1 < length leaves" using node by simp
  have sub: "set (mth_inputs sha ?L) \<subseteq> S" "set (mth_inputs sha ?R) \<subseteq> S"
    using node.prems(1,5) n1 by (auto simp: mth_inputs_split)
  note child = mth_node_injD [OF _ n1 sha(2) node.prems(5) _ sha(1) node.prems(4), unfolded node.prems(1)]
  consider "m = n" | "m \<le> cut n" | "\<not> m \<le> cut n" "m < n" using node.prems by linarith
  then show ?case
  proof cases
    case 1
    with node.prems show ?thesis by (auto simp: verify_subproof_same split: if_splits)
  next
    case 2
    from verify_subproof_leftE [OF node.prems(7) node.hyps 2] obtain new_left nx where
      r: "verify_subproof sha m (cut n) old_root proof pos known = Some (old, new_left, nx)"
        "nx < length proof" "mth sha leaves = node_hash sha new_left (proof ! nx)"
      and ins: "set (new_inputs sha m n old_root proof pos known)
        = insert (0x01 # new_left @ proof ! nx) (set (new_inputs sha m (cut n) old_root proof pos known))"
      by blast
    have "new_left = mth sha ?L"
      using child(1) [of new_left "proof ! nx"] r(2,3) ins node.prems(6) proof32 by auto
    with node.IH(1) [OF len(1) node.prems(2) 2 l32(1) sub(1)] r ins node.prems(6)
    have "old = mth sha (take m ?L)" by auto
    with 2 show ?thesis by (simp add: min_absorb1)
  next
    case 3
    then have m: "0 < m - cut n" "m - cut n \<le> n - cut n" by auto
    from verify_subproof_rightE [OF node.prems(7) node.hyps 3] obtain old_right new_right nx where
      r: "verify_subproof sha (m - cut n) (n - cut n) old_root proof pos False = Some (old_right, new_right, nx)"
        "nx < length proof" "mth sha leaves = node_hash sha (proof ! nx) new_right"
        "old = node_hash sha (proof ! nx) old_right"
      and ins: "set (new_inputs sha m n old_root proof pos known) = insert (0x01 # (proof ! nx) @ new_right)
          (set (new_inputs sha (m - cut n) (n - cut n) old_root proof pos False))" by blast
    have "new_right = mth sha ?R" "proof ! nx = mth sha ?L"
      using child [of "proof ! nx" new_right] r(2,3) ins node.prems(6) proof32 by auto
    with node.IH(2) [OF len(2) m l32(2) sub(2), of False] r ins node.prems(6)
    have "old = node_hash sha (mth sha ?L) (mth sha (take (m - cut n) ?R))" by auto
    with 3 node.hyps node.prems(1) show ?thesis by (simp add: mth_prefix_right)
  qed
qed

text \<open>
  C6. Consistency proofs are sound. If the verifier accepts a non-empty old tree of size \<open>m\<close>
  against the root of a tree, and SHA-256 has no collision among the strings hashed for
  the tree's inner nodes and by the verifier, then the old root is the root of the
  tree's first \<open>m\<close> leaves: the log has only grown.
\<close>

theorem consistency_sound:
  assumes "verify_consistency sha m (length leaves) old_root (mth sha leaves) proof"
    and "0 < m" and "digest32 sha"
    and "\<forall>l \<in> set leaves. length l = 32" and "\<forall>h \<in> set proof. length h = 32"
    and "inj_on sha (set (mth_inputs sha leaves)
      \<union> set (new_inputs sha m (length leaves) old_root proof 0 True))"
  shows "m \<le> length leaves \<and> old_root = mth sha (take m leaves)"
proof (cases "m = length leaves")
  case True
  with assms show ?thesis by (simp add: verify_consistency_def)
next
  case False
  with assms(1,2) have m: "m < length leaves"
    and v: "verify_subproof sha m (length leaves) old_root proof 0 True
      = Some (old_root, mth sha leaves, length proof)"
    by (auto simp: verify_consistency_def split: if_splits option.splits)
  from m have "0 < length leaves" and "m \<le> length leaves" by auto
  from verify_subproof_sound [OF this(1) assms(3,6,5) refl assms(2) this(2) assms(4) Un_upper1 Un_upper2 v] m
  show ?thesis by simp
qed

theorem consistency_sound_witness:
  "verify_consistency (\<lambda>x. take 32 (x @ replicate 32 0)) 1 2 (replicate 32 5)
     (mth (\<lambda>x. take 32 (x @ replicate 32 0)) [replicate 32 5, replicate 32 6]) [replicate 32 6]
   \<and> replicate 32 5 = mth (\<lambda>x. take 32 (x @ replicate 32 0)) [replicate 32 5]"
proof -
  let ?sha = "\<lambda>x :: bytes. take 32 (x @ replicate 32 (0 :: u8))"
  let ?l = "[replicate 32 5, replicate 32 6] :: hash list"
  have acc: "verify_consistency ?sha 1 (length ?l) (replicate 32 5) (mth ?sha ?l) [replicate 32 6]"
    by code_simp
  have sha: "digest32 ?sha" by (auto simp: digest32_def min_def)
  have "set (mth_inputs ?sha ?l) \<union> set (new_inputs ?sha 1 (length ?l) (replicate 32 5) [replicate 32 6] 0 True)
      = {0x01 # replicate 32 5 @ replicate 32 6}"
    by code_simp
  then have inj: "inj_on ?sha (set (mth_inputs ?sha ?l)
      \<union> set (new_inputs ?sha 1 (length ?l) (replicate 32 5) [replicate 32 6] 0 True))"
    by (simp only: inj_on_insert inj_on_empty) simp
  from consistency_sound [OF acc _ sha _ _ inj] acc show ?thesis by (simp add: numeral_2_eq_2)
qed

section \<open>The split at machine width\<close>

text \<open>
  The \<open>while\<close> loop on a 64-bit \<open>usize\<close>, as the release build runs it (no overflow checks):
  \<open>k * 2\<close> wraps. Whether it returns is part of the model: \<open>None\<close> is a loop that never ends.
\<close>

partial_function (option) double_below :: "u64 \<Rightarrow> u64 \<Rightarrow> u64 option" where
  "double_below n k = (if k * 2 < n then double_below n (k * 2) else Some k)"

definition largest_power_of_two_less_u64 :: "u64 \<Rightarrow> u64 option" where
  "largest_power_of_two_less_u64 n = double_below n 1"

lemma double_below_Some:
  "double_below n k = Some y \<Longrightarrow> \<not> y * 2 < n \<and> (\<exists>i. y = k * 2 ^ i)"
proof (erule double_below.raw_induct [rotated, where P = "\<lambda>n k y. \<not> y * 2 < n \<and> (\<exists>i. y = k * 2 ^ i)"])
  fix loop :: "u64 \<Rightarrow> u64 \<Rightarrow> u64 option" and n k y
  assume ih: "\<And>n k y. loop n k = Some y \<Longrightarrow> \<not> y * 2 < n \<and> (\<exists>i. y = k * 2 ^ i)"
    and step: "(if k * 2 < n then loop n (k * 2) else Some k) = Some y"
  show "\<not> y * 2 < n \<and> (\<exists>i. y = k * 2 ^ i)"
  proof (cases "k * 2 < n")
    case True
    with step ih [of n "k * 2" y] obtain i where "\<not> y * 2 < n" "y = k * 2 * 2 ^ i" by auto
    then show ?thesis by (auto intro!: exI [of _ "Suc i"] simp: mult.assoc)
  next
    case False
    with step show ?thesis by (auto intro: exI [of _ 0])
  qed
qed

lemma unat_power_of_two: "unat (2 ^ i :: u64) = (if i < 64 then 2 ^ i else 0)"
proof -
  have "unat (of_nat (2 ^ i) :: u64) = 2 ^ i mod 2 ^ 64" by (simp only: unat_of_nat) simp
  then show ?thesis by (simp add: exp_mod_exp del: of_nat_power power_numeral) simp
qed

lemma double_below_diverges:
  assumes "2 ^ 63 < n"
  shows "double_below n 1 = None"
proof (rule ccontr)
  assume "double_below n 1 \<noteq> None"
  then obtain y where "double_below n 1 = Some y" by auto
  from double_below_Some [OF this] obtain i where "\<not> 2 ^ Suc i < n" by (auto simp: mult.commute)
  moreover have "(2 :: nat) ^ Suc i \<le> 2 ^ 63" if "Suc i < 64"
    by (rule power_increasing) (use that in simp_all)
  ultimately show False using assms
    by (simp only: word_less_nat_alt unat_power_of_two split: if_splits) simp_all
qed

lemma double_below_reaches:
  assumes "1 < n" and "n \<le> 2 ^ 63"
  shows "double_below (of_nat n) 1 = Some (of_nat (cut n))"
proof -
  obtain e where e: "cut n = 2 ^ e" using largest_power_of_two_less_spec [OF assms(1)] by auto
  have "2 ^ e < n" "n \<le> 2 * 2 ^ e" using split_bounds [OF assms(1)] e by auto
  have n64: "unat (of_nat n :: u64) = n" using assms(2) by (simp add: unat_of_nat)
  have e63: "e < 63" using \<open>2 ^ e < n\<close> assms(2) power_less_imp_less_exp [of "2::nat" e 63] by simp
  have "double_below (of_nat n) (2 ^ i) = Some (2 ^ e)" if "i \<le> e" for i
    using that
  proof (induction rule: inc_induct)
    case base
    have "\<not> (2 ^ Suc e :: u64) < of_nat n"
      using e63 \<open>n \<le> 2 * 2 ^ e\<close> by (simp only: word_less_nat_alt unat_power_of_two n64) simp
    then show ?case by (subst double_below.simps) (simp add: mult.commute)
  next
    case (step i)
    have "(2::nat) ^ Suc i \<le> 2 ^ e" using step by (intro power_increasing) auto
    then have "(2 ^ Suc i :: u64) < of_nat n"
      using e63 step \<open>2 ^ e < n\<close> by (simp only: word_less_nat_alt unat_power_of_two n64) simp
    with step.IH show ?case by (subst double_below.simps) (simp add: mult.commute)
  qed
  from this [of 0] e show ?thesis by simp
qed

text \<open>
  C10. The loop at its machine width. For every tree size from 2 to \<open>2\<^sup>6\<^sup>3\<close> the wrapping loop
  ends and agrees with the natural-number definition the proofs use; for every larger
  size the doubling wraps to zero and the loop never returns.
\<close>

theorem largest_power_of_two_less_machine:
  assumes "1 < n"
  shows "largest_power_of_two_less_u64 n =
    (if n \<le> 2 ^ 63 then Some (of_nat (largest_power_of_two_less (unat n))) else None)"
proof (cases "n \<le> 2 ^ 63")
  case True
  then have "unat n \<le> 2 ^ 63" using unat_power_of_two [of 63] by (simp add: word_le_nat_alt)
  moreover have "1 < unat n" using assms by (simp add: word_less_nat_alt)
  ultimately show ?thesis using double_below_reaches [of "unat n"] True
    by (simp add: largest_power_of_two_less_u64_def)
next
  case False
  then show ?thesis using double_below_diverges by (simp add: largest_power_of_two_less_u64_def)
qed

theorem largest_power_of_two_less_machine_witness:
  "largest_power_of_two_less_u64 0xC000000000000000 = None"
  using largest_power_of_two_less_machine [of "0xC000000000000000"] by simp

text \<open>Equal roots of equally many leaves have equal leaves, unless SHA-256 collides.\<close>

lemma mth_inject:
  assumes "0 < n" and sha: "digest32 sha" "inj_on sha S"
  shows "length as = n \<Longrightarrow> length bs = n \<Longrightarrow> \<forall>l \<in> set as \<union> set bs. length l = 32 \<Longrightarrow>
    set (mth_inputs sha as) \<union> set (mth_inputs sha bs) \<subseteq> S \<Longrightarrow> mth sha as = mth sha bs \<Longrightarrow> as = bs"
  using assms(1)
proof (induction n arbitrary: as bs rule: split_induct)
  case one
  then show ?case by (cases as; cases bs) auto
next
  case (node n)
  let ?k = "cut n"
  have n1: "1 < length as" "1 < length bs" using node by auto
  have sub: "set (mth_inputs sha (take ?k as)) \<union> set (mth_inputs sha (take ?k bs)) \<subseteq> S"
    "set (mth_inputs sha (drop ?k as)) \<union> set (mth_inputs sha (drop ?k bs)) \<subseteq> S"
    using node.prems(1,2,4) n1 by (auto simp: mth_inputs_split)
  have l32: "\<forall>l \<in> set (take ?k as) \<union> set (take ?k bs). length l = 32"
    "\<forall>l \<in> set (drop ?k as) \<union> set (drop ?k bs). length l = 32"
    using node.prems(3) by (auto dest: in_set_takeD in_set_dropD)
  have "node_hash sha (mth sha (take ?k as)) (mth sha (drop ?k as)) = mth sha bs"
    using mth_split [OF n1(1)] node.prems by simp
  moreover have "0x01 # mth sha (take ?k as) @ mth sha (drop ?k as) \<in> S"
    using node.prems(1,4) n1 by (auto simp: mth_inputs_split)
  ultimately have "mth sha (take ?k as) = mth sha (take ?k bs)" "mth sha (drop ?k as) = mth sha (drop ?k bs)"
    using mth_node_injD [OF _ n1(2) sha(2) _ _ sha(1)] node.prems l32 length_mth [OF sha(1) ] by auto
  with node.IH(1) [of "take ?k as" "take ?k bs"] node.IH(2) [of "drop ?k as" "drop ?k bs"]
    split_bounds [OF node.hyps] node.prems(1,2) sub l32
  have "take ?k as = take ?k bs" "drop ?k as = drop ?k bs" by simp_all
  then show ?case by (metis append_take_drop_id)
qed

end
