(* ===== verification/Crypto.thy ===== *)
theory Crypto
  imports Errors
begin

text \<open>
  The classical half of the crate \<open>crypto\<close>: \<open>aead.rs\<close>, \<open>kdf.rs\<close>, \<open>keys.rs\<close>, \<open>sealed.rs\<close> and
  \<open>suite.rs\<close>. The primitives live in third-party crates (\<open>sha2\<close>, \<open>hkdf\<close>,
  \<open>chacha20poly1305\<close>, \<open>ed25519-dalek\<close>, \<open>x25519-dalek\<close>, \<open>ml-kem\<close>, \<open>ml-dsa\<close>); they are the fields of
  a record that every definition takes as its first argument. What the code relies on is
  stated as predicates on that record (\<open>hkdf_laws\<close>, \<open>aead_laws\<close>, \<open>ed25519_laws\<close>, ...), each a
  documented fact of the primitive. \<open>toy_crypto\<close> is a concrete record that meets all of
  them, so that no theorem with such a hypothesis is vacuous.
\<close>

section \<open>The primitives\<close>

record crypto =
  sha256 :: "bytes \<Rightarrow> bytes"
  hkdf_sha256 :: "bytes \<Rightarrow> bytes \<Rightarrow> bytes \<Rightarrow> nat \<Rightarrow> bytes option"
  xchacha_encrypt :: "bytes \<Rightarrow> bytes \<Rightarrow> bytes \<Rightarrow> bytes \<Rightarrow> bytes option"
  xchacha_decrypt :: "bytes \<Rightarrow> bytes \<Rightarrow> bytes \<Rightarrow> bytes \<Rightarrow> bytes option"
  ed25519_public :: "bytes \<Rightarrow> bytes"
  ed25519_sign :: "bytes \<Rightarrow> bytes \<Rightarrow> bytes"
  ed25519_key_ok :: "bytes \<Rightarrow> bool"
  ed25519_verify :: "bytes \<Rightarrow> bytes \<Rightarrow> bytes \<Rightarrow> bool"
  x25519_public :: "bytes \<Rightarrow> bytes"
  x25519_dh :: "bytes \<Rightarrow> bytes \<Rightarrow> bytes"
  mlkem_public :: "bytes \<Rightarrow> bytes"
  mlkem_seed_ok :: "bytes \<Rightarrow> bool"
  mlkem_key_ok :: "bytes \<Rightarrow> bool"
  mlkem_encapsulate :: "bytes \<Rightarrow> bytes \<Rightarrow> bytes \<times> bytes"
  mlkem_decapsulate :: "bytes \<Rightarrow> bytes \<Rightarrow> bytes option"
  mldsa_public :: "bytes \<Rightarrow> bytes"
  mldsa_seed_ok :: "bytes \<Rightarrow> bool"
  mldsa_key_ok :: "bytes \<Rightarrow> bool"
  mldsa_sig_ok :: "bytes \<Rightarrow> bool"
  mldsa_sign :: "bytes \<Rightarrow> bytes \<Rightarrow> bytes option"
  mldsa_verify :: "bytes \<Rightarrow> bytes \<Rightarrow> bytes \<Rightarrow> bool"

text \<open>HKDF-SHA256 fills any buffer of at most 255 blocks and refuses longer ones.\<close>

definition hkdf_laws :: "crypto \<Rightarrow> bool" where
  "hkdf_laws C \<longleftrightarrow>
    (\<forall>salt ikm info n. n \<le> 255 * 32 \<longrightarrow>
       (\<exists>out. hkdf_sha256 C salt ikm info n = Some out \<and> length out = n))"

text \<open>
  XChaCha20-Poly1305 encrypts messages below its length limit, adds a 16-byte tag, and
  decryption accepts a ciphertext exactly when it is the encryption of what it returns.
\<close>

definition aead_max :: nat where
  "aead_max = 2 ^ 38 - 64"

definition aead_laws :: "crypto \<Rightarrow> bool" where
  "aead_laws C \<longleftrightarrow>
    (\<forall>k n a m. length k = 32 \<longrightarrow> length n = 24 \<longrightarrow> length m < aead_max \<longrightarrow>
       (\<exists>c. xchacha_encrypt C k n a m = Some c \<and> length c = length m + 16)) \<and>
    (\<forall>k n a m c. length k = 32 \<longrightarrow> length n = 24 \<longrightarrow>
       (xchacha_decrypt C k n a c = Some m \<longleftrightarrow> xchacha_encrypt C k n a m = Some c))"

definition ed25519_laws :: "crypto \<Rightarrow> bool" where
  "ed25519_laws C \<longleftrightarrow>
    (\<forall>s. length s = 32 \<longrightarrow> length (ed25519_public C s) = 32 \<and> ed25519_key_ok C (ed25519_public C s)) \<and>
    (\<forall>s m. length s = 32 \<longrightarrow> length (ed25519_sign C s m) = 64 \<and>
       ed25519_verify C (ed25519_public C s) m (ed25519_sign C s m))"

definition x25519_laws :: "crypto \<Rightarrow> bool" where
  "x25519_laws C \<longleftrightarrow>
    (\<forall>s. length s = 32 \<longrightarrow> length (x25519_public C s) = 32) \<and>
    (\<forall>s p. length s = 32 \<longrightarrow> length p = 32 \<longrightarrow> length (x25519_dh C s p) = 32) \<and>
    (\<forall>s t. length s = 32 \<longrightarrow> length t = 32 \<longrightarrow>
       x25519_dh C s (x25519_public C t) = x25519_dh C t (x25519_public C s))"

definition mlkem_laws :: "crypto \<Rightarrow> bool" where
  "mlkem_laws C \<longleftrightarrow>
    (\<forall>d. length d = 64 \<longrightarrow> mlkem_seed_ok C d \<and> mlkem_key_ok C (mlkem_public C d)
       \<and> length (mlkem_public C d) = 1184) \<and>
    (\<forall>p r. mlkem_key_ok C p \<longrightarrow> length r = 32 \<longrightarrow> length (fst (mlkem_encapsulate C p r)) = 1088) \<and>
    (\<forall>d r c s. length d = 64 \<longrightarrow> length r = 32 \<longrightarrow>
       mlkem_encapsulate C (mlkem_public C d) r = (c, s) \<longrightarrow> mlkem_decapsulate C d c = Some s)"

definition mldsa_laws :: "crypto \<Rightarrow> bool" where
  "mldsa_laws C \<longleftrightarrow>
    (\<forall>d. length d = 32 \<longrightarrow> mldsa_seed_ok C d \<and> mldsa_key_ok C (mldsa_public C d)
       \<and> length (mldsa_public C d) = 1952) \<and>
    (\<forall>d m s. length d = 32 \<longrightarrow> mldsa_sign C d m = Some s \<longrightarrow>
       length s = 3309 \<and> mldsa_sig_ok C s \<and> mldsa_verify C (mldsa_public C d) m s)"

definition mldsa_total :: "crypto \<Rightarrow> bool" where
  "mldsa_total C \<longleftrightarrow> (\<forall>d m. length d = 32 \<longrightarrow> mldsa_sign C d m \<noteq> None)"

definition sha256_laws :: "crypto \<Rightarrow> bool" where
  "sha256_laws C \<longleftrightarrow> (\<forall>m. length (sha256 C m) = 32)"

section \<open>Authenticated encryption (aead.rs)\<close>

definition NONCE_LEN :: nat where "NONCE_LEN = 24"

definition KEY_LEN :: nat where "KEY_LEN = 32"

definition aead_seal ::
    "crypto \<Rightarrow> bytes \<Rightarrow> bytes \<Rightarrow> bytes \<Rightarrow> bytes \<Rightarrow> (bytes, crypto_error) res" where
  "aead_seal C key nonce aad plaintext =
    (if length key \<noteq> KEY_LEN then Err InvalidKeyLength
     else ok_or Encrypt (xchacha_encrypt C key nonce aad plaintext))"

definition aead_open ::
    "crypto \<Rightarrow> bytes \<Rightarrow> bytes \<Rightarrow> bytes \<Rightarrow> bytes \<Rightarrow> (bytes, crypto_error) res" where
  "aead_open C key nonce aad ciphertext =
    (if length key \<noteq> KEY_LEN then Err InvalidKeyLength
     else ok_or Decrypt (xchacha_decrypt C key nonce aad ciphertext))"

section \<open>Key derivation (kdf.rs)\<close>

definition DEFAULT_SALT :: bytes where "DEFAULT_SALT = str_bytes ''keepstone/v1''"
definition INFO_DROP_KEY :: bytes where "INFO_DROP_KEY = str_bytes ''keepstone/v1/drop-key''"
definition INFO_CHUNK_KEY :: bytes where "INFO_CHUNK_KEY = str_bytes ''keepstone/v1/chunk-key''"
definition INFO_SEAL_KEY :: bytes where "INFO_SEAL_KEY = str_bytes ''keepstone/v1/seal-key''"
definition INFO_TAG :: bytes where "INFO_TAG = str_bytes ''keepstone/v1/tag''"

lemmas kdf_labels = INFO_DROP_KEY_def INFO_CHUNK_KEY_def INFO_SEAL_KEY_def INFO_TAG_def

text \<open>The \<open>out\<close> buffer of \<open>expand\<close> is its length; the filled buffer is the result.\<close>

definition expand :: "crypto \<Rightarrow> bytes \<Rightarrow> bytes \<Rightarrow> bytes \<Rightarrow> nat \<Rightarrow> (bytes, crypto_error) res" where
  "expand C ikm salt info out_len = ok_or InvalidKeyLength (hkdf_sha256 C salt ikm info out_len)"

definition derive_key32 :: "crypto \<Rightarrow> bytes \<Rightarrow> bytes \<Rightarrow> bytes \<Rightarrow> (bytes, crypto_error) res" where
  "derive_key32 C ikm salt info = expand C ikm salt info KEY_LEN"

definition derive_chunk_key :: "crypto \<Rightarrow> bytes \<Rightarrow> u32 \<Rightarrow> (bytes, crypto_error) res" where
  "derive_chunk_key C content_key index =
    (let info = INFO_CHUNK_KEY @ u32_be index in derive_key32 C content_key DEFAULT_SALT info)"

definition derive_tag :: "crypto \<Rightarrow> bytes \<Rightarrow> bytes \<Rightarrow> (bytes, crypto_error) res" where
  "derive_tag C recipient_public drop_nonce =
    (let info = INFO_TAG @ drop_nonce in
     and_then (derive_key32 C recipient_public DEFAULT_SALT info) (\<lambda>key. Ok (take 8 key)))"

section \<open>Identities (keys.rs)\<close>

text \<open>\<open>SigningKey\<close> and \<open>StaticSecret\<close> are the 32 secret bytes they are built from.\<close>

record Identity =
  signing :: bytes
  ecdh :: bytes

definition Identity_generate :: "rng \<Rightarrow> Identity \<times> rng" where
  "Identity_generate rng =
    (let (signing, rng) = fill_bytes 32 rng; (ecdh, rng) = fill_bytes 32 rng in
     (\<lparr>signing = signing, ecdh = ecdh\<rparr>, rng))"

definition Identity_from_secret_bytes :: "bytes \<Rightarrow> bytes \<Rightarrow> Identity" where
  "Identity_from_secret_bytes s e = \<lparr>signing = s, ecdh = e\<rparr>"

definition signing_public :: "crypto \<Rightarrow> Identity \<Rightarrow> bytes" where
  "signing_public C i = ed25519_public C (signing i)"

definition ecdh_public :: "crypto \<Rightarrow> Identity \<Rightarrow> bytes" where
  "ecdh_public C i = x25519_public C (ecdh i)"

definition signing_secret_bytes :: "Identity \<Rightarrow> bytes" where
  "signing_secret_bytes i = signing i"

definition ecdh_secret_bytes :: "Identity \<Rightarrow> bytes" where
  "ecdh_secret_bytes i = ecdh i"

definition Identity_sign :: "crypto \<Rightarrow> Identity \<Rightarrow> bytes \<Rightarrow> bytes" where
  "Identity_sign C i message = ed25519_sign C (signing i) message"

definition verify :: "crypto \<Rightarrow> bytes \<Rightarrow> bytes \<Rightarrow> bytes \<Rightarrow> (unit, crypto_error) res" where
  "verify C public message signature =
    (if \<not> ed25519_key_ok C public then Err CryptoVerify
     else if ed25519_verify C public message signature then Ok () else Err CryptoVerify)"

text \<open>The array types \<open>[u8; 32]\<close> of the two secrets.\<close>

definition identity_wf :: "Identity \<Rightarrow> bool" where
  "identity_wf i \<longleftrightarrow> length (signing i) = 32 \<and> length (ecdh i) = 32"

section \<open>Sealed boxes (sealed.rs)\<close>

definition SEAL_AAD :: bytes where "SEAL_AAD = str_bytes ''keepstone/v1/sealed''"

record SealedKey =
  ephemeral_public :: bytes
  sk_nonce :: bytes
  sk_ciphertext :: bytes

definition SealedKey_ENCODED_LEN :: nat where
  "SealedKey_ENCODED_LEN = 32 + NONCE_LEN + (KEY_LEN + 16)"

definition SealedKey_seal ::
    "crypto \<Rightarrow> bytes \<Rightarrow> bytes \<Rightarrow> rng \<Rightarrow> (SealedKey \<times> rng, crypto_error) res" where
  "SealedKey_seal C content_key recipient rng =
    (let (ephemeral, rng) = fill_bytes 32 rng;
         ephemeral_public = x25519_public C ephemeral;
         shared = x25519_dh C ephemeral recipient
     in and_then (derive_key32 C shared DEFAULT_SALT INFO_SEAL_KEY) (\<lambda>wrap_key.
        let (nonce, rng) = fill_bytes NONCE_LEN rng in
        and_then (aead_seal C wrap_key nonce SEAL_AAD content_key) (\<lambda>ciphertext.
        Ok (\<lparr>ephemeral_public = ephemeral_public, sk_nonce = nonce, sk_ciphertext = ciphertext\<rparr>, rng))))"

definition SealedKey_open :: "crypto \<Rightarrow> SealedKey \<Rightarrow> bytes \<Rightarrow> (bytes, crypto_error) res" where
  "SealedKey_open C sealed recipient_secret =
    (let shared = x25519_dh C recipient_secret (ephemeral_public sealed) in
     if list_all (\<lambda>b. b = 0) shared then Err InvalidPublicKey
     else and_then (derive_key32 C shared DEFAULT_SALT INFO_SEAL_KEY) (\<lambda>wrap_key.
       and_then (aead_open C wrap_key (sk_nonce sealed) SEAL_AAD (sk_ciphertext sealed)) (\<lambda>plaintext.
       if length plaintext \<noteq> KEY_LEN then Err InvalidKeyLength else Ok plaintext)))"

section \<open>Suites (suite.rs)\<close>

datatype CryptoSuite = Classical25519 | Hybrid25519MlKem768

fun suite_id :: "CryptoSuite \<Rightarrow> u8" where
  "suite_id Classical25519 = 1"
| "suite_id Hybrid25519MlKem768 = 2"

definition suite_from_id :: "u8 \<Rightarrow> (CryptoSuite, crypto_error) res" where
  "suite_from_id i =
    (if i = 1 then Ok Classical25519
     else if i = 2 then Ok Hybrid25519MlKem768
     else Err UnsupportedSuite)"

definition default_suite :: CryptoSuite where
  "default_suite = Classical25519"

section \<open>Suites are read back, and unknown ones refused\<close>

lemma suite_from_id_Ok [simp]: "suite_from_id i = Ok s \<longleftrightarrow> i = suite_id s"
  by (cases s) (auto simp: suite_from_id_def)

lemma suite_from_id_suite_id [simp]: "suite_from_id (suite_id s) = Ok s"
  by simp

lemma suite_id_inject [simp]: "suite_id s = suite_id t \<longleftrightarrow> s = t"
  by (cases s; cases t) simp_all

section \<open>What the laws give the code\<close>

lemma derive_key32_total:
  assumes "hkdf_laws C"
  obtains key where "derive_key32 C ikm salt info = Ok key" and "length key = 32"
proof -
  have "(32 :: nat) \<le> 255 * 32" by simp
  with assms obtain out where "hkdf_sha256 C salt ikm info 32 = Some out" "length out = 32"
    unfolding hkdf_laws_def by blast
  then show ?thesis by (intro that [of out]) (simp_all add: derive_key32_def expand_def KEY_LEN_def)
qed

lemma derive_key32_length: "hkdf_laws C \<Longrightarrow> derive_key32 C ikm salt info = Ok key \<Longrightarrow> length key = 32"
  by (metis derive_key32_total res.inject(1))

lemma aead_seal_total:
  assumes "aead_laws C" and "length key = 32" and "length nonce = 24" and "length m < aead_max"
  obtains c where "aead_seal C key nonce aad m = Ok c" and "length c = length m + 16"
  using assms unfolding aead_laws_def aead_seal_def KEY_LEN_def by (metis ok_or.simps(2))

lemma aead_open_iff:
  "aead_laws C \<Longrightarrow> length key = 32 \<Longrightarrow> length nonce = 24 \<Longrightarrow>
    aead_open C key nonce aad c = Ok m \<longleftrightarrow> aead_seal C key nonce aad m = Ok c"
  by (simp add: aead_laws_def aead_open_def aead_seal_def KEY_LEN_def)

lemma aead_seal_not_Panic [simp]: "aead_seal C k n a m \<noteq> Panic"
  by (simp add: aead_seal_def)

lemma aead_open_not_Panic [simp]: "aead_open C k n a m \<noteq> Panic"
  by (simp add: aead_open_def)

lemma derive_key32_not_Panic [simp]: "derive_key32 C ikm salt info \<noteq> Panic"
  by (simp add: derive_key32_def expand_def)

lemma derive_tag_not_Panic [simp]: "derive_tag C p n \<noteq> Panic"
  by (simp add: derive_tag_def and_then_eq_Panic)

lemma derive_tag_total:
  assumes "hkdf_laws C"
  obtains tag where "derive_tag C p n = Ok tag" and "length tag = 8"
proof -
  from derive_key32_total [OF assms] obtain key
    where "derive_key32 C p DEFAULT_SALT (INFO_TAG @ n) = Ok key" "length key = 32" by blast
  then show ?thesis using that [of "take 8 key"] by (simp add: derive_tag_def)
qed

lemma SealedKey_seal_not_Panic [simp]: "SealedKey_seal C k p r \<noteq> Panic"
  by (auto simp: SealedKey_seal_def and_then_eq_Panic Let_def split: prod.splits)

lemma SealedKey_open_not_Panic [simp]: "SealedKey_open C s k \<noteq> Panic"
  by (auto simp: SealedKey_open_def and_then_eq_Panic Let_def)

section \<open>The interface of a signature scheme\<close>

text \<open>
  What a signed object relies on: under the laws of the primitives, a signature made with
  a well-formed secret verifies under its public key, and verification says yes or
  \<open>Err\<close>, never panics. Objects that sign an injective encoding of their content inherit
  correctness and tamper evidence.
\<close>

locale signature_scheme =
  fixes laws :: bool
    and secret_ok :: "'s \<Rightarrow> bool"
    and public :: "'s \<Rightarrow> 'p"
    and sign :: "'s \<Rightarrow> bytes \<Rightarrow> 'g"
    and vrfy :: "'p \<Rightarrow> bytes \<Rightarrow> 'g \<Rightarrow> (unit, crypto_error) res"
  assumes sign_verify: "laws \<Longrightarrow> secret_ok s \<Longrightarrow> vrfy (public s) m (sign s m) = Ok ()"
    and vrfy_total: "vrfy p m g \<noteq> Panic"
begin

lemma vrfy_cases: "vrfy p m g = Ok () \<or> (\<exists>e. vrfy p m g = Err e)"
  using vrfy_total [of p m g] by (cases "vrfy p m g") auto

text \<open>A signature that was only ever issued for one message accepts no other content.\<close>

lemma bound_content:
  assumes "\<And>m'. vrfy p m' g = Ok () \<Longrightarrow> m' = m" and "vrfy p (f y) g = Ok ()"
    and "m = f x" and "\<And>a b. f a = f b \<Longrightarrow> a = b"
  shows "y = x"
  using assms by metis

end

interpretation ed25519: signature_scheme "ed25519_laws C" identity_wf "signing_public C"
    "Identity_sign C" "verify C" for C
  by unfold_locales (auto simp: ed25519_laws_def identity_wf_def signing_public_def
      Identity_sign_def verify_def)

section \<open>The interface of a sealing scheme\<close>

text \<open>
  A content key sealed to a public key is opened by its secret. \<open>contributory\<close> is the
  condition the opener checks on the key agreement (the shared secret is not all zero).
\<close>

locale sealing_scheme =
  fixes laws :: bool
    and secret_ok :: "'s \<Rightarrow> bool"
    and public :: "'s \<Rightarrow> 'p"
    and seal :: "bytes \<Rightarrow> 'p \<Rightarrow> rng \<Rightarrow> ('c \<times> rng, crypto_error) res"
    and opn :: "'s \<Rightarrow> 'c \<Rightarrow> (bytes, crypto_error) res"
    and contributory :: "'s \<Rightarrow> 'c \<Rightarrow> bool"
  assumes seal_total: "laws \<Longrightarrow> secret_ok s \<Longrightarrow> length k = 32 \<Longrightarrow> \<exists>c r'. seal k (public s) r = Ok (c, r')"
    and seal_open: "laws \<Longrightarrow> secret_ok s \<Longrightarrow> length k = 32 \<Longrightarrow> seal k (public s) r = Ok (c, r')
        \<Longrightarrow> contributory s c \<Longrightarrow> opn s c = Ok k"
    and open_length: "opn s c = Ok k \<Longrightarrow> length k = 32"
begin

lemma sealed_key_unique:
  "laws \<Longrightarrow> secret_ok s \<Longrightarrow> length k = 32 \<Longrightarrow> seal k (public s) r = Ok (c, r') \<Longrightarrow>
    contributory s c \<Longrightarrow> opn s c = Ok k' \<Longrightarrow> k' = k"
  using seal_open by fastforce

end

definition shared_nonzero :: "crypto \<Rightarrow> bytes \<Rightarrow> SealedKey \<Rightarrow> bool" where
  "shared_nonzero C secret sealed \<longleftrightarrow>
    \<not> list_all (\<lambda>b. b = 0) (x25519_dh C secret (ephemeral_public sealed))"

lemma SealedKey_seal_Ok:
  assumes "hkdf_laws C" and "aead_laws C" and "length k = 32"
  obtains key ct where
    "derive_key32 C (x25519_dh C (fst (fill_bytes 32 r)) p) DEFAULT_SALT INFO_SEAL_KEY = Ok key"
    and "length key = 32" and "length ct = 48"
    and "aead_seal C key (fst (fill_bytes 24 (snd (fill_bytes 32 r)))) SEAL_AAD k = Ok ct"
    and "SealedKey_seal C k p r = Ok (\<lparr>ephemeral_public = x25519_public C (fst (fill_bytes 32 r)),
      sk_nonce = fst (fill_bytes 24 (snd (fill_bytes 32 r))), sk_ciphertext = ct\<rparr>,
      snd (fill_bytes 24 (snd (fill_bytes 32 r))))"
proof -
  from derive_key32_total [OF assms(1)] obtain key where
    key: "derive_key32 C (x25519_dh C (fst (fill_bytes 32 r)) p) DEFAULT_SALT INFO_SEAL_KEY = Ok key"
      "length key = 32" by blast
  have "length k < aead_max" by (simp add: assms(3) aead_max_def)
  from aead_seal_total [OF assms(2) key(2) length_fill_bytes this] obtain ct where
    "aead_seal C key (fst (fill_bytes 24 (snd (fill_bytes 32 r)))) SEAL_AAD k = Ok ct"
      "length ct = length k + 16" by blast
  with key show ?thesis
    by (intro that [of key ct]) (simp_all add: SealedKey_seal_def NONCE_LEN_def assms(3) case_prod_beta Let_def)
qed

interpretation sealed_box: sealing_scheme "hkdf_laws C \<and> aead_laws C \<and> x25519_laws C"
    "\<lambda>s. length s = 32" "x25519_public C" "SealedKey_seal C"
    "\<lambda>s c. SealedKey_open C c s" "shared_nonzero C" for C
proof
  fix s k :: bytes and r
  assume "hkdf_laws C \<and> aead_laws C \<and> x25519_laws C" "length s = 32" "length k = 32"
  then show "\<exists>c r'. SealedKey_seal C k (x25519_public C s) r = Ok (c, r')"
    by (metis SealedKey_seal_Ok)
next
  fix s k :: bytes and r c r'
  assume laws: "hkdf_laws C \<and> aead_laws C \<and> x25519_laws C" "length s = 32" "length k = 32"
    and seal: "SealedKey_seal C k (x25519_public C s) r = Ok (c, r')" and nz: "shared_nonzero C s c"
  let ?e = "fst (fill_bytes 32 r)"
  obtain key ct where key: "derive_key32 C (x25519_dh C ?e (x25519_public C s)) DEFAULT_SALT INFO_SEAL_KEY = Ok key"
      "length key = 32"
    and ct: "aead_seal C key (fst (fill_bytes 24 (snd (fill_bytes 32 r)))) SEAL_AAD k = Ok ct"
    and c: "c = \<lparr>ephemeral_public = x25519_public C ?e,
      sk_nonce = fst (fill_bytes 24 (snd (fill_bytes 32 r))), sk_ciphertext = ct\<rparr>"
    by (rule SealedKey_seal_Ok [of C k r "x25519_public C s"]) (use laws seal in auto)
  have "x25519_dh C s (x25519_public C ?e) = x25519_dh C ?e (x25519_public C s)"
    using laws by (simp add: x25519_laws_def)
  moreover have "aead_open C key (fst (fill_bytes 24 (snd (fill_bytes 32 r)))) SEAL_AAD ct = Ok k"
    using laws key ct by (simp add: aead_open_iff)
  ultimately show "SealedKey_open C c s = Ok k"
    using nz key laws by (simp add: SealedKey_open_def shared_nonzero_def c KEY_LEN_def)
next
  fix s c and k :: bytes
  assume "SealedKey_open C c s = Ok k"
  then show "length k = 32" by (auto simp: SealedKey_open_def KEY_LEN_def Let_def split: if_splits)
qed

section \<open>A concrete instance of the primitives\<close>

text \<open>
  Not secure, but lawful: it shows that the laws can hold together, and witnesses compute
  with it.
\<close>

definition pad :: "nat \<Rightarrow> bytes \<Rightarrow> bytes" where
  "pad n bs = take n (bs @ replicate n 0)"

definition toy_tag :: "bytes \<Rightarrow> bytes \<Rightarrow> bytes \<Rightarrow> bytes" where
  "toy_tag k n a = pad 8 (rev a) @ pad 8 k"

definition toy_encrypt :: "bytes \<Rightarrow> bytes \<Rightarrow> bytes \<Rightarrow> bytes \<Rightarrow> bytes option" where
  "toy_encrypt k n a m = Some (toy_tag k n a @ m)"

definition toy_decrypt :: "bytes \<Rightarrow> bytes \<Rightarrow> bytes \<Rightarrow> bytes \<Rightarrow> bytes option" where
  "toy_decrypt k n a c =
    (if take 16 c = toy_tag k n a then Some (drop 16 c) else None)"

definition toy_crypto :: crypto where
  "toy_crypto = \<lparr>
    sha256 = pad 32,
    hkdf_sha256 = (\<lambda>salt ikm info n. Some (pad n ikm)),
    xchacha_encrypt = toy_encrypt,
    xchacha_decrypt = toy_decrypt,
    ed25519_public = pad 32,
    ed25519_sign = (\<lambda>s m. pad 64 (pad 32 s @ m)),
    ed25519_key_ok = (\<lambda>p. length p = 32),
    ed25519_verify = (\<lambda>p m g. g = pad 64 (p @ m)),
    x25519_public = pad 32,
    x25519_dh = (\<lambda>s p. 1 # map2 (XOR) (pad 31 s) (pad 31 p)),
    mlkem_public = pad 1184,
    mlkem_seed_ok = (\<lambda>d. length d = 64),
    mlkem_key_ok = (\<lambda>p. length p = 1184),
    mlkem_encapsulate = (\<lambda>p r. (pad 1088 r, map2 (XOR) (pad 32 p) (pad 32 r))),
    mlkem_decapsulate = (\<lambda>d c. if length c = 1088 then Some (map2 (XOR) (pad 32 d) (pad 32 c)) else None),
    mldsa_public = pad 1952,
    mldsa_seed_ok = (\<lambda>d. length d = 32),
    mldsa_key_ok = (\<lambda>p. length p = 1952),
    mldsa_sig_ok = (\<lambda>s. length s = 3309),
    mldsa_sign = (\<lambda>d m. Some (pad 3309 m)),
    mldsa_verify = (\<lambda>p m s. s = pad 3309 m)\<rparr>"

lemma length_pad [simp, length_simps]: "length (pad n bs) = n"
  by (simp add: pad_def)

lemma pad_same: "length bs = n \<Longrightarrow> pad n bs = bs"
  by (simp add: pad_def)

lemma pad_pad [simp]: "pad n (pad n bs) = pad n bs"
  by (simp add: pad_same)

lemma pad_pad_le: "m \<le> n \<Longrightarrow> pad m (pad n bs) = pad m bs"
  unfolding pad_def by (cases "length bs \<le> n") (auto simp: min_def take_replicate)

lemma length_toy_tag [simp]: "length (toy_tag k n a) = 16"
  by (simp add: toy_tag_def)

lemma toy_hkdf_laws: "hkdf_laws toy_crypto"
  by (simp add: hkdf_laws_def toy_crypto_def)

lemma toy_aead_laws: "aead_laws toy_crypto"
proof -
  have "toy_decrypt k n a c = Some m \<longleftrightarrow> toy_encrypt k n a m = Some c" for k n a m c
    by (auto simp: toy_decrypt_def toy_encrypt_def append_eq_conv_conj)
  then show ?thesis by (auto simp: aead_laws_def toy_crypto_def toy_encrypt_def)
qed

lemma toy_ed25519_laws: "ed25519_laws toy_crypto"
  by (simp add: ed25519_laws_def toy_crypto_def)

lemma toy_x25519_laws: "x25519_laws toy_crypto"
proof -
  have "map2 (XOR) a b = map2 (XOR) b a" if "length a = length b" for a b :: bytes
    using that by (intro nth_equalityI) (simp_all add: xor.commute)
  then show ?thesis by (simp add: x25519_laws_def toy_crypto_def pad_same)
qed

lemma toy_shared_nonzero: "shared_nonzero toy_crypto s c"
  by (simp add: shared_nonzero_def toy_crypto_def)

lemma toy_mlkem_laws: "mlkem_laws toy_crypto"
  by (auto simp: mlkem_laws_def toy_crypto_def pad_pad_le)

lemma toy_mldsa_laws: "mldsa_laws toy_crypto"
  by (auto simp: mldsa_laws_def toy_crypto_def)

lemma toy_sha256_laws: "sha256_laws toy_crypto"
  by (simp add: sha256_laws_def toy_crypto_def)

lemmas toy_laws [simp] = toy_hkdf_laws toy_aead_laws toy_ed25519_laws toy_x25519_laws
  toy_mlkem_laws toy_mldsa_laws toy_sha256_laws

section \<open>Properties\<close>

text \<open>
  A content key sealed to an X25519 public key: sealing succeeds for every 32-byte key
  and every random stream, the box has the advertised encoded length, and the
  recipient's secret opens it to exactly that key, unless the ephemeral agreement is
  degenerate, which the opener reports as an invalid public key.
\<close>

lemma sealed_key_roundtrip:
  assumes "hkdf_laws C" and "aead_laws C" and "x25519_laws C"
    and "length secret = 32" and "length content_key = 32"
  shows "\<exists>sealed rng'. SealedKey_seal C content_key (x25519_public C secret) rng = Ok (sealed, rng')
    \<and> length (ephemeral_public sealed @ sk_nonce sealed @ sk_ciphertext sealed) = SealedKey_ENCODED_LEN
    \<and> SealedKey_open C sealed secret =
        (if list_all (\<lambda>b. b = 0) (x25519_dh C secret (ephemeral_public sealed))
         then Err InvalidPublicKey else Ok content_key)"
proof -
  from SealedKey_seal_Ok [OF assms(1,2,5)] obtain ct rng' where
    seal: "SealedKey_seal C content_key (x25519_public C secret) rng =
      Ok (\<lparr>ephemeral_public = x25519_public C (fst (fill_bytes 32 rng)),
        sk_nonce = fst (fill_bytes 24 (snd (fill_bytes 32 rng))), sk_ciphertext = ct\<rparr>, rng')"
    and ct: "length ct = 48" by metis
  from sealed_box.seal_open [OF _ assms(4,5) seal] assms ct show ?thesis
    unfolding seal
    by (auto simp: SealedKey_ENCODED_LEN_def NONCE_LEN_def KEY_LEN_def x25519_laws_def
        shared_nonzero_def SealedKey_open_def Let_def)
qed

lemma sealed_key_roundtrip_witness:
  "\<exists>sealed rng'. SealedKey_seal toy_crypto (replicate 32 7) (x25519_public toy_crypto (replicate 32 1))
      (\<lambda>i. of_nat i) = Ok (sealed, rng')
    \<and> SealedKey_open toy_crypto sealed (replicate 32 1) = Ok (replicate 32 7)"
proof -
  have "\<not> list_all (\<lambda>b. b = 0) (x25519_dh toy_crypto (replicate 32 1)
      (ephemeral_public (fst (the_Ok (SealedKey_seal toy_crypto (replicate 32 7)
        (x25519_public toy_crypto (replicate 32 1)) (\<lambda>i. of_nat i))))))"
    by code_simp
  with sealed_key_roundtrip [of toy_crypto "replicate 32 1" "replicate 32 7" "\<lambda>i. of_nat i"]
  show ?thesis by auto
qed

end
