(* ===== verification/Sth.thy ===== *)
theory Sth
  imports Merkle Crypto "HOL-Library.FuncSet"
begin

text \<open>
  Signed tree heads, \<open>crates/log/src/sth.rs\<close>: the signed bytes, signing and verification
  through the identity's Ed25519 key, the fixed 144-byte encoding, and equivocation
  detection.
\<close>

section \<open>The model\<close>

definition STH_CONTEXT :: bytes where "STH_CONTEXT = str_bytes ''keepstone/v1/sth''"

definition STH_ENCODED_LEN :: nat where "STH_ENCODED_LEN = 8 + 32 + 8 + 32 + 64"

record SignedTreeHead =
  sth_tree_size :: u64
  sth_root :: hash
  sth_timestamp :: u64
  sth_log_public :: bytes
  sth_signature :: bytes

definition sth_input :: "u64 \<Rightarrow> hash \<Rightarrow> u64 \<Rightarrow> bytes" where
  "sth_input tree_size root timestamp =
     STH_CONTEXT @ u64_be tree_size @ root @ u64_be timestamp"

definition SignedTreeHead_sign :: "crypto \<Rightarrow> Identity \<Rightarrow> u64 \<Rightarrow> hash \<Rightarrow> u64 \<Rightarrow> SignedTreeHead" where
  "SignedTreeHead_sign C signer tree_size root timestamp =
    (let signature = Identity_sign C signer (sth_input tree_size root timestamp) in
     \<lparr>sth_tree_size = tree_size, sth_root = root, sth_timestamp = timestamp,
      sth_log_public = signing_public C signer, sth_signature = signature\<rparr>)"

definition SignedTreeHead_verify :: "crypto \<Rightarrow> SignedTreeHead \<Rightarrow> (unit, log_error) res" where
  "SignedTreeHead_verify C sth =
    map_err (\<lambda>_. TreeHeadInvalid)
      (verify C (sth_log_public sth)
        (sth_input (sth_tree_size sth) (sth_root sth) (sth_timestamp sth)) (sth_signature sth))"

definition SignedTreeHead_to_bytes :: "SignedTreeHead \<Rightarrow> bytes" where
  "SignedTreeHead_to_bytes sth =
     u64_be (sth_tree_size sth) @ sth_root sth @ u64_be (sth_timestamp sth)
       @ sth_log_public sth @ sth_signature sth"

definition SignedTreeHead_from_bytes :: "bytes \<Rightarrow> SignedTreeHead" where
  "SignedTreeHead_from_bytes bs =
    \<lparr>sth_tree_size = u64_of_be (take 8 bs),
     sth_root = take 32 (drop 8 bs),
     sth_timestamp = u64_of_be (take 8 (drop 40 bs)),
     sth_log_public = take 32 (drop 48 bs),
     sth_signature = take 64 (drop 80 bs)\<rparr>"

definition detect_equivocation :: "SignedTreeHead \<Rightarrow> SignedTreeHead \<Rightarrow> bool" where
  "detect_equivocation a b \<longleftrightarrow> sth_tree_size a = sth_tree_size b \<and> sth_root a \<noteq> sth_root b"

text \<open>The array types of the struct.\<close>

definition sth_wf :: "SignedTreeHead \<Rightarrow> bool" where
  "sth_wf sth \<longleftrightarrow> length (sth_root sth) = 32 \<and> length (sth_log_public sth) = 32
     \<and> length (sth_signature sth) = 64"

section \<open>Lemmas\<close>

lemma sth_input_inject:
  "length r = length r' \<Longrightarrow> sth_input n r t = sth_input n' r' t' \<longleftrightarrow> n = n' \<and> r = r' \<and> t = t'"
  by (simp add: sth_input_def append_eq_same_length)

lemma SignedTreeHead_verify_sign [simp]:
  "ed25519_laws C \<Longrightarrow> identity_wf log \<Longrightarrow>
    SignedTreeHead_verify C (SignedTreeHead_sign C log n r t) = Ok ()"
  by (simp add: SignedTreeHead_verify_def SignedTreeHead_sign_def ed25519.sign_verify)

section \<open>Properties\<close>

text \<open>
  The fixed encoding is a bijection between the tree heads of the struct's array types
  and the byte arrays of length 144.
\<close>

lemma sth_encoding_bijective:
  "bij_betw SignedTreeHead_to_bytes (Collect sth_wf) {bs. length bs = STH_ENCODED_LEN}"
proof (rule bij_betwI [where g = SignedTreeHead_from_bytes])
  show "SignedTreeHead_to_bytes \<in> Collect sth_wf \<rightarrow> {bs. length bs = STH_ENCODED_LEN}"
    by (auto simp: SignedTreeHead_to_bytes_def STH_ENCODED_LEN_def sth_wf_def)
  show "SignedTreeHead_from_bytes \<in> {bs. length bs = STH_ENCODED_LEN} \<rightarrow> Collect sth_wf"
    by (auto simp: SignedTreeHead_from_bytes_def STH_ENCODED_LEN_def sth_wf_def)
next
  fix sth assume "sth \<in> Collect sth_wf"
  then show "SignedTreeHead_from_bytes (SignedTreeHead_to_bytes sth) = sth"
    by (simp add: SignedTreeHead_from_bytes_def SignedTreeHead_to_bytes_def sth_wf_def)
next
  fix bs :: bytes assume "bs \<in> {bs. length bs = STH_ENCODED_LEN}"
  then have len: "length bs = 144" by (simp add: STH_ENCODED_LEN_def)
  have "take 8 bs @ take 32 (drop 8 bs) @ take 8 (drop 40 bs) @ take 32 (drop 48 bs) @ take 64 (drop 80 bs) = bs"
    using len take_append_drop_2 [of 8 40 bs] take_append_drop_2 [of 40 48 bs]
      take_append_drop_2 [of 48 80 bs] take_append_drop_2 [of 80 144 bs]
    by (simp add: append_assoc [symmetric] del: append_assoc)
  then show "SignedTreeHead_to_bytes (SignedTreeHead_from_bytes bs) = bs"
    using len by (simp add: SignedTreeHead_from_bytes_def SignedTreeHead_to_bytes_def)
qed

text \<open>
  C11. Split views are caught. A log that signs heads over two lists of fewer than \<open>2\<^sup>6\<^sup>4\<close> leaf
  hashes makes two heads that both verify, and \<open>detect_equivocation\<close> holds of them exactly
  when the lists are equally long and differ, provided SHA-256 does not collide on the
  strings hashed for the two trees.
\<close>

theorem equivocation_detected:
  assumes "ed25519_laws C" and "identity_wf log" and "digest32 (sha256 C)"
    and "length as < 2 ^ 64" and "length bs < 2 ^ 64"
    and "\<forall>l \<in> set as \<union> set bs. length l = 32"
    and "inj_on (sha256 C) (set (mth_inputs (sha256 C) as) \<union> set (mth_inputs (sha256 C) bs))"
  shows "let a = SignedTreeHead_sign C log (of_nat (length as)) (mth (sha256 C) as) t;
             b = SignedTreeHead_sign C log (of_nat (length bs)) (mth (sha256 C) bs) t'
         in SignedTreeHead_verify C a = Ok () \<and> SignedTreeHead_verify C b = Ok ()
            \<and> (detect_equivocation a b \<longleftrightarrow> length as = length bs \<and> as \<noteq> bs)"
proof -
  have "mth (sha256 C) as = mth (sha256 C) bs \<longleftrightarrow> as = bs" if "length as = length bs"
  proof (cases "as = []")
    case False
    then have "0 < length as" by simp
    from mth_inject [OF this assms(3,7) refl that [symmetric] assms(6) subset_refl] show ?thesis by auto
  qed (use that in simp)
  moreover have "(of_nat (length as) :: u64) = of_nat (length bs) \<longleftrightarrow> length as = length bs"
    using assms(4,5) by (simp add: word_of_nat_eq_iff take_bit_nat_eq_self)
  ultimately show ?thesis
    using assms by (simp add: Let_def) (auto simp: detect_equivocation_def SignedTreeHead_sign_def)
qed

theorem equivocation_detected_witness:
  "detect_equivocation
     (SignedTreeHead_sign toy_crypto \<lparr>signing = replicate 32 1, ecdh = replicate 32 2\<rparr> 1 (replicate 32 5) 9)
     (SignedTreeHead_sign toy_crypto \<lparr>signing = replicate 32 1, ecdh = replicate 32 2\<rparr> 1 (replicate 32 6) 9)"
proof -
  let ?log = "\<lparr>signing = replicate 32 1, ecdh = replicate 32 2\<rparr> :: Identity"
  have 1: "identity_wf ?log" by (simp add: identity_wf_def)
  have 2: "digest32 (sha256 toy_crypto)" by (simp add: digest32_def toy_crypto_def)
  have 3: "mth_inputs (sha256 toy_crypto) [x] = []" for x by (simp add: mth_inputs.simps)
  show ?thesis
    using equivocation_detected [OF toy_ed25519_laws 1 2, of "[replicate 32 5]" "[replicate 32 6]" 9 9]
    by (simp add: 3 Let_def replicate_eq_replicate)
qed

end
