(* ===== verification/Anchor.thy ===== *)
theory Anchor
  imports Merkle
begin

text \<open>
  External anchoring, \<open>crates/log/src/anchor.rs\<close>. The trait \<open>Anchor\<close> is the locale
  \<open>anchor\<close>; its laws are what a client of the trait relies on (a receipt verifies once it
  has been issued, and keeps verifying), and the hash chain \<open>HashChainAnchor\<close> is the
  provider. SHA-256 is the parameter \<open>sha\<close>.
\<close>

section \<open>The model\<close>

definition ANCHOR_CONTEXT :: bytes where "ANCHOR_CONTEXT = str_bytes ''keepstone/v1/anchor''"

definition GENESIS :: hash where "GENESIS = replicate 32 0"

record AnchorReceipt =
  ar_anchor :: string
  ar_tree_size :: u64
  ar_root :: hash
  anchored_at :: u64
  ar_previous :: hash
  ar_link :: hash

definition link_hash :: "(bytes \<Rightarrow> hash) \<Rightarrow> hash \<Rightarrow> u64 \<Rightarrow> hash \<Rightarrow> u64 \<Rightarrow> hash" where
  "link_hash sha previous tree_size root now =
     sha (ANCHOR_CONTEXT @ previous @ u64_be tree_size @ root @ u64_be now)"

definition verify_link :: "(bytes \<Rightarrow> hash) \<Rightarrow> AnchorReceipt \<Rightarrow> bool" where
  "verify_link sha receipt \<longleftrightarrow>
     link_hash sha (ar_previous receipt) (ar_tree_size receipt) (ar_root receipt) (anchored_at receipt)
       = ar_link receipt"

text \<open>The loop of \<open>verify_receipts\<close>, with its local \<open>previous\<close>.\<close>

fun verify_receipts_from :: "(bytes \<Rightarrow> hash) \<Rightarrow> hash \<Rightarrow> AnchorReceipt list \<Rightarrow> bool" where
  "verify_receipts_from sha previous [] = True"
| "verify_receipts_from sha previous (receipt # receipts) =
    (if ar_previous receipt \<noteq> previous \<or> \<not> verify_link sha receipt then False
     else verify_receipts_from sha (ar_link receipt) receipts)"

definition verify_receipts :: "(bytes \<Rightarrow> hash) \<Rightarrow> AnchorReceipt list \<Rightarrow> bool" where
  "verify_receipts sha receipts = verify_receipts_from sha GENESIS receipts"

record HashChainAnchor =
  links :: "hash list"
  latest :: hash

definition HashChainAnchor_new :: HashChainAnchor where
  "HashChainAnchor_new = \<lparr>links = [], latest = GENESIS\<rparr>"

definition HashChainAnchor_from_links :: "hash list \<Rightarrow> HashChainAnchor" where
  "HashChainAnchor_from_links ls =
    (let l = (if ls = [] then GENESIS else last ls) in \<lparr>links = ls, latest = l\<rparr>)"

definition HashChainAnchor_len :: "HashChainAnchor \<Rightarrow> nat" where
  "HashChainAnchor_len a = length (links a)"

definition HashChainAnchor_is_empty :: "HashChainAnchor \<Rightarrow> bool" where
  "HashChainAnchor_is_empty a \<longleftrightarrow> links a = []"

definition HashChainAnchor_name :: string where
  "HashChainAnchor_name = ''local-hashchain''"

definition HashChainAnchor_submit ::
    "(bytes \<Rightarrow> hash) \<Rightarrow> u64 \<Rightarrow> hash \<Rightarrow> u64 \<Rightarrow> HashChainAnchor \<Rightarrow> AnchorReceipt \<times> HashChainAnchor" where
  "HashChainAnchor_submit sha tree_size root now a =
    (let previous = latest a;
         link = link_hash sha previous tree_size root now;
         a = a\<lparr>links := links a @ [link]\<rparr>;
         a = a\<lparr>latest := link\<rparr>
     in (\<lparr>ar_anchor = HashChainAnchor_name, ar_tree_size = tree_size, ar_root = root,
          anchored_at = now, ar_previous = previous, ar_link = link\<rparr>, a))"

definition HashChainAnchor_verify :: "(bytes \<Rightarrow> hash) \<Rightarrow> HashChainAnchor \<Rightarrow> AnchorReceipt \<Rightarrow> bool" where
  "HashChainAnchor_verify sha a receipt \<longleftrightarrow>
     ar_anchor receipt = HashChainAnchor_name \<and> verify_link sha receipt
       \<and> ar_link receipt \<in> set (links a)"

section \<open>The Anchor trait\<close>

text \<open>A sequence of submissions to any anchor, and the receipts it hands out.\<close>

fun submit_all ::
    "(u64 \<Rightarrow> hash \<Rightarrow> u64 \<Rightarrow> 'a \<Rightarrow> AnchorReceipt \<times> 'a) \<Rightarrow> (u64 \<times> hash \<times> u64) list \<Rightarrow> 'a
      \<Rightarrow> AnchorReceipt list \<times> 'a" where
  "submit_all submit [] a = ([], a)"
| "submit_all submit ((n, r, t) # heads) a =
    (let (receipt, a) = submit n r t a; (receipts, a) = submit_all submit heads a
     in (receipt # receipts, a))"

locale anchor =
  fixes submit :: "u64 \<Rightarrow> hash \<Rightarrow> u64 \<Rightarrow> 'a \<Rightarrow> AnchorReceipt \<times> 'a"
    and vrfy :: "'a \<Rightarrow> AnchorReceipt \<Rightarrow> bool"
  assumes issued: "submit n r t a = (receipt, a') \<Longrightarrow> vrfy a' receipt"
    and content: "submit n r t a = (receipt, a') \<Longrightarrow>
      ar_tree_size receipt = n \<and> ar_root receipt = r \<and> anchored_at receipt = t"
    and kept: "submit n r t a = (receipt, a') \<Longrightarrow> vrfy a old \<Longrightarrow> vrfy a' old"
begin

lemma kept_all: "submit_all submit heads a = (receipts, a') \<Longrightarrow> vrfy a old \<Longrightarrow> vrfy a' old"
proof (induction heads arbitrary: a receipts)
  case (Cons h heads)
  then show ?case by (cases h) (auto split: prod.splits dest: kept)
qed simp

lemma all_verify: "submit_all submit heads a = (receipts, a') \<Longrightarrow> \<forall>receipt \<in> set receipts. vrfy a' receipt"
proof (induction heads arbitrary: a receipts)
  case (Cons h heads)
  then show ?case by (cases h) (auto split: prod.splits intro: kept_all [OF _ issued])
qed simp

lemma all_content:
  "submit_all submit heads a = (receipts, a') \<Longrightarrow>
    map (\<lambda>receipt. (ar_tree_size receipt, ar_root receipt, anchored_at receipt)) receipts = heads"
proof (induction heads arbitrary: a receipts)
  case (Cons h heads)
  then show ?case by (cases h) (auto split: prod.splits dest!: content)
qed simp

end

interpretation hash_chain: anchor "HashChainAnchor_submit sha" "HashChainAnchor_verify sha" for sha
  by unfold_locales
    (auto simp: HashChainAnchor_submit_def HashChainAnchor_verify_def verify_link_def Let_def)

section \<open>The chain invariant\<close>

text \<open>\<open>latest\<close> always is the last link: the state is determined by the links alone.\<close>

definition chain_inv :: "HashChainAnchor \<Rightarrow> bool" where
  "chain_inv a \<longleftrightarrow> latest a = (if links a = [] then GENESIS else last (links a))"

lemma chain_inv_new [simp]: "chain_inv HashChainAnchor_new"
  by (simp add: chain_inv_def HashChainAnchor_new_def)

lemma chain_inv_submit: "HashChainAnchor_submit sha n r t a = (receipt, a') \<Longrightarrow> chain_inv a'"
  by (auto simp: chain_inv_def HashChainAnchor_submit_def Let_def)

lemma chain_inv_from_links: "chain_inv a \<longleftrightarrow> HashChainAnchor_from_links (links a) = a"
  by (cases a) (auto simp: chain_inv_def HashChainAnchor_from_links_def)

lemma submit_all_chain:
  "submit_all (HashChainAnchor_submit sha) heads a = (receipts, a') \<Longrightarrow> chain_inv a \<Longrightarrow>
    chain_inv a' \<and> links a' = links a @ map ar_link receipts
    \<and> verify_receipts_from sha (latest a) receipts"
proof (induction heads arbitrary: a receipts)
  case (Cons h heads)
  obtain n r t where h: "h = (n, r, t)" by (cases h)
  obtain receipt a1 where s: "HashChainAnchor_submit sha n r t a = (receipt, a1)" by fastforce
  obtain receipts1 where r: "submit_all (HashChainAnchor_submit sha) heads a1 = (receipts1, a')"
    and rs: "receipts = receipt # receipts1"
    using Cons.prems(1) by (auto simp: h s split: prod.splits)
  from Cons.IH [OF r chain_inv_submit [OF s]] show ?case
    using s by (auto simp: rs HashChainAnchor_submit_def verify_link_def Let_def)
qed simp

section \<open>Properties\<close>

text \<open>
  Anchoring any sequence of tree heads on a fresh chain issues one receipt per head, in
  order and with the head's content; the receipts form an unbroken chain from genesis,
  the final anchor verifies every one of them, and so does an anchor rebuilt from the
  persisted links, which is the same state.
\<close>

lemma hash_chain_records:
  "case submit_all (HashChainAnchor_submit sha) heads HashChainAnchor_new of
     (receipts, a) \<Rightarrow>
       map (\<lambda>r. (ar_tree_size r, ar_root r, anchored_at r)) receipts = heads
       \<and> links a = map ar_link receipts
       \<and> verify_receipts sha receipts
       \<and> list_all (HashChainAnchor_verify sha a) receipts
       \<and> HashChainAnchor_from_links (links a) = a"
proof (cases "submit_all (HashChainAnchor_submit sha) heads HashChainAnchor_new")
  case (Pair receipts a)
  note run = submit_all_chain [OF Pair chain_inv_new]
  from run have "links a = map ar_link receipts" "verify_receipts sha receipts"
    by (simp_all add: HashChainAnchor_new_def verify_receipts_def)
  moreover have "HashChainAnchor_from_links (links a) = a"
    using run chain_inv_from_links [of a] by blast
  moreover have "list_all (HashChainAnchor_verify sha a) receipts"
    using hash_chain.all_verify [OF Pair] by (simp add: list_all_iff)
  moreover have "map (\<lambda>r. (ar_tree_size r, ar_root r, anchored_at r)) receipts = heads"
    using hash_chain.all_content [OF Pair] .
  ultimately show ?thesis by (simp add: Pair)
qed

text \<open>The string hashed for the link of a receipt.\<close>

definition link_input :: "AnchorReceipt \<Rightarrow> bytes" where
  "link_input r = ANCHOR_CONTEXT @ ar_previous r @ u64_be (ar_tree_size r) @ ar_root r @ u64_be (anchored_at r)"

definition receipt_wf :: "AnchorReceipt \<Rightarrow> bool" where
  "receipt_wf r \<longleftrightarrow> length (ar_root r) = 32 \<and> length (ar_previous r) = 32"

lemma verify_link_input: "verify_link sha r \<longleftrightarrow> sha (link_input r) = ar_link r"
  by (simp add: verify_link_def link_hash_def link_input_def)

lemma link_input_inject:
  "receipt_wf r \<Longrightarrow> receipt_wf s \<Longrightarrow> link_input r = link_input s \<Longrightarrow>
    ar_previous r = ar_previous s \<and> ar_tree_size r = ar_tree_size s \<and> ar_root r = ar_root s
    \<and> anchored_at r = anchored_at s"
  by (simp add: link_input_def receipt_wf_def append_eq_same_length)

lemma verify_receipts_from_append:
  "verify_receipts_from sha p (rs @ [r]) \<longleftrightarrow> verify_receipts_from sha p rs
    \<and> ar_previous r = (if rs = [] then p else ar_link (last rs)) \<and> verify_link sha r"
  by (induction rs arbitrary: p) auto

text \<open>What a receipt commits to, apart from the backend's name.\<close>

definition receipt_content :: "AnchorReceipt \<Rightarrow> u64 \<times> hash \<times> u64 \<times> hash \<times> hash" where
  "receipt_content r = (ar_tree_size r, ar_root r, anchored_at r, ar_previous r, ar_link r)"

lemma same_link_same_content:
  assumes "verify_link sha r" "verify_link sha s" "receipt_wf r" "receipt_wf s"
    and "inj_on sha S" "link_input r \<in> S" "link_input s \<in> S" "ar_link r = ar_link s"
  shows "receipt_content r = receipt_content s"
proof -
  from assms have "sha (link_input r) = sha (link_input s)" by (simp add: verify_link_input)
  with assms(5-7) have "link_input r = link_input s" by (metis inj_onD)
  from link_input_inject [OF assms(3,4) this] assms(8) show ?thesis
    by (simp add: receipt_content_def)
qed

lemma chain_binding:
  assumes "inj_on sha S" and "GENESIS \<notin> sha ` S"
  shows "verify_receipts_from sha GENESIS rs \<Longrightarrow> verify_receipts_from sha GENESIS ss \<Longrightarrow>
    \<forall>r \<in> set rs \<union> set ss. receipt_wf r \<and> link_input r \<in> S \<Longrightarrow>
    (if rs = [] then GENESIS else ar_link (last rs)) = (if ss = [] then GENESIS else ar_link (last ss)) \<Longrightarrow>
    map receipt_content rs = map receipt_content ss"
proof (induction rs arbitrary: ss rule: rev_induct)
  case Nil
  show ?case
  proof (cases ss rule: rev_cases)
    case (snoc ss' s)
    with Nil.prems have "sha (link_input s) = GENESIS"
      by (simp add: verify_receipts_from_append verify_link_input)
    with Nil.prems(3) snoc assms(2) show ?thesis by force
  qed simp
next
  case (snoc r rs)
  show ?case
  proof (cases ss rule: rev_cases)
    case Nil
    with snoc.prems have "sha (link_input r) = GENESIS"
      by (simp add: verify_receipts_from_append verify_link_input)
    with snoc.prems(3) assms(2) show ?thesis by force
  next
    case ss: (snoc ss' s)
    with snoc.prems assms(1) have eq: "receipt_content r = receipt_content s"
      by (intro same_link_same_content [of sha r s S]) (auto simp: verify_receipts_from_append)
    then have "ar_previous r = ar_previous s" by (simp add: receipt_content_def)
    with snoc.IH [of ss'] snoc.prems ss have "map receipt_content rs = map receipt_content ss'"
      by (auto simp: verify_receipts_from_append)
    with eq ss show ?thesis by simp
  qed
qed

text \<open>
  C12. The last link commits to the whole history. Two receipt sequences that both verify from
  genesis and end in the same link record the same tree heads at the same times, link
  for link, provided SHA-256 neither collides nor reaches the all-zero hash on the
  strings the two chains hash.
\<close>

theorem anchor_history_binding:
  assumes "verify_receipts sha rs" and "verify_receipts sha ss"
    and "rs \<noteq> []" and "ss \<noteq> []" and "ar_link (last rs) = ar_link (last ss)"
    and "\<forall>r \<in> set rs \<union> set ss. receipt_wf r"
    and "inj_on sha (link_input ` (set rs \<union> set ss))"
    and "GENESIS \<notin> sha ` link_input ` (set rs \<union> set ss)"
  shows "map receipt_content rs = map receipt_content ss"
  using chain_binding [OF assms(7,8), of rs ss] assms(1-6) by (simp add: verify_receipts_def)

theorem anchor_history_binding_witness:
  "let sha = (\<lambda>x :: bytes. replicate 32 (7 :: u8));
       r = fst (HashChainAnchor_submit sha 1 (replicate 32 1) 100 HashChainAnchor_new)
   in verify_receipts sha [r]
      \<and> map receipt_content [r] = map receipt_content [r\<lparr>ar_anchor := ''other''\<rparr>]"
proof -
  let ?sha = "\<lambda>x :: bytes. replicate 32 (7 :: u8)"
  let ?r = "fst (HashChainAnchor_submit ?sha 1 (replicate 32 1) 100 HashChainAnchor_new)"
  let ?s = "?r\<lparr>ar_anchor := ''other''\<rparr>"
  have acc: "verify_receipts ?sha [?r]" "verify_receipts ?sha [?s]"
    by (simp_all add: verify_receipts_def verify_link_def HashChainAnchor_submit_def
        HashChainAnchor_new_def Let_def)
  have wf: "\<forall>r \<in> set [?r] \<union> set [?s]. receipt_wf r"
    by (simp add: receipt_wf_def GENESIS_def HashChainAnchor_submit_def HashChainAnchor_new_def Let_def)
  have same: "link_input ?s = link_input ?r" by (simp add: link_input_def)
  have nz: "?sha (link_input ?r) \<noteq> GENESIS" by (simp add: GENESIS_def replicate_eq_replicate)
  have "map receipt_content [?r] = map receipt_content [?s]"
    by (rule anchor_history_binding [OF acc _ _ _ wf]) (use nz in \<open>simp_all add: same\<close>)
  with acc show ?thesis by (simp add: Let_def)
qed

end
