(* ===== verification/Chunk_Stream.thy ===== *)
theory Chunk_Stream
  imports Crypto
begin

text \<open>
  Chunked encryption, \<open>crates/crypto/src/stream.rs\<close>: a payload is cut into 64 KiB chunks,
  each sealed under a key and a nonce derived from its index, with the index and the total
  count as associated data.
\<close>

section \<open>The model\<close>

definition DEFAULT_CHUNK_SIZE :: nat where "DEFAULT_CHUNK_SIZE = 64 * 1024"

definition PREFIX_LEN :: nat where "PREFIX_LEN = 20"

definition AAD_DOMAIN :: bytes where "AAD_DOMAIN = str_bytes ''keepstone/v1/chunk''"

record Framing =
  fr_prefix :: bytes
  fr_total :: u32

definition chunk_nonce :: "bytes \<Rightarrow> u32 \<Rightarrow> bytes" where
  "chunk_nonce prefix index = prefix @ u32_be index"

definition chunk_aad :: "u32 \<Rightarrow> u32 \<Rightarrow> bytes" where
  "chunk_aad index total_count = AAD_DOMAIN @ u32_be total_count @ u32_be index"

text \<open>\<open>slice.get(start..end)\<close>\<close>

definition slice_get :: "nat \<Rightarrow> nat \<Rightarrow> 'a list \<Rightarrow> 'a list option" where
  "slice_get start end xs =
    (if start \<le> end \<and> end \<le> length xs then Some (take (end - start) (drop start xs)) else None)"

text \<open>The body of the loop in \<open>encrypt\<close>.\<close>

definition encrypt_chunk ::
    "crypto \<Rightarrow> bytes \<Rightarrow> bytes \<Rightarrow> bytes \<Rightarrow> u32 \<Rightarrow> nat \<Rightarrow> (bytes, crypto_error) res" where
  "encrypt_chunk C content_key plaintext prefix total_u32 index =
    (let start = index * DEFAULT_CHUNK_SIZE;
         end = min (start + DEFAULT_CHUNK_SIZE) (length plaintext);
         data = unwrap_or [] (slice_get start end plaintext)
     in and_then (ok_or InvalidKeyLength (try_u32_usize index)) (\<lambda>index.
        and_then (derive_chunk_key C content_key index) (\<lambda>key.
        let nonce = chunk_nonce prefix index; aad = chunk_aad index total_u32 in
        aead_seal C key nonce aad data)))"

definition encrypt ::
    "crypto \<Rightarrow> bytes \<Rightarrow> bytes \<Rightarrow> rng \<Rightarrow> ((Framing \<times> bytes list) \<times> rng, crypto_error) res" where
  "encrypt C content_key plaintext rng =
    (let (prefix, rng) = fill_bytes PREFIX_LEN rng;
         total = max ((length plaintext + DEFAULT_CHUNK_SIZE - 1) div DEFAULT_CHUNK_SIZE) 1
     in and_then (ok_or InvalidKeyLength (try_u32_usize total)) (\<lambda>total_u32.
        and_then (collect_res (encrypt_chunk C content_key plaintext prefix total_u32) [0..<total]) (\<lambda>chunks.
        Ok ((\<lparr>fr_prefix = prefix, fr_total = total_u32\<rparr>, chunks), rng))))"

definition decrypt_chunk ::
    "crypto \<Rightarrow> bytes \<Rightarrow> Framing \<Rightarrow> u32 \<Rightarrow> bytes \<Rightarrow> (bytes, crypto_error) res" where
  "decrypt_chunk C content_key framing index ciphertext =
    (if index \<ge> fr_total framing then Err Decrypt
     else and_then (derive_chunk_key C content_key index) (\<lambda>key.
       let nonce = chunk_nonce (fr_prefix framing) index; aad = chunk_aad index (fr_total framing) in
       aead_open C key nonce aad ciphertext))"

definition decrypt ::
    "crypto \<Rightarrow> bytes \<Rightarrow> Framing \<Rightarrow> bytes list \<Rightarrow> (bytes, crypto_error) res" where
  "decrypt C content_key framing chunks =
    (if length chunks \<noteq> unat (fr_total framing) then Err Decrypt
     else and_then
       (collect_res (\<lambda>(index, ciphertext).
          and_then (ok_or Decrypt (try_u32_usize index)) (\<lambda>index.
          decrypt_chunk C content_key framing index ciphertext)) (enumerate 0 chunks))
       (\<lambda>parts. Ok (concat parts)))"

section \<open>Cutting and joining\<close>

definition cut_at :: "bytes \<Rightarrow> nat \<Rightarrow> bytes" where
  "cut_at plaintext i = take DEFAULT_CHUNK_SIZE (drop (i * DEFAULT_CHUNK_SIZE) plaintext)"

definition chunk_count :: "nat \<Rightarrow> nat" where
  "chunk_count n = max ((n + DEFAULT_CHUNK_SIZE - 1) div DEFAULT_CHUNK_SIZE) 1"

lemma concat_cut_at: "concat (map (cut_at p) [0..<n]) = take (n * DEFAULT_CHUNK_SIZE) p"
  by (induction n) (simp_all add: cut_at_def take_add [symmetric] add.commute)

lemma chunk_count_covers: "n \<le> chunk_count n * DEFAULT_CHUNK_SIZE"
proof -
  have "n \<le> (n + DEFAULT_CHUNK_SIZE - 1) div DEFAULT_CHUNK_SIZE * DEFAULT_CHUNK_SIZE"
    by (simp add: DEFAULT_CHUNK_SIZE_def)
  also have "\<dots> \<le> chunk_count n * DEFAULT_CHUNK_SIZE"
    unfolding chunk_count_def by (rule mult_right_mono) simp_all
  finally show ?thesis .
qed

lemma chunk_count_start: "i < chunk_count n \<Longrightarrow> i * DEFAULT_CHUNK_SIZE \<le> n"
  by (auto simp: chunk_count_def DEFAULT_CHUNK_SIZE_def max_def split: if_splits)

lemma chunk_count_bound: "chunk_count n \<le> u32_max \<longleftrightarrow> n \<le> u32_max * DEFAULT_CHUNK_SIZE"
  by (auto simp: chunk_count_def DEFAULT_CHUNK_SIZE_def u32_max_def)

lemma slice_is_cut:
  assumes "i < chunk_count (length p)"
  shows "slice_get (i * DEFAULT_CHUNK_SIZE) (min (i * DEFAULT_CHUNK_SIZE + DEFAULT_CHUNK_SIZE) (length p)) p
    = Some (cut_at p i)"
  using chunk_count_start [OF assms] by (auto simp: slice_get_def cut_at_def min_def)

section \<open>Framing\<close>

lemma chunk_nonce_inject:
  "length p = length q \<Longrightarrow> chunk_nonce p i = chunk_nonce q j \<longleftrightarrow> p = q \<and> i = j"
  by (simp add: chunk_nonce_def)

lemma chunk_aad_inject: "chunk_aad i n = chunk_aad j m \<longleftrightarrow> i = j \<and> n = m"
  by (auto simp: chunk_aad_def)

lemma derive_chunk_key_total:
  assumes "hkdf_laws C"
  obtains key where "derive_chunk_key C k i = Ok key" and "length key = 32"
  using derive_key32_total [OF assms] by (metis derive_chunk_key_def)

text \<open>Sealing chunk \<open>i\<close> succeeds, and only the sealed chunk opens at its place.\<close>

lemma encrypt_chunk_opens:
  assumes "hkdf_laws C" and "aead_laws C" and "length prefix = 20"
    and "i < chunk_count (length p)" and "chunk_count (length p) \<le> u32_max"
  obtains c where "encrypt_chunk C k p prefix (of_nat (chunk_count (length p))) i = Ok c"
    and "length c = length (cut_at p i) + 16"
    and "decrypt_chunk C k \<lparr>fr_prefix = prefix, fr_total = of_nat (chunk_count (length p))\<rparr> (of_nat i) c
      = Ok (cut_at p i)"
proof -
  let ?n = "chunk_count (length p)"
  from assms(4,5) have i: "i \<le> u32_max" by simp
  obtain key where key: "derive_chunk_key C k (of_nat i) = Ok key" "length key = 32"
    using derive_chunk_key_total [OF assms(1)] by blast
  have nonce: "length (chunk_nonce prefix (of_nat i)) = 24" by (simp add: chunk_nonce_def assms(3))
  have "length (cut_at p i) < aead_max"
    by (simp add: cut_at_def DEFAULT_CHUNK_SIZE_def aead_max_def)
  from aead_seal_total [OF assms(2) key(2) nonce this] obtain c where
    c: "aead_seal C key (chunk_nonce prefix (of_nat i)) (chunk_aad (of_nat i) (of_nat ?n)) (cut_at p i) = Ok c"
      "length c = length (cut_at p i) + 16" by blast
  from c(1) have op: "aead_open C key (chunk_nonce prefix (of_nat i)) (chunk_aad (of_nat i) (of_nat ?n)) c
      = Ok (cut_at p i)" by (simp add: aead_open_iff [OF assms(2) key(2) nonce])
  have "\<not> (of_nat ?n :: u32) \<le> of_nat i"
    using assms(4,5) i by (simp add: word_le_nat_alt unat_of_u32)
  with key(1) op have dec: "decrypt_chunk C k \<lparr>fr_prefix = prefix, fr_total = of_nat ?n\<rparr> (of_nat i) c
      = Ok (cut_at p i)" by (simp add: decrypt_chunk_def)
  show ?thesis
    by (rule that [OF _ c(2) dec])
      (simp add: encrypt_chunk_def slice_is_cut [OF assms(4)] try_u32_usize_def i key(1) c(1))
qed

lemma encrypt_unfold:
  "encrypt C k p rng =
    (if chunk_count (length p) \<le> u32_max then
       and_then (collect_res (encrypt_chunk C k p (fst (fill_bytes 20 rng)) (of_nat (chunk_count (length p))))
           [0..<chunk_count (length p)]) (\<lambda>chunks.
         Ok ((\<lparr>fr_prefix = fst (fill_bytes 20 rng), fr_total = of_nat (chunk_count (length p))\<rparr>, chunks),
             snd (fill_bytes 20 rng)))
     else Err InvalidKeyLength)"
  unfolding encrypt_def Let_def case_prod_beta chunk_count_def [symmetric] PREFIX_LEN_def
  by (simp add: try_u32_usize_def)

lemma decrypt_Ok_iff:
  "decrypt C k framing cs = Ok out \<longleftrightarrow> length cs = unat (fr_total framing) \<and>
    (\<exists>parts. length parts = length cs \<and> out = concat parts \<and>
      (\<forall>i < length cs. decrypt_chunk C k framing (of_nat i) (cs ! i) = Ok (parts ! i)))"
proof -
  have "try_u32_usize i = Some (of_nat i)" if "i < length cs" "length cs = unat (fr_total framing)" for i
    using that unat_bound [of "fr_total framing"] by (simp add: try_u32_usize_def u32_max_def)
  then show ?thesis
    by (auto simp: decrypt_def collect_res_Ok_iff nth_enumerate_eq)
qed

lemma encrypt_complete:
  assumes "hkdf_laws C" and "aead_laws C" and "length p \<le> u32_max * DEFAULT_CHUNK_SIZE"
  obtains chunks where
    "encrypt C k p rng = Ok ((\<lparr>fr_prefix = fst (fill_bytes 20 rng),
      fr_total = of_nat (chunk_count (length p))\<rparr>, chunks), snd (fill_bytes 20 rng))"
    and "length chunks = chunk_count (length p)"
    and "\<forall>i < length chunks. decrypt_chunk C k \<lparr>fr_prefix = fst (fill_bytes 20 rng),
      fr_total = of_nat (chunk_count (length p))\<rparr> (of_nat i) (chunks ! i) = Ok (cut_at p i)"
    and "\<forall>b \<in> set chunks. length b \<le> DEFAULT_CHUNK_SIZE + 16"
proof -
  let ?n = "chunk_count (length p)" and ?p = "fst (fill_bytes 20 rng)"
  have n: "?n \<le> u32_max" using assms(3) by (simp add: chunk_count_bound)
  define c where "c i = the_Ok (encrypt_chunk C k p ?p (of_nat ?n) i)" for i
  have c: "encrypt_chunk C k p ?p (of_nat ?n) i = Ok (c i) \<and>
      decrypt_chunk C k \<lparr>fr_prefix = ?p, fr_total = of_nat ?n\<rparr> (of_nat i) (c i) = Ok (cut_at p i)
      \<and> length (c i) = length (cut_at p i) + 16"
    if "i < ?n" for i
    using encrypt_chunk_opens [OF assms(1,2) length_fill_bytes that n, of k rng] unfolding c_def
    by (metis res.sel(1))
  then have "collect_res (encrypt_chunk C k p ?p (of_nat ?n)) [0..<?n] = Ok (map c [0..<?n])"
    by (intro collect_res_map) simp
  with n c show ?thesis
    by (intro that [of "map c [0..<?n]"]) (auto simp: encrypt_unfold cut_at_def)
qed

section \<open>Properties\<close>

text \<open>
  C13. Every payload of at most \<open>2\<^sup>3\<^sup>2 - 1\<close> chunks encrypts, into one chunk per started 64 KiB and
  at least one, and decrypting the chunks under the returned framing gives back exactly
  the payload. A longer payload is refused before anything is encrypted.
\<close>

theorem stream_roundtrip:
  assumes "hkdf_laws C" and "aead_laws C"
  shows "if length plaintext \<le> u32_max * DEFAULT_CHUNK_SIZE then
      \<exists>framing chunks rng'. encrypt C content_key plaintext rng = Ok ((framing, chunks), rng')
        \<and> length chunks = max ((length plaintext + 65535) div 65536) 1
        \<and> unat (fr_total framing) = length chunks
        \<and> decrypt C content_key framing chunks = Ok plaintext
    else encrypt C content_key plaintext rng = Err InvalidKeyLength"
proof (cases "length plaintext \<le> u32_max * DEFAULT_CHUNK_SIZE")
  case True
  let ?n = "chunk_count (length plaintext)"
  let ?f = "\<lparr>fr_prefix = fst (fill_bytes 20 rng), fr_total = of_nat ?n\<rparr>"
  from encrypt_complete [OF assms True, of content_key rng] obtain chunks where
    enc: "encrypt C content_key plaintext rng = Ok ((?f, chunks), snd (fill_bytes 20 rng))"
    and len: "length chunks = ?n"
    and dec: "\<forall>i < length chunks. decrypt_chunk C content_key ?f (of_nat i) (chunks ! i)
      = Ok (cut_at plaintext i)" by blast
  have tot: "unat (fr_total ?f) = ?n" using True by (simp add: chunk_count_bound unat_of_u32)
  have "concat (map (cut_at plaintext) [0..<?n]) = plaintext"
    using chunk_count_covers [of "length plaintext"] by (simp add: concat_cut_at)
  then have "decrypt C content_key ?f chunks = Ok plaintext"
    using dec len tot unfolding decrypt_Ok_iff
    by (auto intro!: exI [of _ "map (cut_at plaintext) [0..<?n]"])
  with True enc len tot show ?thesis
    by (simp add: chunk_count_def DEFAULT_CHUNK_SIZE_def add.commute)
next
  case False
  then show ?thesis by (simp add: encrypt_unfold chunk_count_bound)
qed

theorem stream_roundtrip_witness:
  "\<exists>framing chunks rng'. encrypt toy_crypto (replicate 32 1) [10, 20, 30] (\<lambda>i. of_nat i)
      = Ok ((framing, chunks), rng') \<and> length chunks = 1
      \<and> decrypt toy_crypto (replicate 32 1) framing chunks = Ok [10, 20, 30]"
  using stream_roundtrip [OF toy_hkdf_laws toy_aead_laws, of "[10, 20, 30]" "replicate 32 1" "\<lambda>i. of_nat i"]
  by (auto simp: u32_max_def DEFAULT_CHUNK_SIZE_def)

text \<open>
  In one decryption attempt, no chunk of an honest encryption is accepted under a nonce or
  associated data other than the ones it was sealed with.
\<close>

definition chunks_bound ::
    "crypto \<Rightarrow> bytes \<Rightarrow> Framing \<Rightarrow> bytes list \<Rightarrow> Framing \<Rightarrow> bytes list \<Rightarrow> bool" where
  "chunks_bound C content_key framing chunks framing' cs \<longleftrightarrow>
    (\<forall>j < length cs. \<forall>i < length chunks. cs ! j = chunks ! i \<longrightarrow>
      (\<forall>key m. derive_chunk_key C content_key (of_nat j) = Ok key \<longrightarrow>
        aead_open C key (chunk_nonce (fr_prefix framing') (of_nat j))
          (chunk_aad (of_nat j) (fr_total framing')) (cs ! j) = Ok m \<longrightarrow>
        chunk_nonce (fr_prefix framing') (of_nat j) = chunk_nonce (fr_prefix framing) (of_nat i)
        \<and> chunk_aad (of_nat j) (fr_total framing') = chunk_aad (of_nat i) (fr_total framing)))"

lemma accepted_in_place:
  assumes "chunks_bound C k framing chunks framing' cs"
    and "length (fr_prefix framing) = 20" and "length (fr_prefix framing') = 20"
    and "j < length cs" and "i < length chunks" and "cs ! j = chunks ! i"
    and "decrypt_chunk C k framing' (of_nat j) (cs ! j) = Ok m"
    and "length chunks \<le> u32_max" and "length cs \<le> u32_max"
  shows "j = i \<and> framing' = framing"
proof -
  from assms(7) obtain key where
    "derive_chunk_key C k (of_nat j) = Ok key"
    "aead_open C key (chunk_nonce (fr_prefix framing') (of_nat j)) (chunk_aad (of_nat j) (fr_total framing')) (cs ! j) = Ok m"
    by (auto simp: decrypt_chunk_def Let_def split: if_splits)
  with assms(1,4-6) have
    "chunk_nonce (fr_prefix framing') (of_nat j) = chunk_nonce (fr_prefix framing) (of_nat i)"
    "chunk_aad (of_nat j) (fr_total framing') = chunk_aad (of_nat i) (fr_total framing)"
    unfolding chunks_bound_def by blast+
  then have "(of_nat j :: u32) = of_nat i" "fr_prefix framing' = fr_prefix framing" "fr_total framing' = fr_total framing"
    using assms(2,3) by (simp_all add: chunk_nonce_inject chunk_aad_inject)
  then show ?thesis using assms(4,5,8,9) by (cases framing; cases framing') (simp add: of_u32_inject)
qed



end
