(* ===== verification/Interpolation.thy ===== *)
theory Interpolation
  imports Main
begin

text \<open>
  Polynomials over a field as coefficient lists (constant term first), evaluated by
  Horner's rule: a non-zero polynomial with \<open>n\<close> coefficients has fewer than \<open>n\<close> roots, and
  Lagrange's formula recovers its values. The secret sharing of \<open>shamir.rs\<close> rests on
  these facts.
\<close>

section \<open>Horner evaluation\<close>

fun horner :: "'a::field list \<Rightarrow> 'a \<Rightarrow> 'a" where
  "horner [] x = 0"
| "horner (c # cs) x = c + x * horner cs x"

text \<open>The quotient of a polynomial by \<open>x - a\<close>.\<close>

fun root_quotient :: "'a::field \<Rightarrow> 'a list \<Rightarrow> 'a list" where
  "root_quotient a [] = []"
| "root_quotient a [c] = []"
| "root_quotient a (c # d # cs) = horner (d # cs) a # root_quotient a (d # cs)"

lemma length_quotient [simp]: "length (root_quotient a cs) = length cs - 1"
  by (induction a cs rule: root_quotient.induct) simp_all

lemma horner_quotient: "horner cs x = horner cs a + (x - a) * horner (root_quotient a cs) x"
proof (induction a cs rule: root_quotient.induct)
  case (3 a c d cs)
  have "horner (c # d # cs) x = c + x * horner (d # cs) x" by simp
  also have "\<dots> = c + x * (horner (d # cs) a + (x - a) * horner (root_quotient a (d # cs)) x)"
    by (simp only: 3 [symmetric])
  also have "\<dots> = horner (c # d # cs) a + (x - a) * horner (root_quotient a (c # d # cs)) x"
    by (simp only: horner.simps root_quotient.simps) (simp add: algebra_simps)
  finally show ?case .
qed simp_all

lemma quotient_zero:
  "horner cs a = 0 \<Longrightarrow> \<forall>d \<in> set (root_quotient a cs). d = 0 \<Longrightarrow> \<forall>c \<in> set cs. c = 0"
proof (induction a cs rule: root_quotient.induct)
  case (3 a c d cs)
  then have "horner (d # cs) a = 0" "\<forall>e \<in> set (root_quotient a (d # cs)). e = 0" by simp_all
  with 3 have "\<forall>e \<in> set (d # cs). e = 0" and "c + a * horner (d # cs) a = 0" by simp_all
  with \<open>horner (d # cs) a = 0\<close> show ?case by (simp only: set_simps ball_simps) simp
qed simp_all

text \<open>A polynomial with at least as many roots as coefficients is the zero polynomial.\<close>

lemma roots_zero:
  "finite S \<Longrightarrow> length cs \<le> card S \<Longrightarrow> \<forall>x \<in> S. horner cs x = 0 \<Longrightarrow> \<forall>c \<in> set cs. c = 0"
proof (induction "length cs" arbitrary: cs S)
  case (Suc n)
  then have "S \<noteq> {}" by auto
  then obtain a where a: "a \<in> S" by blast
  have "horner (root_quotient a cs) x = 0" if "x \<in> S - {a}" for x
    using Suc.prems(3) a that horner_quotient [of cs x a] by auto
  then have "\<forall>d \<in> set (root_quotient a cs). d = 0"
    using Suc.hyps(1) [of "root_quotient a cs" "S - {a}"] Suc.hyps(2) Suc.prems a by (simp add: card_Diff_singleton)
  with Suc.prems(3) a show ?case using quotient_zero by blast
qed simp

lemma horner_zero_coeffs: "\<forall>c \<in> set cs. c = 0 \<Longrightarrow> horner cs x = 0"
  by (induction cs) simp_all

section \<open>Functions given by a polynomial\<close>

definition polyf :: "nat \<Rightarrow> ('a::field \<Rightarrow> 'a) \<Rightarrow> bool" where
  "polyf n f \<longleftrightarrow> (\<exists>cs. length cs = n \<and> f = horner cs)"

lemma polyf_horner [intro]: "polyf (length cs) (horner cs)"
  by (auto simp: polyf_def)

lemma horner_append_zero: "horner (cs @ replicate k 0) x = horner cs x"
proof (induction cs)
  case Nil
  show ?case by (simp add: horner_zero_coeffs)
qed simp

lemma polyf_mono: "polyf n f \<Longrightarrow> n \<le> m \<Longrightarrow> polyf m f"
  unfolding polyf_def by (metis (no_types) ext horner_append_zero le_add_diff_inverse length_append length_replicate)

lemma horner_add: "length cs = length ds \<Longrightarrow> horner (map2 (+) cs ds) x = horner cs x + horner ds x"
  by (induction cs ds rule: list_induct2) (simp_all add: algebra_simps)

lemma horner_scale: "horner (map ((*) k) cs) x = k * horner cs x"
  by (induction cs) (simp_all add: algebra_simps)

lemma polyf_add: "polyf n f \<Longrightarrow> polyf n g \<Longrightarrow> polyf n (\<lambda>x. f x + g x)"
  unfolding polyf_def
  by (elim exE conjE, rule_tac x = "map2 (+) cs csa" in exI) (auto simp: horner_add)

lemma polyf_scale: "polyf n f \<Longrightarrow> polyf n (\<lambda>x. k * f x)"
  unfolding polyf_def
  by (elim exE conjE, rule_tac x = "map ((*) k) cs" in exI) (auto simp: horner_scale)

lemma polyf_zero: "polyf n (\<lambda>x. 0)"
  unfolding polyf_def by (rule exI [of _ "replicate n 0"]) (auto simp: horner_zero_coeffs)

lemma polyf_times_x: "polyf n f \<Longrightarrow> polyf (Suc n) (\<lambda>x. x * f x)"
  unfolding polyf_def by (elim exE conjE, rule_tac x = "0 # cs" in exI) auto

lemma polyf_linear:
  assumes "polyf n f"
  shows "polyf (Suc n) (\<lambda>x. (x - a) * k * f x)"
proof -
  have "polyf (Suc n) (\<lambda>x. k * (x * f x) + (- a * k) * f x)"
    by (intro polyf_add polyf_scale polyf_times_x polyf_mono [OF assms] assms) simp
  then show ?thesis by (simp add: algebra_simps)
qed

lemma polyf_one: "polyf (Suc 0) (\<lambda>x. 1)"
  unfolding polyf_def by (rule exI [of _ "[1]"]) auto

lemma polyf_sum: "finite A \<Longrightarrow> (\<And>i. i \<in> A \<Longrightarrow> polyf n (f i)) \<Longrightarrow> polyf n (\<lambda>x. \<Sum>i\<in>A. f i x)"
  by (induction A rule: finite_induct) (simp_all add: polyf_zero polyf_add)

lemma polyf_prod: "finite A \<Longrightarrow> polyf (Suc (card A)) (\<lambda>x. \<Prod>j\<in>A. (x - j) * k j)"
  by (induction A rule: finite_induct) (simp_all add: polyf_one polyf_linear)

text \<open>Two polynomials with at most \<open>card S\<close> coefficients that agree on \<open>S\<close> agree everywhere.\<close>

lemma polyf_unique:
  assumes "polyf n f" "polyf n g" "finite S" "n \<le> card S" "\<And>x. x \<in> S \<Longrightarrow> f x = g x"
  shows "f z = g z"
proof -
  from assms(1,2) have "polyf n (\<lambda>x. f x + (- 1) * g x)" by (intro polyf_add polyf_scale)
  then obtain cs where cs: "length cs = n" "(\<lambda>x. f x + (- 1) * g x) = horner cs"
    by (auto simp: polyf_def)
  from cs(2) have h: "horner cs x = f x - g x" for x by (simp add: fun_eq_iff)
  with assms(5) have "\<forall>x \<in> S. horner cs x = 0" by simp
  from roots_zero [OF assms(3) _ this] assms(4) cs(1) have "horner cs z = 0"
    by (simp add: horner_zero_coeffs)
  with h [of z] show ?thesis by simp
qed

section \<open>Lagrange interpolation\<close>

definition lagrange :: "'a::field set \<Rightarrow> 'a \<Rightarrow> 'a \<Rightarrow> 'a" where
  "lagrange S i z = (\<Prod>j \<in> S - {i}. (z - j) / (i - j))"

definition interpolate :: "'a::field set \<Rightarrow> ('a \<Rightarrow> 'a) \<Rightarrow> 'a \<Rightarrow> 'a" where
  "interpolate S y z = (\<Sum>i \<in> S. y i * lagrange S i z)"

lemma lagrange_at:
  assumes "finite S" "i \<in> S" "z \<in> S"
  shows "lagrange S i z = (if i = z then 1 else 0)"
proof (cases "i = z")
  case True
  have "(\<Prod>j \<in> S - {i}. (z - j) / (i - j)) = (\<Prod>j \<in> S - {i}. 1)"
    by (rule prod.cong) (auto simp: True)
  with True show ?thesis by (simp add: lagrange_def)
next
  case False
  with assms show ?thesis by (auto simp: lagrange_def)
qed

lemma interpolate_at: "finite S \<Longrightarrow> x \<in> S \<Longrightarrow> interpolate S y x = y x"
  by (simp add: interpolate_def lagrange_at sum.remove [of S x])

lemma polyf_interpolate:
  assumes "finite S"
  shows "polyf (card S) (interpolate S y)"
proof -
  have "polyf (card S) (\<lambda>z. lagrange S i z)" if "i \<in> S" for i
  proof -
    have "Suc (card (S - {i})) = card S" using assms that by (rule card_Suc_Diff1)
    then show ?thesis using polyf_prod [of "S - {i}" "\<lambda>j. inverse (i - j)"] assms
      by (simp add: lagrange_def divide_inverse)
  qed
  then have "polyf (card S) (\<lambda>z. \<Sum>i \<in> S. y i * lagrange S i z)"
    using assms by (intro polyf_sum polyf_scale)
  then show ?thesis by (simp add: interpolate_def [abs_def])
qed

lemma interpolation:
  assumes "finite S" "length cs \<le> card S"
  shows "interpolate S (horner cs) z = horner cs z"
  by (rule polyf_unique [where S = S and n = "card S"])
    (use assms in \<open>auto simp: interpolate_at intro: polyf_interpolate polyf_mono\<close>)

text \<open>
  A polynomial with \<open>card S\<close> coefficients is determined by its values on \<open>S\<close>, and every choice of
  values is taken.
\<close>

lemma interpolation_unique:
  assumes "finite S"
  shows "\<exists>!cs. length cs = card S \<and> (\<forall>x \<in> S. horner cs x = y x)"
proof -
  from polyf_interpolate [OF assms, of y] obtain cs where
    cs: "length cs = card S" "interpolate S y = horner cs" by (auto simp: polyf_def)
  have vals: "\<forall>x \<in> S. horner cs x = y x"
    using interpolate_at [OF assms, of _ y] unfolding cs(2) by blast
  have "ds = cs" if ds: "length ds = card S" "\<forall>x \<in> S. horner ds x = y x" for ds
  proof -
    have neg: "horner (map ((*) (- 1)) cs) x = - horner cs x" for x by (simp add: horner_scale)
    let ?d = "map2 (+) ds (map ((*) (- 1)) cs)"
    have "\<forall>x \<in> S. horner ?d x = 0"
      using ds(1) cs(1) ds(2) vals by (simp add: horner_add neg)
    from roots_zero [OF assms _ this] ds(1) cs(1) have z: "\<forall>c \<in> set ?d. c = 0" by simp
    show ?thesis
    proof (rule nth_equalityI)
      fix i assume i: "i < length ds"
      with ds(1) cs(1) have "?d ! i \<in> set ?d" by (intro nth_mem) simp
      with z have "?d ! i = 0" by blast
      with i ds(1) cs(1) show "ds ! i = cs ! i" by simp
    qed (simp add: ds(1) cs(1))
  qed
  then show ?thesis using cs(1) vals by (intro ex1I [of _ cs]) blast+
qed

end
