(* ===== verification/Shamir.thy ===== *)
theory Shamir
  imports Errors Interpolation
begin

unbundle bit_operations_syntax

text \<open>
  Secret sharing over GF(256), \<open>crates/crypto/src/shamir.rs\<close>. The byte operations are
  modelled as the loops they are; \<open>XOR\<close> and \<open>gf_mul\<close> are shown to form a field (the type
  \<open>gf256\<close> is an instance of the class \<open>field\<close>), and \<open>split\<close> and \<open>combine\<close> are then polynomial
  evaluation and Lagrange interpolation in that field.
\<close>

section \<open>Arithmetic (gf\_mul, gf\_pow, gf\_inv, eval\_poly)\<close>

text \<open>One turn of the loop in \<open>gf_mul\<close>, on its three variables.\<close>

definition gf_step :: "u8 \<times> u8 \<times> u8 \<Rightarrow> u8 \<times> u8 \<times> u8" where
  "gf_step = (\<lambda>(product, a, b).
    let product = (if b AND 1 \<noteq> 0 then product XOR a else product);
        high = a AND 0x80;
        a = push_bit 1 a;
        a = (if high \<noteq> 0 then a XOR 0x1B else a);
        b = drop_bit 1 b
    in (product, a, b))"

definition gf_mul :: "u8 \<Rightarrow> u8 \<Rightarrow> u8" where
  "gf_mul a b = (case (gf_step ^^ 8) (0, a, b) of (product, a, b) \<Rightarrow> product)"

text \<open>The \<open>while\<close> loop of \<open>gf_pow\<close>, on its three variables.\<close>

function gf_pow_loop :: "u8 \<Rightarrow> u8 \<Rightarrow> u32 \<Rightarrow> u8" where
  "gf_pow_loop result base exp =
    (if exp > 0 then
       gf_pow_loop (if exp AND 1 = 1 then gf_mul result base else result) (gf_mul base base) (drop_bit 1 exp)
     else result)"
  by pat_completeness auto
termination
proof (relation "measure (\<lambda>(result, base, exp). unat exp)")
  fix result base :: u8 and exp :: u32
  assume "exp > 0"
  then have "unat exp \<noteq> 0" by (simp add: unat_eq_0 word_neq_0_conv)
  then show "((if exp AND 1 = 1 then gf_mul result base else result, gf_mul base base, drop_bit 1 exp),
      result, base, exp) \<in> measure (\<lambda>(result, base, exp). unat exp)"
    by (simp add: drop_bit_eq_div unat_div)
qed simp

declare gf_pow_loop.simps [simp del]

definition gf_pow :: "u8 \<Rightarrow> u32 \<Rightarrow> u8" where
  "gf_pow base exp = gf_pow_loop 1 base exp"

definition gf_inv :: "u8 \<Rightarrow> u8" where
  "gf_inv a = gf_pow a 254"

definition eval_poly :: "bytes \<Rightarrow> u8 \<Rightarrow> u8" where
  "eval_poly coeffs x = fold (\<lambda>coeff acc. gf_mul acc x XOR coeff) (rev coeffs) 0"

section \<open>Splitting and combining\<close>

record Share =
  sh_x :: u8
  sh_y :: bytes

text \<open>The turn of the outer loop in \<open>split\<close> for the secret byte at \<open>byte_index\<close>.\<close>

definition split_byte :: "u8 \<Rightarrow> nat \<times> u8 \<Rightarrow> Share list \<times> rng \<Rightarrow> Share list \<times> rng" where
  "split_byte threshold = (\<lambda>(byte_index, secret_byte) (out, rng).
    let (random, rng) = fill_bytes (unat threshold - 1) rng;
        coeffs = secret_byte # random;
        out = map (\<lambda>share. share\<lparr>sh_y := (sh_y share)[byte_index := eval_poly coeffs (sh_x share)]\<rparr>) out
    in (out, rng))"

definition split :: "bytes \<Rightarrow> u8 \<Rightarrow> u8 \<Rightarrow> rng \<Rightarrow> (Share list \<times> rng, crypto_error) res" where
  "split secret threshold shares rng =
    (if secret = [] \<or> threshold < 2 \<or> shares < threshold then Err InvalidKeyLength
     else let out = map (\<lambda>x. \<lparr>sh_x = of_nat x, sh_y = replicate (length secret) 0\<rparr>) [1..<unat shares + 1]
          in Ok (fold (split_byte threshold) (enumerate 0 secret) (out, rng)))"

text \<open>The inner loop over \<open>j\<close> in \<open>combine\<close>: the Lagrange coefficient of share \<open>i\<close> at zero.\<close>

definition combine_coefficient :: "Share list \<Rightarrow> nat \<Rightarrow> Share \<Rightarrow> u8" where
  "combine_coefficient shares i share_i =
    fold (\<lambda>(j, share_j) coefficient.
      if i = j then coefficient
      else let numerator = sh_x share_j; denominator = sh_x share_j XOR sh_x share_i
           in gf_mul coefficient (gf_mul numerator (gf_inv denominator)))
      (enumerate 0 shares) 1"

definition combine :: "Share list \<Rightarrow> (bytes, crypto_error) res" where
  "combine shares =
    (if length shares < 2 then Err InvalidKeyLength
     else let len = length (sh_y (shares ! 0)) in
       if len = 0 \<or> list_ex (\<lambda>s. length (sh_y s) \<noteq> len \<or> sh_x s = 0) shares then Err InvalidKeyLength
       else Ok (fold (\<lambda>(i, share_i) secret.
           let coefficient = combine_coefficient shares i share_i
           in map2 (\<lambda>secret_byte value. secret_byte XOR gf_mul value coefficient) secret (sh_y share_i))
         (enumerate 0 shares) (replicate len 0)))"

section \<open>The byte operations form a field\<close>

definition xtime :: "u8 \<Rightarrow> u8" where
  "xtime a = push_bit 1 a XOR (if bit a 7 then 0x1B else 0)"

definition pick :: "bool \<Rightarrow> u8 \<Rightarrow> u8" where
  "pick p x = (if p then x else 0)"

lemma and_1_bit: "b AND 1 \<noteq> 0 \<longleftrightarrow> bit (b :: u8) 0"
  by (simp add: and_one_eq odd_iff_mod_2_eq_one bit_0)

lemma and_80_bit: "a AND 0x80 \<noteq> 0 \<longleftrightarrow> bit (a :: u8) 7"
  using and_exp_eq_0_iff_not_bit [of a 7] by simp

lemma gf_step_simp: "gf_step (p, a, b) = (p XOR pick (bit b 0) a, xtime a, drop_bit 1 b)"
  by (simp add: gf_step_def and_1_bit and_80_bit xtime_def pick_def)

lemma gf_mul_sum:
  "gf_mul a b = pick (bit b 0) a XOR pick (bit b 1) (xtime a) XOR pick (bit b 2) ((xtime ^^ 2) a)
    XOR pick (bit b 3) ((xtime ^^ 3) a) XOR pick (bit b 4) ((xtime ^^ 4) a) XOR pick (bit b 5) ((xtime ^^ 5) a)
    XOR pick (bit b 6) ((xtime ^^ 6) a) XOR pick (bit b 7) ((xtime ^^ 7) a)"
  by (simp add: gf_mul_def numeral_eq_Suc gf_step_simp bit_drop_bit_eq xor.assoc)

lemma xtime_xor: "xtime (a XOR b) = xtime a XOR xtime b"
  by (simp add: xtime_def push_bit_xor bit_xor_iff xor.assoc xor.left_commute)

lemma pick_xor: "pick p (x XOR y) = pick p x XOR pick p y"
  by (simp add: pick_def)

lemma pick_neq: "pick (p \<noteq> q) x = pick p x XOR pick q x"
  by (simp add: pick_def)

lemma xtime_0 [simp]: "xtime 0 = 0"
  by (simp add: xtime_def)

lemma xtime_pow_xor: "(xtime ^^ n) (a XOR b) = (xtime ^^ n) a XOR (xtime ^^ n) b"
  by (induction n) (simp_all add: xtime_xor)

lemmas xor_ac = xor.assoc xor.commute xor.left_commute

lemma gf_mul_xor_left: "gf_mul (a XOR b) c = gf_mul a c XOR gf_mul b c"
  unfolding gf_mul_sum xtime_pow_xor xtime_xor pick_xor by (simp only: xor_ac)

lemma gf_mul_xor_right: "gf_mul a (b XOR c) = gf_mul a b XOR gf_mul a c"
  unfolding gf_mul_sum bit_xor_iff pick_neq by (simp only: xor_ac)

definition additive :: "(u8 \<Rightarrow> u8) \<Rightarrow> bool" where
  "additive f \<longleftrightarrow> (\<forall>a b. f (a XOR b) = f a XOR f b)"

definition bit_part :: "u8 \<Rightarrow> nat \<Rightarrow> u8" where
  "bit_part x i = (if bit x i then 2 ^ i else 0)"

lemma bit_bit_part: "bit (bit_part x i) n \<longleftrightarrow> n = i \<and> bit x i"
  by (auto simp: bit_part_def bit_simps dest: bit_imp_le_length)

lemma u8_bits:
  "x = bit_part x 0 XOR bit_part x 1 XOR bit_part x 2 XOR bit_part x 3
    XOR bit_part x 4 XOR bit_part x 5 XOR bit_part x 6 XOR bit_part x 7"
proof (rule bit_word_eqI)
  fix n assume "n < LENGTH(8)"
  then have "n \<in> {0, 1, 2, 3, 4, 5, 6, 7}" by auto
  then show "bit x n \<longleftrightarrow> bit (bit_part x 0 XOR bit_part x 1 XOR bit_part x 2 XOR bit_part x 3
    XOR bit_part x 4 XOR bit_part x 5 XOR bit_part x 6 XOR bit_part x 7) n"
    unfolding bit_xor_iff bit_bit_part by (elim insertE emptyE) simp_all
qed

lemma additive_eqI:
  assumes "additive f" and "additive g" and "\<And>i. i < 8 \<Longrightarrow> f (2 ^ i) = g (2 ^ i)"
  shows "f x = g x"
proof -
  have "f 0 = 0" "g 0 = 0"
    using assms(1,2) unfolding additive_def by (metis xor_self_eq)+
  with assms(3) have "f (bit_part x i) = g (bit_part x i)" if "i < 8" for i
    using that by (simp add: bit_part_def)
  moreover have "f x = f (bit_part x 0) XOR f (bit_part x 1) XOR f (bit_part x 2) XOR f (bit_part x 3)
      XOR f (bit_part x 4) XOR f (bit_part x 5) XOR f (bit_part x 6) XOR f (bit_part x 7)"
    by (subst u8_bits) (use assms(1) in \<open>simp add: additive_def\<close>)
  moreover have "g x = g (bit_part x 0) XOR g (bit_part x 1) XOR g (bit_part x 2) XOR g (bit_part x 3)
      XOR g (bit_part x 4) XOR g (bit_part x 5) XOR g (bit_part x 6) XOR g (bit_part x 7)"
    by (subst u8_bits) (use assms(2) in \<open>simp add: additive_def\<close>)
  ultimately show ?thesis by simp
qed

lemma additive_gf_mul: "additive (gf_mul a)" "additive (\<lambda>a. gf_mul a b)"
  by (simp_all add: additive_def gf_mul_xor_left gf_mul_xor_right)

lemma u8_index_cases: "(i :: nat) < 8 \<Longrightarrow> i = 0 \<or> i = 1 \<or> i = 2 \<or> i = 3 \<or> i = 4 \<or> i = 5 \<or> i = 6 \<or> i = 7"
  by auto

lemma xtime_basis: "i < 8 \<Longrightarrow> (xtime ^^ i) 1 = 2 ^ i"
proof -
  assume "i < 8"
  moreover have "xtime 1 = 2" "xtime 2 = 4" "xtime 4 = 8" "xtime 8 = 16" "xtime 16 = 32"
    "xtime 32 = 64" "xtime 64 = 128" by code_simp+
  ultimately show ?thesis by (drule_tac u8_index_cases) (elim disjE; simp add: eval_nat_numeral)
qed

lemma gf_mul_basis: "i < 8 \<Longrightarrow> gf_mul a (2 ^ i) = (xtime ^^ i) a"
  unfolding gf_mul_sum bit_exp_iff by (drule u8_index_cases, elim disjE) (simp_all add: pick_def)

lemma gf_mul_xtime: "gf_mul ((xtime ^^ n) a) b = (xtime ^^ n) (gf_mul a b)"
proof (induction n)
  case (Suc n)
  have "gf_mul (xtime a) b = xtime (gf_mul a b)" for a
    unfolding gf_mul_sum by (simp add: funpow_swap1 xtime_xor pick_def)
  with Suc show ?case by simp
qed simp


lemma gf_mul_one_left [simp]: "gf_mul 1 b = b"
proof -
  have "gf_mul 1 (2 ^ i) = 2 ^ i" if "i < 8" for i
    using that by (simp add: gf_mul_basis xtime_basis)
  then show ?thesis
    using additive_eqI [of "gf_mul 1" id b] additive_gf_mul by (simp add: additive_def)
qed

lemma gf_mul_commute: "gf_mul a b = gf_mul b a"
proof (rule additive_eqI [where f = "gf_mul a" and g = "\<lambda>b. gf_mul b a"])
  fix i :: nat assume "i < 8"
  then show "gf_mul a (2 ^ i) = gf_mul (2 ^ i) a"
    using gf_mul_xtime [of i 1 a] by (simp add: gf_mul_basis xtime_basis)
qed (rule additive_gf_mul)+

lemma gf_mul_assoc: "gf_mul (gf_mul a b) c = gf_mul a (gf_mul b c)"
proof (rule additive_eqI [where f = "gf_mul (gf_mul a b)" and g = "\<lambda>c. gf_mul a (gf_mul b c)"])
  show "additive (\<lambda>c. gf_mul a (gf_mul b c))" by (simp add: additive_def gf_mul_xor_right)
  fix i :: nat assume "i < 8"
  then show "gf_mul (gf_mul a b) (2 ^ i) = gf_mul a (gf_mul b (2 ^ i))"
    using gf_mul_xtime [of i b a] by (simp add: gf_mul_basis gf_mul_commute [of a])
qed (rule additive_gf_mul)

lemma gf_inv_chain:
  "gf_inv a = (let a2 = gf_mul a a; a4 = gf_mul a2 a2; a8 = gf_mul a4 a4; a16 = gf_mul a8 a8;
      a32 = gf_mul a16 a16; a64 = gf_mul a32 a32; a128 = gf_mul a64 a64
    in gf_mul (gf_mul (gf_mul (gf_mul (gf_mul (gf_mul a2 a4) a8) a16) a32) a64) a128)"
  unfolding gf_inv_def gf_pow_def Let_def
  by (simp add: gf_pow_loop.simps)


text \<open>Linear maps on bytes, given by the images of the eight powers of two.\<close>

fun linmap :: "u8 list \<Rightarrow> nat \<Rightarrow> u8 \<Rightarrow> u8" where
  "linmap [] i x = 0"
| "linmap (v # vs) i x = pick (bit x i) v XOR linmap vs (Suc i) x"

lemma additive_linmap: "additive (linmap vs i)"
  unfolding additive_def
proof (intro allI, induction vs arbitrary: i)
  case (Cons v vs)
  then show ?case by (simp only: linmap.simps bit_xor_iff pick_neq) (simp only: xor_ac)
qed simp

lemma additive_basis_eqI:
  assumes "additive f" and "additive g" and "list_all (\<lambda>b. f b = g b) [1, 2, 4, 8, 16, 32, 64, 128]"
  shows "f x = g x"
proof (rule additive_eqI [OF assms(1,2)])
  fix i :: nat assume "i < 8"
  with assms(3) show "f (2 ^ i) = g (2 ^ i)" by (drule_tac u8_index_cases) (elim disjE; simp)
qed

abbreviation frob :: "u8 \<Rightarrow> u8" where
  "frob \<equiv> linmap [1, 4, 16, 64, 27, 108, 171, 154] 0"

lemma additive_square: "additive (\<lambda>x. gf_mul x x)"
  by (simp add: additive_def gf_mul_xor_left gf_mul_xor_right gf_mul_commute xor_ac)

lemma square_frob: "gf_mul x x = frob x"
  by (rule additive_basis_eqI [OF additive_square additive_linmap]) code_simp

lemma additive_comp: "additive f \<Longrightarrow> additive g \<Longrightarrow> additive (\<lambda>x. f (g x))"
  by (simp add: additive_def)

lemma additive_add: "additive f \<Longrightarrow> additive g \<Longrightarrow> additive (\<lambda>x. f x XOR g x)"
  by (simp add: additive_def xor_ac)

lemma additive_id: "additive (\<lambda>x. x)"
  by (simp add: additive_def)

lemma frob_2: "frob (frob x) = linmap [1, 16, 27, 171, 94, 151, 179, 197] 0 x"
proof (rule additive_basis_eqI [where f = "\<lambda>x. frob (frob x)" and g = "\<lambda>x. linmap [1, 16, 27, 171, 94, 151, 179, 197] 0 x"])
  show "additive (\<lambda>x. frob (frob x))" by (rule additive_comp [OF additive_linmap additive_linmap])
  show "additive (\<lambda>x. linmap [1, 16, 27, 171, 94, 151, 179, 197] 0 x)" by (intro additive_linmap additive_id)
qed code_simp

lemma frob_4: "linmap [1, 16, 27, 171, 94, 151, 179, 197] 0 (linmap [1, 16, 27, 171, 94, 151, 179, 197] 0 x) = linmap [1, 94, 228, 232, 77, 145, 29, 108] 0 x"
proof (rule additive_basis_eqI [where f = "\<lambda>x. linmap [1, 16, 27, 171, 94, 151, 179, 197] 0 (linmap [1, 16, 27, 171, 94, 151, 179, 197] 0 x)" and g = "\<lambda>x. linmap [1, 94, 228, 232, 77, 145, 29, 108] 0 x"])
  show "additive (\<lambda>x. linmap [1, 16, 27, 171, 94, 151, 179, 197] 0 (linmap [1, 16, 27, 171, 94, 151, 179, 197] 0 x))" by (rule additive_comp [OF additive_linmap additive_linmap])
  show "additive (\<lambda>x. linmap [1, 94, 228, 232, 77, 145, 29, 108] 0 x)" by (intro additive_linmap additive_id)
qed code_simp

lemma frob_8: "linmap [1, 94, 228, 232, 77, 145, 29, 108] 0 (linmap [1, 94, 228, 232, 77, 145, 29, 108] 0 x) = x"
proof (rule additive_basis_eqI [where f = "\<lambda>x. linmap [1, 94, 228, 232, 77, 145, 29, 108] 0 (linmap [1, 94, 228, 232, 77, 145, 29, 108] 0 x)" and g = "\<lambda>x. x"])
  show "additive (\<lambda>x. linmap [1, 94, 228, 232, 77, 145, 29, 108] 0 (linmap [1, 94, 228, 232, 77, 145, 29, 108] 0 x))" by (rule additive_comp [OF additive_linmap additive_linmap])
  show "additive (\<lambda>x. x)" by (intro additive_linmap additive_id)
qed code_simp

lemma frob_order: "frob (frob (frob (frob (frob (frob (frob (frob x))))))) = x"
  by (simp only: frob_2 frob_4 frob_8)

lemma idempotent_cases:
  assumes "gf_mul e e = e"
  shows "e = 0 \<or> e = 1"
proof -
  let ?h = "linmap [188, 42, 40, 134, 44, 0, 142, 222] 0"
  have "?h (frob e XOR e) = e XOR linmap [1] 0 e"
  proof (rule additive_basis_eqI [where f = "\<lambda>e. ?h (frob e XOR e)" and g = "\<lambda>e. e XOR linmap [1] 0 e"])
    show "additive (\<lambda>e. ?h (frob e XOR e))"
      by (rule additive_comp [OF additive_linmap additive_add [OF additive_linmap additive_id]])
    show "additive (\<lambda>e. e XOR linmap [1] 0 e)"
      by (rule additive_add [OF additive_id additive_linmap])
  qed code_simp
  moreover have "frob e XOR e = 0" using assms by (simp only: square_frob xor_self_eq)
  moreover have "?h 0 = 0" by code_simp
  ultimately have "e XOR linmap [1] 0 e = 0" by (simp only:)
  moreover have "e = (e XOR linmap [1] 0 e) XOR linmap [1] 0 e" by (simp only: xor.assoc xor_self_eq xor.right_neutral)
  ultimately have "e = linmap [1] 0 e" by simp
  then show ?thesis by (auto simp: pick_def split: if_splits)
qed


lemma square_left: "gf_mul x (gf_mul x y) = gf_mul (frob x) y"
  by (simp only: gf_mul_assoc [symmetric] square_frob)

lemma gf_inv_frob:
  "gf_inv a = gf_mul (frob a) (gf_mul (frob (frob a)) (gf_mul (frob (frob (frob a))) (gf_mul (frob (frob (frob (frob a)))) (gf_mul (frob (frob (frob (frob (frob a))))) (gf_mul (frob (frob (frob (frob (frob (frob a)))))) (frob (frob (frob (frob (frob (frob (frob a))))))))))))"
  by (simp only: gf_inv_chain Let_def square_frob gf_mul_assoc)

lemma gf_mul_inv:
  assumes "a \<noteq> 0"
  shows "gf_mul (gf_inv a) a = 1"
proof -
  let ?e = "gf_mul a (gf_inv a)"
  have ae: "gf_mul a ?e = a"
    by (simp only: gf_inv_frob square_left square_frob frob_order)
  have "gf_mul ?e ?e = gf_mul (gf_inv a) (gf_mul a ?e)"
    by (simp only: gf_mul_commute [of a "gf_inv a"] gf_mul_assoc)
  also have "\<dots> = ?e" by (simp only: ae gf_mul_commute)
  finally have "?e = 0 \<or> ?e = 1" by (rule idempotent_cases)
  moreover have "gf_mul a 0 = 0" using gf_mul_xor_right [of a 0 0] by simp
  ultimately show ?thesis using ae assms by (auto simp: gf_mul_commute)
qed

typedef gf256 = "UNIV :: u8 set"
  morphisms byte gf by simp

setup_lifting type_definition_gf256

instantiation gf256 :: field
begin

lift_definition zero_gf256 :: gf256 is "0 :: u8" .
lift_definition one_gf256 :: gf256 is "1 :: u8" .
lift_definition plus_gf256 :: "gf256 \<Rightarrow> gf256 \<Rightarrow> gf256" is "(XOR)" .
lift_definition minus_gf256 :: "gf256 \<Rightarrow> gf256 \<Rightarrow> gf256" is "(XOR)" .
lift_definition uminus_gf256 :: "gf256 \<Rightarrow> gf256" is "\<lambda>a. a" .
lift_definition times_gf256 :: "gf256 \<Rightarrow> gf256 \<Rightarrow> gf256" is gf_mul .
lift_definition inverse_gf256 :: "gf256 \<Rightarrow> gf256" is gf_inv .
lift_definition divide_gf256 :: "gf256 \<Rightarrow> gf256 \<Rightarrow> gf256" is "\<lambda>a b. gf_mul a (gf_inv b)" .

instance
proof
  have zero: "gf_mul 0 b = 0" for b using gf_mul_xor_left [of 0 0 b] by simp
  fix a b c :: gf256
  show "a + b + c = a + (b + c)" by transfer (rule xor.assoc)
  show "a + b = b + a" by transfer (rule xor.commute)
  show "0 + a = a" by transfer simp
  show "- a + a = 0" by transfer simp
  show "a - b = a + - b" by transfer simp
  show "a * b * c = a * (b * c)" by transfer (rule gf_mul_assoc)
  show "a * b = b * a" by transfer (rule gf_mul_commute)
  show "1 * a = a" by transfer simp
  show "(a + b) * c = a * c + b * c" by transfer (rule gf_mul_xor_left)
  show "(0 :: gf256) \<noteq> 1" by transfer simp
  show "a \<noteq> 0 \<Longrightarrow> inverse a * a = 1" by transfer (rule gf_mul_inv)
  show "a div b = a * inverse b" by transfer simp
  show "inverse (0 :: gf256) = 0" by transfer (simp only: gf_inv_frob linmap.simps pick_def zero bit_0_eq bot_apply bot_bool_def if_False xor_self_eq)
qed

end

section \<open>Bytes as field elements\<close>

lemma gf_inject [simp]: "gf a = gf b \<longleftrightarrow> a = b"
  by (simp add: gf_inject)

lemma gf_ops:
  "gf 0 = 0" "gf 1 = 1" "gf (a XOR b) = gf a + gf b" "gf (gf_mul a b) = gf a * gf b"
  "gf (gf_inv a) = inverse (gf a)"
  by (simp_all add: zero_gf256_def one_gf256_def plus_gf256.abs_eq times_gf256.abs_eq inverse_gf256.abs_eq)

lemma gf_char_2: "- a = (a :: gf256)" "a - b = a + (b :: gf256)"
  by (transfer, simp)+

lemma gf_double [simp]: "a + a = (0 :: gf256)"
  by transfer simp

lemma inj_gf: "inj gf"
  by (simp add: inj_def)

lemma eval_poly_horner: "gf (eval_poly coeffs x) = horner (map gf coeffs) (gf x)"
proof (induction coeffs)
  case (Cons c coeffs)
  have "eval_poly (c # coeffs) x = gf_mul (eval_poly coeffs x) x XOR c" by (simp add: eval_poly_def)
  then show ?case by (simp add: Cons gf_ops add.commute mult.commute)
qed (simp add: eval_poly_def gf_ops)

lemma linear_solution: "p \<noteq> 0 \<Longrightarrow> a + p * h = v \<longleftrightarrow> h = (v - a) / (p :: 'a::field)"
  by (auto simp: field_simps)

section \<open>What the loops compute\<close>

lemma combine_coefficient_prod:
  "gf (combine_coefficient shares i s) =
    (\<Prod>j \<in> {0..<length shares} - {i}.
      gf (sh_x (shares ! j)) * inverse (gf (sh_x (shares ! j)) + gf (sh_x s)))"
proof -
  let ?t = "\<lambda>j share. gf (sh_x share) * inverse (gf (sh_x share) + gf (sh_x s))"
  let ?F = "\<lambda>(j, share_j) coefficient. if i = j then coefficient
      else let numerator = sh_x share_j; denominator = sh_x share_j XOR sh_x s
           in gf_mul coefficient (gf_mul numerator (gf_inv denominator))"
  have fold: "gf (fold ?F xs c) = gf c * (\<Prod>(j, share) \<leftarrow> xs. if i = j then 1 else ?t j share)" for xs c
  proof (induction xs arbitrary: c)
    case (Cons p xs)
    then show ?case by (cases p) (simp add: gf_ops Let_def)
  qed simp
  have "gf (combine_coefficient shares i s)
      = (\<Prod>(j, share) \<leftarrow> enumerate 0 shares. if i = j then 1 else ?t j share)"
    by (simp only: combine_coefficient_def fold gf_ops mult_1_left)
  also have "\<dots> = (\<Prod>j = 0..<length shares. if i = j then 1 else ?t j (shares ! j))"
    by (simp add: prod.list_conv_set_nth nth_enumerate_eq)
  also have "\<dots> = (\<Prod>j \<in> {0..<length shares} - {i}. ?t j (shares ! j))"
    by (rule prod.mono_neutral_cong_right) auto
  finally show ?thesis .
qed

lemma combine_fold_nth:
  assumes "\<forall>(i, s) \<in> set xs. length (sh_y s) = length secret" and "b < length secret"
  shows "gf (fold (\<lambda>(i, s) secret. let coefficient = K i s
      in map2 (\<lambda>secret_byte value. secret_byte XOR gf_mul value coefficient) secret (sh_y s)) xs secret ! b)
    = gf (secret ! b) + (\<Sum>(i, s) \<leftarrow> xs. gf (sh_y s ! b) * gf (K i s))"
  using assms
proof (induction xs arbitrary: secret)
  case (Cons p xs)
  obtain i s where p: "p = (i, s)" by (cases p)
  let ?m = "map2 (\<lambda>secret_byte value. secret_byte XOR gf_mul value (K i s)) secret (sh_y s)"
  have "length ?m = length secret" using Cons.prems p by simp
  with Cons.IH [of ?m] Cons.prems p show ?case by (simp add: gf_ops add.assoc)
qed simp

lemma combine_fold_length:
  "\<forall>(i, s) \<in> set xs. length (sh_y s) = length secret \<Longrightarrow>
    length (fold (\<lambda>(i, s) secret. let coefficient = K i s
      in map2 (\<lambda>secret_byte value. secret_byte XOR gf_mul value coefficient) secret (sh_y s)) xs secret)
    = length secret"
  by (induction xs arbitrary: secret) (auto simp: Let_def split: prod.splits)

lemma set_enumerate_snd: "(i, s) \<in> set (enumerate n xs) \<Longrightarrow> s \<in> set xs"
  by (auto simp: enumerate_eq_zip dest: set_zip_rightD)

text \<open>
  If every share lies on one polynomial with at most as many coefficients as there are
  shares, and the evaluation points differ, the combined byte is its constant term.
\<close>

lemma combine_sum:
  assumes "distinct (map sh_x shares)" and "length coeffs \<le> length shares"
    and "\<And>s. s \<in> set shares \<Longrightarrow> f s = eval_poly coeffs (sh_x s)"
  shows "(\<Sum>(i, s) \<leftarrow> enumerate 0 shares. gf (f s) * gf (combine_coefficient shares i s))
    = gf (eval_poly coeffs 0)"
proof -
  let ?n = "length shares" and ?X = "\<lambda>i. gf (sh_x (shares ! i))"
  let ?S = "?X ` {0..<?n}"
  have inj: "inj_on ?X {0..<?n}"
    using assms(1) by (force simp: inj_on_def distinct_conv_nth)
  have coeff: "gf (combine_coefficient shares i (shares ! i)) = lagrange ?S (?X i) 0" if "i < ?n" for i
  proof -
    have "?S - {?X i} = ?X ` ({0..<?n} - {i})"
      using inj that by (auto simp: inj_on_def)
    moreover have "inj_on ?X ({0..<?n} - {i})" using inj by (rule inj_on_subset) blast
    ultimately show ?thesis
      by (simp add: lagrange_def combine_coefficient_prod prod.reindex divide_inverse gf_char_2 add.commute)
  qed
  have "(\<Sum>(i, s) \<leftarrow> enumerate 0 shares. gf (f s) * gf (combine_coefficient shares i s))
      = (\<Sum>i = 0..<?n. gf (f (shares ! i)) * gf (combine_coefficient shares i (shares ! i)))"
    by (simp add: sum_list_sum_nth nth_enumerate_eq)
  also have "\<dots> = (\<Sum>i = 0..<?n. horner (map gf coeffs) (?X i) * lagrange ?S (?X i) 0)"
    by (rule sum.cong) (simp_all add: coeff assms(3) eval_poly_horner)
  also have "\<dots> = interpolate ?S (horner (map gf coeffs)) 0"
    using inj by (simp add: interpolate_def sum.reindex)
  also have "\<dots> = horner (map gf coeffs) 0"
    using assms(2) inj by (intro interpolation) (simp_all add: card_image)
  finally show ?thesis by (simp add: eval_poly_horner gf_ops)
qed

lemma eval_poly_at_0: "eval_poly (c # coeffs) 0 = c"
  using eval_poly_horner [of "c # coeffs" 0] by (simp add: gf_ops)

lemma combine_polynomials:
  assumes "2 \<le> length shares" and "distinct (map sh_x shares)"
    and "secret \<noteq> []"
    and "\<And>s. s \<in> set shares \<Longrightarrow> sh_x s \<noteq> 0 \<and> length (sh_y s) = length secret"
    and "\<And>b. b < length secret \<Longrightarrow> length (random b) < length shares"
    and "\<And>s b. s \<in> set shares \<Longrightarrow> b < length secret \<Longrightarrow>
      sh_y s ! b = eval_poly (secret ! b # random b) (sh_x s)"
  shows "combine shares = Ok secret"
proof -
  let ?F = "\<lambda>(i, share_i) sec. let coefficient = combine_coefficient shares i share_i
    in map2 (\<lambda>secret_byte value. secret_byte XOR gf_mul value coefficient) sec (sh_y share_i)"
  let ?out = "fold ?F (enumerate 0 shares) (replicate (length secret) 0)"
  have "shares ! 0 \<in> set shares" using assms(1) by (intro nth_mem) linarith
  then have "length (sh_y (shares ! 0)) = length secret" using assms(4) by blast
  moreover have "\<not> list_ex (\<lambda>s. length (sh_y s) \<noteq> length secret \<or> sh_x s = 0) shares"
    using assms(4) by (auto simp: list_ex_iff)
  ultimately have c: "combine shares = Ok ?out"
    using assms(1,3) by (simp add: combine_def Let_def)
  have len: "\<forall>(i, s) \<in> set (enumerate 0 shares). length (sh_y s) = length (replicate (length secret) (0 :: u8))"
    using assms(4) by (auto dest: set_enumerate_snd)
  have "?out = secret"
  proof (rule nth_equalityI)
    show "length ?out = length secret" using combine_fold_length [OF len] by simp
    fix b assume "b < length ?out"
    then have b: "b < length secret" using combine_fold_length [OF len] by simp
    have "gf (?out ! b) = (\<Sum>(i, s) \<leftarrow> enumerate 0 shares. gf (sh_y s ! b) * gf (combine_coefficient shares i s))"
      using combine_fold_nth [OF len, of b] b by (simp add: gf_ops)
    also have "\<dots> = gf (secret ! b)"
      using combine_sum [OF assms(2), of "secret ! b # random b" "\<lambda>s. sh_y s ! b"] assms(5,6) b
      by (simp add: eval_poly_at_0 Suc_le_eq)
    finally show "?out ! b = secret ! b" by simp
  qed
  with c show ?thesis by simp
qed

text \<open>The invariant of the loop over the secret's bytes in \<open>split\<close>.\<close>

definition shares_for :: "u8 \<Rightarrow> bytes \<Rightarrow> (nat \<Rightarrow> bytes) \<Rightarrow> nat \<Rightarrow> Share list \<Rightarrow> bool" where
  "shares_for threshold secret random done out \<longleftrightarrow>
    (\<forall>s \<in> set out. length (sh_y s) = length secret \<and>
      (\<forall>b < done. sh_y s ! b = eval_poly (secret ! b # random b) (sh_x s)))
    \<and> (\<forall>b < done. length (random b) = unat threshold - 1)"

lemma split_byte_step:
  assumes "shares_for threshold secret random k out" and "k < length secret"
    and "split_byte threshold (k, secret ! k) (out, rng) = (out', rng')"
  shows "shares_for threshold secret (random(k := fst (fill_bytes (unat threshold - 1) rng))) (Suc k) out'
    \<and> map sh_x out' = map sh_x out"
  using assms by (auto simp: shares_for_def split_byte_def case_prod_beta Let_def less_Suc_eq nth_list_update)

lemma split_fold:
  "shares_for threshold secret random k out \<Longrightarrow> k + length rest = length secret \<Longrightarrow> rest = drop k secret \<Longrightarrow>
    fold (split_byte threshold) (enumerate k rest) (out, rng) = (out', rng') \<Longrightarrow>
    \<exists>random'. shares_for threshold secret random' (length secret) out' \<and> map sh_x out' = map sh_x out"
proof (induction rest arbitrary: k out random rng)
  case (Cons c rest)
  obtain out1 rng1 where step: "split_byte threshold (k, secret ! k) (out, rng) = (out1, rng1)" by fastforce
  have c: "c = secret ! k" "rest = drop (Suc k) secret" "k < length secret"
  proof -
    show k: "k < length secret" using Cons.prems(2) by simp
    from Cons.prems(3) Cons_nth_drop_Suc [OF k] show "c = secret ! k" "rest = drop (Suc k) secret"
      by (metis list.inject)+
  qed
  note inv = split_byte_step [OF Cons.prems(1) c(3) step]
  have "fold (split_byte threshold) (enumerate (Suc k) rest) (out1, rng1) = (out', rng')"
    using Cons.prems(4) step c(1) by simp
  with Cons.IH [of _ "Suc k" out1 rng1] inv Cons.prems(2) c(2) show ?case by auto
qed auto

lemma split_Ok:
  assumes "split secret threshold shares rng = Ok (out, rng')"
  obtains random where "shares_for threshold secret random (length secret) out"
    and "map sh_x out = map of_nat [1..<unat shares + 1]"
    and "secret \<noteq> []" and "2 \<le> threshold" and "threshold \<le> shares"
proof -
  let ?out = "map (\<lambda>x. \<lparr>sh_x = of_nat x, sh_y = replicate (length secret) 0\<rparr>) [1..<unat shares + 1] :: Share list"
  have g: "secret \<noteq> []" "2 \<le> threshold" "threshold \<le> shares"
    and f: "fold (split_byte threshold) (enumerate 0 secret) (?out, rng) = (out, rng')"
    using assms by (auto simp: split_def not_less Let_def split: if_splits)
  have "shares_for threshold secret (\<lambda>_. []) 0 ?out" by (simp add: shares_for_def)
  from split_fold [OF this _ _ f] obtain random where
    "shares_for threshold secret random (length secret) out" "map sh_x out = map sh_x ?out" by auto
  with g show ?thesis by (intro that) (simp_all add: comp_def)
qed

lemma split_points:
  assumes "map sh_x out = map of_nat [1..<unat (n :: u8) + 1]"
  shows "inj_on sh_x (set out)" and "\<forall>s \<in> set out. sh_x s \<noteq> 0" and "length out = unat n" and "distinct out"
proof -
  have small: "unat (of_nat k :: u8) = k" if "k \<in> set [1..<unat n + 1]" for k
    using that unat_bound [of n] by (auto simp: unat_of_nat)
  have "inj_on (of_nat :: nat \<Rightarrow> u8) (set [1..<unat n + 1])"
    by (rule inj_onI) (metis small)
  then have "distinct (map sh_x out)" unfolding assms by (simp add: distinct_map del: upt_Suc)
  then show "inj_on sh_x (set out)" and "distinct out" by (simp_all add: distinct_map)
  have "sh_x s \<in> of_nat ` set [1..<unat n + 1]" if "s \<in> set out" for s
    using that assms by (metis imageI list.set_map)
  then show "\<forall>s \<in> set out. sh_x s \<noteq> 0" using small by fastforce
  show "length out = unat n" using arg_cong [OF assms, of length] by simp
qed

lemma split_share_count: "split secret threshold shares rng = Ok (out, rng') \<Longrightarrow> length out = unat shares"
  using split_Ok split_points(3) by metis

lemma split_distinct: "split secret threshold shares rng = Ok (out, rng') \<Longrightarrow> distinct out"
  using split_Ok split_points(4) by metis

lemma shares_combine:
  assumes "split secret threshold shares rng = Ok (out, rng')"
    and "distinct sel" and "set sel \<subseteq> set out" and "unat threshold \<le> length sel"
  shows "combine sel = Ok secret"
proof -
  obtain random where inv: "shares_for threshold secret random (length secret) out"
    and points: "map sh_x out = map of_nat [1..<unat shares + 1]"
    and ne: "secret \<noteq> []" and t: "2 \<le> threshold"
    using split_Ok [OF assms(1)] by metis
  note p = split_points [OF points]
  have t2: "2 \<le> unat threshold" using t by (simp add: word_le_nat_alt)
  show ?thesis
  proof (rule combine_polynomials [where random = random])
    show "2 \<le> length sel" using t2 assms(4) by simp
    show "distinct (map sh_x sel)" using assms(2,3) p(1) by (auto simp: distinct_map intro: inj_on_subset)
    show "length (random b) < length sel" if "b < length secret" for b
      using inv that t2 assms(4) by (simp add: shares_for_def)
    show "sh_x s \<noteq> 0 \<and> length (sh_y s) = length secret" if "s \<in> set sel" for s
      using that assms(3) p(2) inv by (auto simp: shares_for_def)
    show "sh_y s ! b = eval_poly (secret ! b # random b) (sh_x s)" if "s \<in> set sel" "b < length secret" for s b
      using that assms(3) inv by (auto simp: shares_for_def)
  qed (rule ne)
qed

section \<open>Properties\<close>

text \<open>
  C15. Reconstruction. Splitting a non-empty secret with a threshold of at least two and no more
  than the number of shares succeeds for every random stream and gives one share per
  point \<open>1, 2, \<dots>, n\<close>; any selection of at least \<open>threshold\<close> different shares, in any
  order, combines to the secret. Every other parameter choice is refused.
\<close>

theorem shamir_reconstructs:
  "if secret \<noteq> [] \<and> 2 \<le> threshold \<and> threshold \<le> shares then
     \<exists>out rng'. split secret threshold shares rng = Ok (out, rng') \<and> length out = unat shares \<and>
       (\<forall>selection. distinct selection \<and> set selection \<subseteq> set out \<and> unat threshold \<le> length selection
          \<longrightarrow> combine selection = Ok secret)
   else split secret threshold shares rng = Err InvalidKeyLength"
proof (cases "secret \<noteq> [] \<and> 2 \<le> threshold \<and> threshold \<le> shares")
  case True
  then obtain out rng' where split: "split secret threshold shares rng = Ok (out, rng')"
    by (fastforce simp: split_def not_less Let_def)
  with True split_share_count [OF split] shares_combine [OF split] show ?thesis by auto
qed (auto simp: split_def not_le)

theorem shamir_reconstructs_witness:
  "\<exists>out rng'. split [42, 7] 2 3 (\<lambda>i. of_nat i) = Ok (out, rng') \<and> length out = 3
     \<and> combine [out ! 2, out ! 0] = Ok [42, 7]"
proof -
  from shamir_reconstructs [of "[42, 7]" 2 3 "\<lambda>i. of_nat i"] obtain out rng' where
    split: "split [42, 7] 2 3 (\<lambda>i. of_nat i) = Ok (out, rng')" and len: "length out = 3"
    and all: "\<forall>selection. distinct selection \<and> set selection \<subseteq> set out \<and> 2 \<le> length selection
      \<longrightarrow> combine selection = Ok [42, 7]" by auto
  obtain random where "map sh_x out = map of_nat [1..<unat (3 :: u8) + 1]"
    using split_Ok [OF split] by metis
  then have "map sh_x out = [1, 2, 3]" by (simp add: upt_rec)
  then obtain a b c where out: "out = [a, b, c]" and "sh_x a = 1" "sh_x c = 3"
    by (auto simp: map_eq_Cons_conv)
  then have "c \<noteq> a" by auto
  with all out have "combine [out ! 2, out ! 0] = Ok [42, 7]" by simp
  with split len show ?thesis by blast
qed



text \<open>
  Repeated shares are not noticed. Two copies of one share pass every check of \<open>combine\<close>,
  which answers with a string of zero bytes instead of an error.
\<close>

lemma combine_duplicate_share:
  assumes "sh_x s \<noteq> 0" and "sh_y s \<noteq> []"
  shows "combine [s, s] = Ok (replicate (length (sh_y s)) 0)"
proof -
  have "gf (combine_coefficient [s, s] 0 s) = 0"
    unfolding combine_coefficient_prod by (intro prod_zero bexI [of _ 1]) simp_all
  moreover have "gf (combine_coefficient [s, s] (Suc 0) s) = 0"
    unfolding combine_coefficient_prod by (intro prod_zero bexI [of _ 0]) simp_all
  ultimately have c: "combine_coefficient [s, s] 0 s = 0" "combine_coefficient [s, s] (Suc 0) s = 0"
    by (metis gf_inject gf_ops(1))+
  have m0: "gf_mul v 0 = 0" for v using gf_mul_xor_right [of v 0 0] by simp
  have z: "map2 (\<lambda>a v. a) as bs = as" if "length as = length bs" for as bs :: bytes
    using that by (induction as bs rule: list_induct2) simp_all
  show ?thesis using assms by (simp add: combine_def c m0 z)
qed

lemma combine_duplicate_share_witness:
  "combine [\<lparr>sh_x = 1, sh_y = [9, 9]\<rparr>, \<lparr>sh_x = 1, sh_y = [9, 9]\<rparr>] = Ok [0, 0]"
  using combine_duplicate_share [of "\<lparr>sh_x = 1, sh_y = [9, 9]\<rparr>"] by (simp add: numeral_2_eq_2)

end
