(* ===== verification/Hybrid.thy ===== *)
theory Hybrid
  imports Crypto
begin

text \<open>
  The post-quantum halves of the crate \<open>crypto\<close>: \<open>hybrid.rs\<close> (X25519 and ML-KEM-768 mixed into
  one wrapping key) and \<open>hybrid_sig.rs\<close> (Ed25519 and ML-DSA-65 signatures side by side).
  A decapsulation key is its 64-byte seed, an ML-DSA signing key its 32-byte seed; key
  generation and encapsulation take their randomness from the stream.
\<close>

section \<open>Hybrid sealing (hybrid.rs)\<close>

definition HYBRID_CONTEXT :: bytes where "HYBRID_CONTEXT = str_bytes ''keepstone/v1/hybrid-seal''"

record HybridKeypair =
  hk_x25519 :: bytes
  hk_kem :: bytes
  hk_kem_public :: bytes

record HybridPublic =
  hp_x25519 :: bytes
  hp_kem :: bytes

record HybridSealed =
  ephemeral_x25519 :: bytes
  kem_ciphertext :: bytes
  hs_nonce :: bytes
  hs_ciphertext :: bytes

definition mix :: "crypto \<Rightarrow> bytes \<Rightarrow> bytes \<Rightarrow> (bytes, crypto_error) res" where
  "mix C shared kem_shared =
    (let ikm = shared @ kem_shared in derive_key32 C ikm HYBRID_CONTEXT INFO_SEAL_KEY)"

definition HybridKeypair_generate :: "crypto \<Rightarrow> rng \<Rightarrow> HybridKeypair \<times> rng" where
  "HybridKeypair_generate C rng =
    (let (kem, rng) = fill_bytes 64 rng;
         kem_public = mlkem_public C kem;
         (x, rng) = fill_bytes 32 rng
     in (\<lparr>hk_x25519 = x, hk_kem = kem, hk_kem_public = kem_public\<rparr>, rng))"

definition HybridKeypair_public :: "crypto \<Rightarrow> HybridKeypair \<Rightarrow> HybridPublic" where
  "HybridKeypair_public C k = \<lparr>hp_x25519 = x25519_public C (hk_x25519 k), hp_kem = hk_kem_public k\<rparr>"

definition HybridKeypair_to_secret_bytes :: "HybridKeypair \<Rightarrow> bytes" where
  "HybridKeypair_to_secret_bytes k = hk_x25519 k @ hk_kem k"

definition HybridKeypair_from_secret_bytes :: "crypto \<Rightarrow> bytes \<Rightarrow> (HybridKeypair, crypto_error) res" where
  "HybridKeypair_from_secret_bytes C bs =
    (if length (take 32 bs) \<noteq> 32 then Err InvalidKeyLength
     else let x = take 32 bs; kem = drop 32 bs in
       if \<not> mlkem_seed_ok C kem then Err InvalidKeyLength
       else let kem_public = mlkem_public C kem in
         Ok \<lparr>hk_x25519 = x, hk_kem = kem, hk_kem_public = kem_public\<rparr>)"

definition HybridKeypair_open :: "crypto \<Rightarrow> HybridKeypair \<Rightarrow> HybridSealed \<Rightarrow> (bytes, crypto_error) res" where
  "HybridKeypair_open C k sealed =
    (let shared = x25519_dh C (hk_x25519 k) (ephemeral_x25519 sealed) in
     and_then (ok_or Decrypt (mlkem_decapsulate C (hk_kem k) (kem_ciphertext sealed))) (\<lambda>kem_shared.
     and_then (mix C shared kem_shared) (\<lambda>key.
     and_then (aead_open C key (hs_nonce sealed) HYBRID_CONTEXT (hs_ciphertext sealed)) (\<lambda>plaintext.
     if length plaintext \<noteq> KEY_LEN then Err InvalidKeyLength else Ok plaintext))))"

definition hybrid_seal ::
    "crypto \<Rightarrow> bytes \<Rightarrow> HybridPublic \<Rightarrow> rng \<Rightarrow> (HybridSealed \<times> rng, crypto_error) res" where
  "hybrid_seal C content_key recipient rng =
    (let (ephemeral, rng) = fill_bytes 32 rng;
         ephemeral_public = x25519_public C ephemeral;
         shared = x25519_dh C ephemeral (hp_x25519 recipient)
     in if \<not> mlkem_key_ok C (hp_kem recipient) then Err InvalidPublicKey
        else let (m, rng) = fill_bytes 32 rng;
                 (kem_ciphertext, kem_shared) = mlkem_encapsulate C (hp_kem recipient) m
             in and_then (mix C shared kem_shared) (\<lambda>key.
                let (nonce, rng) = fill_bytes NONCE_LEN rng in
                and_then (aead_seal C key nonce HYBRID_CONTEXT content_key) (\<lambda>ciphertext.
                Ok (\<lparr>ephemeral_x25519 = ephemeral_public, kem_ciphertext = kem_ciphertext,
                     hs_nonce = nonce, hs_ciphertext = ciphertext\<rparr>, rng))))"

text \<open>A keypair as \<open>generate\<close> and \<open>from_secret_bytes\<close> build it.\<close>

definition hybrid_wf :: "crypto \<Rightarrow> HybridKeypair \<Rightarrow> bool" where
  "hybrid_wf C k \<longleftrightarrow> length (hk_x25519 k) = 32 \<and> length (hk_kem k) = 64
     \<and> hk_kem_public k = mlkem_public C (hk_kem k)"

section \<open>Hybrid signatures (hybrid\_sig.rs)\<close>

definition ML_DSA_65_VK_LEN :: nat where "ML_DSA_65_VK_LEN = 1952"
definition ML_DSA_65_SIG_LEN :: nat where "ML_DSA_65_SIG_LEN = 3309"

record HybridSigningKey =
  sk_ed25519 :: bytes
  sk_ml_dsa :: bytes

record HybridVerifyingKey =
  vk_ed25519 :: bytes
  vk_ml_dsa :: bytes

record HybridSignature =
  sig_ed25519 :: bytes
  sig_ml_dsa :: bytes

definition HybridSigningKey_generate :: "rng \<Rightarrow> HybridSigningKey \<times> rng" where
  "HybridSigningKey_generate rng =
    (let (e, rng) = fill_bytes 32 rng; (d, rng) = fill_bytes 32 rng
     in (\<lparr>sk_ed25519 = e, sk_ml_dsa = d\<rparr>, rng))"

definition HybridSigningKey_verifying_key :: "crypto \<Rightarrow> HybridSigningKey \<Rightarrow> HybridVerifyingKey" where
  "HybridSigningKey_verifying_key C k =
     \<lparr>vk_ed25519 = ed25519_public C (sk_ed25519 k), vk_ml_dsa = mldsa_public C (sk_ml_dsa k)\<rparr>"

definition HybridSigningKey_sign ::
    "crypto \<Rightarrow> HybridSigningKey \<Rightarrow> bytes \<Rightarrow> (HybridSignature, crypto_error) res" where
  "HybridSigningKey_sign C k message =
    (let e = ed25519_sign C (sk_ed25519 k) message in
     and_then (ok_or Encrypt (mldsa_sign C (sk_ml_dsa k) message)) (\<lambda>d.
     Ok \<lparr>sig_ed25519 = e, sig_ml_dsa = d\<rparr>))"

definition hybrid_verify ::
    "crypto \<Rightarrow> HybridVerifyingKey \<Rightarrow> bytes \<Rightarrow> HybridSignature \<Rightarrow> (unit, crypto_error) res" where
  "hybrid_verify C key message signature =
    and_then (verify C (vk_ed25519 key) message (sig_ed25519 signature)) (\<lambda>_.
    if \<not> mldsa_key_ok C (vk_ml_dsa key) then Err InvalidPublicKey
    else if \<not> mldsa_sig_ok C (sig_ml_dsa signature) then Err CryptoVerify
    else if mldsa_verify C (vk_ml_dsa key) message (sig_ml_dsa signature) then Ok ()
    else Err CryptoVerify)"

record MlDsaKeypair =
  mldsa_inner :: bytes

definition MlDsaKeypair_generate :: "rng \<Rightarrow> MlDsaKeypair \<times> rng" where
  "MlDsaKeypair_generate rng = (let (seed, rng) = fill_bytes 32 rng in (\<lparr>mldsa_inner = seed\<rparr>, rng))"

definition MlDsaKeypair_to_seed :: "MlDsaKeypair \<Rightarrow> bytes" where
  "MlDsaKeypair_to_seed k = mldsa_inner k"

definition MlDsaKeypair_from_seed :: "crypto \<Rightarrow> bytes \<Rightarrow> (MlDsaKeypair, crypto_error) res" where
  "MlDsaKeypair_from_seed C seed =
    (if mldsa_seed_ok C seed then Ok \<lparr>mldsa_inner = seed\<rparr> else Err InvalidKeyLength)"

definition MlDsaKeypair_verifying_key_bytes :: "crypto \<Rightarrow> MlDsaKeypair \<Rightarrow> bytes" where
  "MlDsaKeypair_verifying_key_bytes C k = mldsa_public C (mldsa_inner k)"

definition MlDsaKeypair_sign :: "crypto \<Rightarrow> MlDsaKeypair \<Rightarrow> bytes \<Rightarrow> (bytes, crypto_error) res" where
  "MlDsaKeypair_sign C k message = ok_or Encrypt (mldsa_sign C (mldsa_inner k) message)"

definition verify_ml_dsa :: "crypto \<Rightarrow> bytes \<Rightarrow> bytes \<Rightarrow> bytes \<Rightarrow> (unit, crypto_error) res" where
  "verify_ml_dsa C key message signature =
    (if \<not> mldsa_key_ok C key then Err InvalidPublicKey
     else if \<not> mldsa_sig_ok C signature then Err CryptoVerify
     else if mldsa_verify C key message signature then Ok () else Err CryptoVerify)"

section \<open>Lemmas\<close>

lemma hybrid_wf_generate: "hybrid_wf C (fst (HybridKeypair_generate C rng))"
  by (simp add: hybrid_wf_def HybridKeypair_generate_def case_prod_beta)

lemma from_to_secret_bytes:
  "mlkem_laws C \<Longrightarrow> hybrid_wf C k \<Longrightarrow>
    HybridKeypair_from_secret_bytes C (HybridKeypair_to_secret_bytes k) = Ok k"
  by (cases k) (simp add: HybridKeypair_from_secret_bytes_def HybridKeypair_to_secret_bytes_def hybrid_wf_def
      mlkem_laws_def Let_def)

lemma hybrid_wf_from_secret_bytes:
  "HybridKeypair_from_secret_bytes C bs = Ok k \<Longrightarrow> length bs = 96 \<Longrightarrow>
    hybrid_wf C k \<and> HybridKeypair_to_secret_bytes k = bs"
  by (auto simp: HybridKeypair_from_secret_bytes_def HybridKeypair_to_secret_bytes_def hybrid_wf_def
      Let_def split: if_splits)

lemma mix_total:
  assumes "hkdf_laws C"
  obtains key where "mix C a b = Ok key" and "length key = 32"
  using derive_key32_total [OF assms] by (metis mix_def)

lemma mix_not_Panic [simp]: "mix C a b \<noteq> Panic"
  by (simp add: mix_def)

lemma verify_ml_dsa_not_Panic [simp]: "verify_ml_dsa C k m s \<noteq> Panic"
  by (simp add: verify_ml_dsa_def)

lemma verify_ml_dsa_sign:
  "mldsa_laws C \<Longrightarrow> length (mldsa_inner k) = 32 \<Longrightarrow> MlDsaKeypair_sign C k m = Ok s \<Longrightarrow>
    verify_ml_dsa C (MlDsaKeypair_verifying_key_bytes C k) m s = Ok () \<and> length s = ML_DSA_65_SIG_LEN
    \<and> length (MlDsaKeypair_verifying_key_bytes C k) = ML_DSA_65_VK_LEN"
  by (simp add: mldsa_laws_def MlDsaKeypair_sign_def verify_ml_dsa_def MlDsaKeypair_verifying_key_bytes_def
      ML_DSA_65_SIG_LEN_def ML_DSA_65_VK_LEN_def)

lemma hybrid_seal_Ok:
  assumes "hkdf_laws C" and "aead_laws C" and "mlkem_laws C" and "hybrid_wf C k" and "length ck = 32"
  obtains e n kc ks key ct rng' where "length e = 32" and "length n = 24"
    and "mlkem_decapsulate C (hk_kem k) kc = Some ks"
    and "mix C (x25519_dh C e (x25519_public C (hk_x25519 k))) ks = Ok key" and "length key = 32"
    and "aead_seal C key n HYBRID_CONTEXT ck = Ok ct"
    and "hybrid_seal C ck (HybridKeypair_public C k) rng =
      Ok (\<lparr>ephemeral_x25519 = x25519_public C e, kem_ciphertext = kc, hs_nonce = n, hs_ciphertext = ct\<rparr>, rng')"
proof -
  let ?e = "fst (fill_bytes 32 rng)" and ?r1 = "snd (fill_bytes 32 rng)"
  let ?m = "fst (fill_bytes 32 ?r1)" and ?r2 = "snd (fill_bytes 32 ?r1)"
  let ?n = "fst (fill_bytes 24 ?r2)"
  obtain kc ks where enc: "mlkem_encapsulate C (mlkem_public C (hk_kem k)) ?m = (kc, ks)" by fastforce
  have wf: "length (hk_kem k) = 64" "hk_kem_public k = mlkem_public C (hk_kem k)"
    using assms(4) by (simp_all add: hybrid_wf_def)
  then have dec: "mlkem_decapsulate C (hk_kem k) kc = Some ks" and ok: "mlkem_key_ok C (mlkem_public C (hk_kem k))"
    using assms(3) enc length_fill_bytes [of 32 ?r1] unfolding mlkem_laws_def by blast+
  obtain key where key: "mix C (x25519_dh C ?e (x25519_public C (hk_x25519 k))) ks = Ok key" "length key = 32"
    using mix_total [OF assms(1)] by blast
  have "length ck < aead_max" by (simp add: assms(5) aead_max_def)
  from aead_seal_total [OF assms(2) key(2) length_fill_bytes this] obtain ct where
    ct: "aead_seal C key ?n HYBRID_CONTEXT ck = Ok ct" by blast
  have "hybrid_seal C ck (HybridKeypair_public C k) rng = Ok (\<lparr>ephemeral_x25519 = x25519_public C ?e,
      kem_ciphertext = kc, hs_nonce = ?n, hs_ciphertext = ct\<rparr>, snd (fill_bytes 24 ?r2))"
    using key ct ok enc by (simp add: hybrid_seal_def HybridKeypair_public_def wf NONCE_LEN_def case_prod_beta Let_def)
  with dec key ct show ?thesis by (intro that) simp_all
qed

interpretation hybrid_box: sealing_scheme
    "hkdf_laws C \<and> aead_laws C \<and> x25519_laws C \<and> mlkem_laws C" "hybrid_wf C"
    "HybridKeypair_public C" "hybrid_seal C" "HybridKeypair_open C" "\<lambda>_ _. True" for C
proof
  fix k and ck :: bytes and rng
  assume "hkdf_laws C \<and> aead_laws C \<and> x25519_laws C \<and> mlkem_laws C" "hybrid_wf C k" "length ck = 32"
  then show "\<exists>c r'. hybrid_seal C ck (HybridKeypair_public C k) rng = Ok (c, r')"
    by (metis hybrid_seal_Ok)
next
  fix k and ck :: bytes and rng c r'
  assume laws: "hkdf_laws C \<and> aead_laws C \<and> x25519_laws C \<and> mlkem_laws C" "hybrid_wf C k" "length ck = 32"
    and seal: "hybrid_seal C ck (HybridKeypair_public C k) rng = Ok (c, r')"
  obtain e n kc ks key ct where p: "length e = 32" "length n = 24" "mlkem_decapsulate C (hk_kem k) kc = Some ks"
    "mix C (x25519_dh C e (x25519_public C (hk_x25519 k))) ks = Ok key" "length key = 32"
    "aead_seal C key n HYBRID_CONTEXT ck = Ok ct"
    and c: "c = \<lparr>ephemeral_x25519 = x25519_public C e, kem_ciphertext = kc, hs_nonce = n, hs_ciphertext = ct\<rparr>"
    by (rule hybrid_seal_Ok [of C k ck rng]) (use laws seal in auto)
  have "x25519_dh C (hk_x25519 k) (x25519_public C e) = x25519_dh C e (x25519_public C (hk_x25519 k))"
    using laws p(1) by (simp add: x25519_laws_def hybrid_wf_def)
  moreover have "aead_open C key n HYBRID_CONTEXT ct = Ok ck" using laws p by (simp add: aead_open_iff)
  ultimately show "HybridKeypair_open C k c = Ok ck"
    using p laws(3) by (simp add: HybridKeypair_open_def c KEY_LEN_def)
next
  fix k c and ck :: bytes
  assume "HybridKeypair_open C k c = Ok ck"
  then show "length ck = 32" by (auto simp: HybridKeypair_open_def KEY_LEN_def Let_def split: if_splits)
qed

section \<open>Properties\<close>

text \<open>
  Hybrid sealing round trip. For every keypair that \<open>generate\<close> makes, also after it went
  through its 96 secret bytes, sealing any content key to the public half succeeds and the
  keypair opens the result to exactly that key.
\<close>

lemma hybrid_roundtrip:
  assumes "hkdf_laws C" and "aead_laws C" and "x25519_laws C" and "mlkem_laws C"
    and "length content_key = 32"
  shows "\<exists>k sealed rng'.
    HybridKeypair_from_secret_bytes C
      (HybridKeypair_to_secret_bytes (fst (HybridKeypair_generate C rng))) = Ok k
    \<and> k = fst (HybridKeypair_generate C rng)
    \<and> hybrid_seal C content_key (HybridKeypair_public C k) rng2 = Ok (sealed, rng')
    \<and> HybridKeypair_open C k sealed = Ok content_key"
proof -
  let ?k = "fst (HybridKeypair_generate C rng)"
  note wf = hybrid_wf_generate [of C rng]
  have laws: "hkdf_laws C \<and> aead_laws C \<and> x25519_laws C \<and> mlkem_laws C" using assms by blast
  from hybrid_box.seal_total [OF laws wf assms(5)] obtain sealed rng' where
    s: "hybrid_seal C content_key (HybridKeypair_public C ?k) rng2 = Ok (sealed, rng')" by blast
  from s hybrid_box.seal_open [OF laws wf assms(5) s TrueI] from_to_secret_bytes [OF assms(4) wf]
  show ?thesis by blast
qed

lemma hybrid_roundtrip_witness:
  "\<exists>k sealed rng'.
    HybridKeypair_from_secret_bytes toy_crypto
      (HybridKeypair_to_secret_bytes (fst (HybridKeypair_generate toy_crypto (\<lambda>i. of_nat i)))) = Ok k
    \<and> hybrid_seal toy_crypto (replicate 32 9) (HybridKeypair_public toy_crypto k) (\<lambda>i. 3) = Ok (sealed, rng')
    \<and> HybridKeypair_open toy_crypto k sealed = Ok (replicate 32 9)"
  using hybrid_roundtrip [OF toy_hkdf_laws toy_aead_laws toy_x25519_laws toy_mlkem_laws,
      of "replicate 32 9" "\<lambda>i. of_nat i" "\<lambda>i. 3"] by auto

text \<open>
  A hybrid signature needs both halves. Verification succeeds exactly when the Ed25519
  half verifies, the ML-DSA key and signature decode, and the ML-DSA half verifies; what
  \<open>sign\<close> returns satisfies all of it.
\<close>

lemma hybrid_signature_both_halves:
  assumes "ed25519_laws C" and "mldsa_laws C" and "length (sk_ed25519 k) = 32" and "length (sk_ml_dsa k) = 32"
  shows "(hybrid_verify C key message signature = Ok () \<longleftrightarrow>
      verify C (vk_ed25519 key) message (sig_ed25519 signature) = Ok ()
      \<and> verify_ml_dsa C (vk_ml_dsa key) message (sig_ml_dsa signature) = Ok ())
    \<and> (HybridSigningKey_sign C k message = Ok signature \<longrightarrow>
        hybrid_verify C (HybridSigningKey_verifying_key C k) message signature = Ok ())"
  using assms
  by (auto simp: hybrid_verify_def verify_ml_dsa_def HybridSigningKey_sign_def HybridSigningKey_verifying_key_def
      verify_def ed25519_laws_def mldsa_laws_def Let_def split: if_splits)

lemma hybrid_signature_both_halves_witness:
  "\<exists>g. HybridSigningKey_sign toy_crypto \<lparr>sk_ed25519 = replicate 32 1, sk_ml_dsa = replicate 32 2\<rparr> [1, 2] = Ok g
    \<and> hybrid_verify toy_crypto (HybridSigningKey_verifying_key toy_crypto
        \<lparr>sk_ed25519 = replicate 32 1, sk_ml_dsa = replicate 32 2\<rparr>) [1, 2] g = Ok ()"
proof -
  let ?k = "\<lparr>sk_ed25519 = replicate 32 1, sk_ml_dsa = replicate 32 2\<rparr> :: HybridSigningKey"
  obtain g where g: "HybridSigningKey_sign toy_crypto ?k [1, 2] = Ok g"
    by (simp add: HybridSigningKey_sign_def toy_crypto_def)
  have "length (sk_ed25519 ?k) = 32" "length (sk_ml_dsa ?k) = 32" by simp_all
  from hybrid_signature_both_halves [OF toy_ed25519_laws toy_mldsa_laws this] g show ?thesis by blast
qed

end
