(* ===== verification/Place.thy ===== *)
theory Place
  imports Crypto Shamir
begin

text \<open>
  Place-locked key release, \<open>crates/core/src/place.rs\<close>: a content key is split across
  custodians, every share sealed to its custodian, and reconstructed from the shares that
  are opened. The sealed boxes are used through the interface \<open>sealing_scheme\<close>.
\<close>

section \<open>The model\<close>

record CustodianShare =
  cs_custodian :: bytes
  cs_x :: u8
  cs_sealed_y :: SealedKey

text \<open>The loop over the custodians and their shares in \<open>seal\<close>.\<close>

fun seal_shares ::
    "crypto \<Rightarrow> (bytes \<times> Share) list \<Rightarrow> rng \<Rightarrow> (CustodianShare list \<times> rng, core_error) res" where
  "seal_shares C [] rng = Ok ([], rng)"
| "seal_shares C ((custodian, share) # rest) rng =
    (if length (sh_y share) \<noteq> 32 then Err (Invalid ''share length'')
     else and_then (map_err Crypto (SealedKey_seal C (sh_y share) custodian rng)) (\<lambda>(sealed_y, rng).
       and_then (seal_shares C rest rng) (\<lambda>(out, rng).
       Ok (\<lparr>cs_custodian = custodian, cs_x = sh_x share, cs_sealed_y = sealed_y\<rparr> # out, rng))))"

definition place_seal ::
    "crypto \<Rightarrow> bytes \<Rightarrow> bytes list \<Rightarrow> u8 \<Rightarrow> rng \<Rightarrow> (CustodianShare list \<times> rng, core_error) res" where
  "place_seal C content_key custodians threshold rng =
    (if custodians = [] then Err (Invalid ''no custodians'')
     else and_then (ok_or (Invalid ''too many custodians'') (try_u8_usize (length custodians))) (\<lambda>count.
       and_then (map_err Crypto (split content_key threshold count rng)) (\<lambda>(shares, rng).
       seal_shares C (zip custodians shares) rng)))"

definition open_share :: "crypto \<Rightarrow> bytes \<times> u8 \<times> SealedKey \<Rightarrow> (Share, core_error) res" where
  "open_share C = (\<lambda>(secret, x, sealed).
    and_then (map_err Crypto (SealedKey_open C sealed secret)) (\<lambda>y. Ok \<lparr>sh_x = x, sh_y = y\<rparr>))"

definition place_open ::
    "crypto \<Rightarrow> (bytes \<times> u8 \<times> SealedKey) list \<Rightarrow> nat \<Rightarrow> (bytes, core_error) res" where
  "place_open C available threshold =
    (if length available < threshold \<or> threshold < 2 then Err (Invalid ''insufficient shares'')
     else and_then (collect_res (open_share C) available) (\<lambda>shares.
       and_then (map_err Crypto (combine shares)) (\<lambda>key.
       if length key \<noteq> 32 then Err (Invalid ''reconstructed key length'') else Ok key)))"

section \<open>Sealed shares\<close>

lemma seal_shares_Ok:
  assumes "hkdf_laws C" and "aead_laws C"
  shows "\<forall>(c, s) \<in> set pairs. length (sh_y s) = 32 \<Longrightarrow>
    \<exists>out rng'. seal_shares C pairs rng = Ok (out, rng') \<and> length out = length pairs \<and>
      (\<forall>i < length pairs. cs_custodian (out ! i) = fst (pairs ! i) \<and> cs_x (out ! i) = sh_x (snd (pairs ! i)) \<and>
        (\<exists>r r'. SealedKey_seal C (sh_y (snd (pairs ! i))) (fst (pairs ! i)) r = Ok (cs_sealed_y (out ! i), r')))"
proof (induction pairs arbitrary: rng)
  case (Cons p pairs)
  obtain c s where p: "p = (c, s)" by (cases p)
  with Cons.prems have l: "length (sh_y s) = 32" by simp
  obtain sealed rng1 where seal: "SealedKey_seal C (sh_y s) c rng = Ok (sealed, rng1)"
    using SealedKey_seal_Ok [OF assms l] by metis
  obtain out rng' where "seal_shares C pairs rng1 = Ok (out, rng')" "length out = length pairs"
    "\<forall>i < length pairs. cs_custodian (out ! i) = fst (pairs ! i) \<and> cs_x (out ! i) = sh_x (snd (pairs ! i)) \<and>
        (\<exists>r r'. SealedKey_seal C (sh_y (snd (pairs ! i))) (fst (pairs ! i)) r = Ok (cs_sealed_y (out ! i), r'))"
    using Cons.IH [of rng1] Cons.prems by auto
  with seal l p show ?case by (auto simp: nth_Cons split: nat.splits)
qed simp

lemma split_lengths: "split secret t n rng = Ok (out, rng') \<Longrightarrow> s \<in> set out \<Longrightarrow> length (sh_y s) = length secret"
  by (metis shares_for_def split_Ok)

text \<open>What \<open>place_seal\<close> hands to the custodians, in terms of the split it drew.\<close>

lemma place_seal_Ok:
  assumes "hkdf_laws C" and "aead_laws C" and "length content_key = 32"
    and "2 \<le> threshold" and "unat threshold \<le> length custodians" and "length custodians \<le> 255"
  obtains shares out rng' rng1 where
    "split content_key threshold (of_nat (length custodians)) rng = Ok (shares, rng1)"
    and "place_seal C content_key custodians threshold rng = Ok (out, rng')"
    and "length shares = length custodians" and "length out = length custodians"
    and "\<And>i. i < length custodians \<Longrightarrow> cs_custodian (out ! i) = custodians ! i \<and> cs_x (out ! i) = sh_x (shares ! i)
      \<and> (\<exists>r r'. SealedKey_seal C (sh_y (shares ! i)) (custodians ! i) r = Ok (cs_sealed_y (out ! i), r'))"
proof -
  let ?n = "of_nat (length custodians) :: u8"
  have n: "unat ?n = length custodians" using assms(6) by (simp add: unat_of_nat)
  have ne: "content_key \<noteq> []" "custodians \<noteq> []" using assms(3-5) by (auto simp: word_le_nat_alt)
  have "threshold \<le> ?n" using assms(5) n by (simp add: word_le_nat_alt)
  with ne assms(4) obtain shares rng1 where split: "split content_key threshold ?n rng = Ok (shares, rng1)"
    by (fastforce simp: split_def not_less Let_def)
  obtain random where "map sh_x shares = map of_nat [1..<unat ?n + 1]" using split_Ok [OF split] by metis
  from split_points(3) [OF this] n have len: "length shares = length custodians" by simp
  have "\<forall>(c, s) \<in> set (zip custodians shares). length (sh_y s) = 32"
    using split_lengths [OF split] assms(3) by (auto dest: set_zip_rightD)
  from seal_shares_Ok [OF assms(1,2) this, of rng1] obtain out rng' where
    out: "seal_shares C (zip custodians shares) rng1 = Ok (out, rng')" "length out = length (zip custodians shares)"
    "\<forall>i < length (zip custodians shares). cs_custodian (out ! i) = fst (zip custodians shares ! i)
      \<and> cs_x (out ! i) = sh_x (snd (zip custodians shares ! i))
      \<and> (\<exists>r r'. SealedKey_seal C (sh_y (snd (zip custodians shares ! i))) (fst (zip custodians shares ! i)) r
          = Ok (cs_sealed_y (out ! i), r'))"
    by blast
  have "place_seal C content_key custodians threshold rng = Ok (out, rng')"
    using ne split out(1) assms(6) by (simp add: place_seal_def try_u8_usize_def)
  with split len out(2,3) show ?thesis by (intro that) auto
qed

section \<open>Properties\<close>

text \<open>
  C24. Release to a threshold. A content key sealed to the public keys of between \<open>threshold\<close>
  and 255 custodians (threshold at least two) gives one sealed share per custodian, and any
  \<open>threshold\<close> or more different custodians that open their shares recover exactly the
  content key, provided none of the ephemeral key agreements is degenerate.
\<close>

theorem place_lock_roundtrip:
  assumes "hkdf_laws C" and "aead_laws C" and "x25519_laws C" and "length content_key = 32"
    and "2 \<le> threshold" and "unat threshold \<le> length secrets" and "length secrets \<le> 255"
    and "\<forall>s \<in> set secrets. length s = 32"
    and "place_seal C content_key (map (x25519_public C) secrets) threshold rng = Ok (out, rng')"
    and "distinct chosen" and "\<forall>i \<in> set chosen. i < length secrets \<and> shared_nonzero C (secrets ! i) (cs_sealed_y (out ! i))"
    and "unat threshold \<le> length chosen"
  shows "place_open C (map (\<lambda>i. (secrets ! i, cs_x (out ! i), cs_sealed_y (out ! i))) chosen) (unat threshold)
    = Ok content_key"
proof -
  let ?cust = "map (x25519_public C) secrets"
  obtain shares rng1 where
    split: "split content_key threshold (of_nat (length secrets)) rng = Ok (shares, rng1)"
    and len: "length shares = length secrets"
    and out: "\<And>i. i < length secrets \<Longrightarrow> cs_x (out ! i) = sh_x (shares ! i)
      \<and> (\<exists>r r'. SealedKey_seal C (sh_y (shares ! i)) (x25519_public C (secrets ! i)) r = Ok (cs_sealed_y (out ! i), r'))"
    by (rule place_seal_Ok [OF assms(1,2,4,5), of ?cust rng]) (use assms(6,7,9) in auto)
  have open1: "open_share C (secrets ! i, cs_x (out ! i), cs_sealed_y (out ! i)) = Ok (shares ! i)"
    if "i \<in> set chosen" for i
  proof -
    have i: "i < length secrets" "shared_nonzero C (secrets ! i) (cs_sealed_y (out ! i))"
      using that assms(11) by auto
    obtain r r' where "SealedKey_seal C (sh_y (shares ! i)) (x25519_public C (secrets ! i)) r = Ok (cs_sealed_y (out ! i), r')"
      using out [OF i(1)] by blast
    moreover have "length (sh_y (shares ! i)) = 32" using split_lengths [OF split] i len assms(4) by simp
    ultimately have "SealedKey_open C (cs_sealed_y (out ! i)) (secrets ! i) = Ok (sh_y (shares ! i))"
      using sealed_box.seal_open assms(1-3,8) i by (metis nth_mem)
    then show ?thesis using out [OF i(1)] by (simp add: open_share_def)
  qed
  have "collect_res (open_share C) (map (\<lambda>i. (secrets ! i, cs_x (out ! i), cs_sealed_y (out ! i))) chosen)
      = Ok (map (\<lambda>i. shares ! i) chosen)"
    using open1 by (auto simp: collect_res_Ok_iff)
  moreover have "combine (map (\<lambda>i. shares ! i) chosen) = Ok content_key"
  proof (rule shares_combine [OF split])
    show "distinct (map (\<lambda>i. shares ! i) chosen)"
      using assms(10,11) len split_distinct [OF split] by (auto simp: distinct_map inj_on_def nth_eq_iff_index_eq)
    show "set (map (\<lambda>i. shares ! i) chosen) \<subseteq> set shares" using assms(11) len by auto
  qed (use assms(12) in simp)
  moreover have "2 \<le> unat threshold" using assms(5) by (simp add: word_le_nat_alt)
  ultimately show ?thesis using assms(4,12) by (simp add: place_open_def)
qed

theorem place_lock_roundtrip_witness:
  "\<exists>out rng'. place_seal toy_crypto (replicate 32 7) (map (x25519_public toy_crypto)
      [replicate 32 1, replicate 32 2, replicate 32 3]) 2 (\<lambda>i. of_nat i) = Ok (out, rng')
    \<and> place_open toy_crypto [(replicate 32 3, cs_x (out ! 2), cs_sealed_y (out ! 2)),
        (replicate 32 1, cs_x (out ! 0), cs_sealed_y (out ! 0))] 2 = Ok (replicate 32 7)"
proof -
  let ?s = "[replicate 32 1, replicate 32 2, replicate 32 3] :: bytes list"
  let ?k = "replicate 32 7 :: bytes"
  have l: "length ?k = 32" "(2 :: u8) \<le> 2" "unat (2 :: u8) \<le> length ?s" "length ?s \<le> 255"
    "\<forall>s \<in> set ?s. length s = 32" by simp_all
  obtain out rng' where out: "place_seal toy_crypto ?k (map (x25519_public toy_crypto) ?s) 2 (\<lambda>i. of_nat i) = Ok (out, rng')"
    by (rule place_seal_Ok [OF toy_hkdf_laws toy_aead_laws l(1,2), of "map (x25519_public toy_crypto) ?s"]) (use l in auto)
  have "place_open toy_crypto (map (\<lambda>i. (?s ! i, cs_x (out ! i), cs_sealed_y (out ! i))) [2, 0]) (unat (2 :: u8)) = Ok ?k"
    by (rule place_lock_roundtrip [OF toy_hkdf_laws toy_aead_laws toy_x25519_laws l out])
      (simp_all add: toy_shared_nonzero)
  with out show ?thesis by simp
qed

end
