(* ===== verification/Cbor.thy ===== *)
theory Cbor
  imports Errors
begin

unbundle bit_operations_syntax

text \<open>
  The canonical CBOR subset of \<open>crates/core/src/cbor.rs\<close>. \<open>Encoder\<close> and \<open>Decoder\<close> are
  records with the source's fields; every method is a function on them that returns
  the updated record. The locale \<open>codec\<close> states what a writer and its reader promise
  each other, and is interpreted for every item kind; what follows from the promise
  alone (unique decodability) is proved once, inside it.
\<close>

section \<open>Major types\<close>

definition MAJOR_UINT :: u8 where "MAJOR_UINT = 0"
definition MAJOR_BYTES :: u8 where "MAJOR_BYTES = 2"
definition MAJOR_TEXT :: u8 where "MAJOR_TEXT = 3"
definition MAJOR_ARRAY :: u8 where "MAJOR_ARRAY = 4"
definition MAJOR_MAP :: u8 where "MAJOR_MAP = 5"

lemmas major_defs = MAJOR_UINT_def MAJOR_BYTES_def MAJOR_TEXT_def MAJOR_ARRAY_def MAJOR_MAP_def

section \<open>Encoder\<close>

record Encoder =
  buf :: bytes

definition Encoder_new :: Encoder where
  "Encoder_new = \<lparr>buf = []\<rparr>"

definition Encoder_into_bytes :: "Encoder \<Rightarrow> bytes" where
  "Encoder_into_bytes e = buf e"

definition Encoder_extend :: "bytes \<Rightarrow> Encoder \<Rightarrow> Encoder" where
  "Encoder_extend bs e = e\<lparr>buf := buf e @ bs\<rparr>"

definition Encoder_head :: "u8 \<Rightarrow> u64 \<Rightarrow> Encoder \<Rightarrow> Encoder" where
  "Encoder_head major value e =
    (let major_bits = push_bit 5 major in
     if value < 24 then
       Encoder_extend [major_bits OR unwrap_or 23 (try_u8 value)] e
     else if value \<le> 0xFF then
       Encoder_extend [unwrap_or 0xFF (try_u8 value)] (Encoder_extend [major_bits OR 24] e)
     else if value \<le> 0xFFFF then
       Encoder_extend (be_bytes 2 (unat (unwrap_or 0xFFFF (try_u16 value))))
         (Encoder_extend [major_bits OR 25] e)
     else if value \<le> 0xFFFFFFFF then
       Encoder_extend (u32_be (unwrap_or 0xFFFFFFFF (try_u32 value)))
         (Encoder_extend [major_bits OR 26] e)
     else
       Encoder_extend (u64_be value) (Encoder_extend [major_bits OR 27] e))"

definition Encoder_uint :: "u64 \<Rightarrow> Encoder \<Rightarrow> Encoder" where
  "Encoder_uint value = Encoder_head MAJOR_UINT value"

definition Encoder_bytes :: "bytes \<Rightarrow> Encoder \<Rightarrow> Encoder" where
  "Encoder_bytes value e =
     Encoder_extend value (Encoder_head MAJOR_BYTES (unwrap_or (-1) (try_u64 (length value))) e)"

definition Encoder_text :: "string \<Rightarrow> Encoder \<Rightarrow> Encoder" where
  "Encoder_text value e =
     Encoder_extend (str_bytes value)
       (Encoder_head MAJOR_TEXT (unwrap_or (-1) (try_u64 (length value))) e)"

definition Encoder_array :: "nat \<Rightarrow> Encoder \<Rightarrow> Encoder" where
  "Encoder_array len = Encoder_head MAJOR_ARRAY (unwrap_or (-1) (try_u64 len))"

definition Encoder_map :: "nat \<Rightarrow> Encoder \<Rightarrow> Encoder" where
  "Encoder_map len = Encoder_head MAJOR_MAP (unwrap_or (-1) (try_u64 len))"

definition Encoder_bool :: "bool \<Rightarrow> Encoder \<Rightarrow> Encoder" where
  "Encoder_bool value = Encoder_extend [if value then 0xF5 else 0xF4]"

text \<open>A sequence of encoder calls, in the order of the source's statements.\<close>

definition encode_seq :: "(Encoder \<Rightarrow> Encoder) list \<Rightarrow> bytes" where
  "encode_seq calls = Encoder_into_bytes (fold (\<lambda>call e. call e) calls Encoder_new)"

section \<open>Decoder\<close>

record Decoder =
  input :: bytes
  pos :: nat

definition Decoder_new :: "bytes \<Rightarrow> Decoder" where
  "Decoder_new bs = \<lparr>input = bs, pos = 0\<rparr>"

definition Decoder_is_finished :: "Decoder \<Rightarrow> bool" where
  "Decoder_is_finished d \<longleftrightarrow> pos d = length (input d)"

definition Decoder_finish :: "Decoder \<Rightarrow> (unit, core_error) res" where
  "Decoder_finish d = (if Decoder_is_finished d then Ok () else Err (Cbor ''trailing bytes''))"

definition read_u8 :: "Decoder \<Rightarrow> (u8 \<times> Decoder, core_error) res" where
  "read_u8 d =
    (if pos d < length (input d) then Ok (input d ! pos d, d\<lparr>pos := pos d + 1\<rparr>)
     else Err (Cbor ''unexpected end''))"

definition read_exact :: "nat \<Rightarrow> Decoder \<Rightarrow> (bytes \<times> Decoder, core_error) res" where
  "read_exact len d =
    (if pos d + len > usize_max then Err (Cbor ''length overflow'')
     else let end = pos d + len in
       if end \<le> length (input d) then Ok (take len (drop (pos d) (input d)), d\<lparr>pos := end\<rparr>)
       else Err (Cbor ''unexpected end''))"

definition read_head :: "Decoder \<Rightarrow> ((u8 \<times> u64) \<times> Decoder, core_error) res" where
  "read_head d =
    and_then (read_u8 d) (\<lambda>(initial, d).
      let major = drop_bit 5 initial; additional = initial AND 0x1F in
      if additional \<le> 23 then Ok ((major, ucast additional), d)
      else if additional = 24 then
        and_then (read_u8 d) (\<lambda>(b, d).
          let v = ucast b in
          if v < 24 then Err (Cbor ''non-canonical integer'') else Ok ((major, v), d))
      else if additional = 25 then
        and_then (read_exact 2 d) (\<lambda>(arr, d).
          let v = of_nat (be_nat arr) in
          if v \<le> 0xFF then Err (Cbor ''non-canonical integer'') else Ok ((major, v), d))
      else if additional = 26 then
        and_then (read_exact 4 d) (\<lambda>(arr, d).
          let v = ucast (u32_of_be arr) in
          if v \<le> 0xFFFF then Err (Cbor ''non-canonical integer'') else Ok ((major, v), d))
      else if additional = 27 then
        and_then (read_exact 8 d) (\<lambda>(arr, d).
          let v = u64_of_be arr in
          if v \<le> 0xFFFFFFFF then Err (Cbor ''non-canonical integer'') else Ok ((major, v), d))
      else Err (Cbor ''indefinite or reserved length''))"

definition Decoder_expect :: "u8 \<Rightarrow> Decoder \<Rightarrow> (u64 \<times> Decoder, core_error) res" where
  "Decoder_expect major d =
    and_then (read_head d) (\<lambda>((found, value), d).
      if found \<noteq> major then Err (Cbor ''unexpected major type'') else Ok (value, d))"

definition Decoder_uint :: "Decoder \<Rightarrow> (u64 \<times> Decoder, core_error) res" where
  "Decoder_uint = Decoder_expect MAJOR_UINT"

definition Decoder_bytes :: "Decoder \<Rightarrow> (bytes \<times> Decoder, core_error) res" where
  "Decoder_bytes d =
    and_then (Decoder_expect MAJOR_BYTES d) (\<lambda>(len, d).
    and_then (ok_or (Cbor ''length overflow'') (try_usize len)) (\<lambda>len. read_exact len d))"

definition Decoder_bytes_fixed :: "nat \<Rightarrow> Decoder \<Rightarrow> (bytes \<times> Decoder, core_error) res" where
  "Decoder_bytes_fixed n d =
    and_then (Decoder_bytes d) (\<lambda>(slice, d).
      if length slice \<noteq> n then Err (Cbor ''fixed length mismatch'') else Ok (slice, d))"

definition Decoder_text :: "Decoder \<Rightarrow> (string \<times> Decoder, core_error) res" where
  "Decoder_text d =
    and_then (Decoder_expect MAJOR_TEXT d) (\<lambda>(len, d).
    and_then (ok_or (Cbor ''length overflow'') (try_usize len)) (\<lambda>len.
    and_then (read_exact len d) (\<lambda>(slice, d).
      if utf8_valid slice then Ok (bytes_str slice, d) else Err (Cbor ''invalid utf-8''))))"

definition Decoder_array :: "Decoder \<Rightarrow> (nat \<times> Decoder, core_error) res" where
  "Decoder_array d =
    and_then (Decoder_expect MAJOR_ARRAY d) (\<lambda>(len, d).
    and_then (ok_or (Cbor ''length overflow'') (try_usize len)) (\<lambda>len. Ok (len, d)))"

definition Decoder_map :: "Decoder \<Rightarrow> (nat \<times> Decoder, core_error) res" where
  "Decoder_map d =
    and_then (Decoder_expect MAJOR_MAP d) (\<lambda>(len, d).
    and_then (ok_or (Cbor ''length overflow'') (try_usize len)) (\<lambda>len. Ok (len, d)))"

definition Decoder_bool :: "Decoder \<Rightarrow> (bool \<times> Decoder, core_error) res" where
  "Decoder_bool d =
    and_then (read_u8 d) (\<lambda>(byte, d).
      if byte = 0xF4 then Ok (False, d)
      else if byte = 0xF5 then Ok (True, d)
      else Err (Cbor ''expected boolean''))"

section \<open>What the encoder writes\<close>

definition head_bytes :: "u8 \<Rightarrow> u64 \<Rightarrow> bytes" where
  "head_bytes major v = buf (Encoder_head major v Encoder_new)"

definition uint_bytes :: "u64 \<Rightarrow> bytes" where
  "uint_bytes v = head_bytes MAJOR_UINT v"

definition bytes_bytes :: "bytes \<Rightarrow> bytes" where
  "bytes_bytes v = head_bytes MAJOR_BYTES (of_nat (length v)) @ v"

definition text_bytes :: "string \<Rightarrow> bytes" where
  "text_bytes v = head_bytes MAJOR_TEXT (of_nat (length v)) @ str_bytes v"

definition array_bytes :: "nat \<Rightarrow> bytes" where
  "array_bytes n = head_bytes MAJOR_ARRAY (of_nat n)"

definition map_bytes :: "nat \<Rightarrow> bytes" where
  "map_bytes n = head_bytes MAJOR_MAP (of_nat n)"

definition bool_bytes :: "bool \<Rightarrow> bytes" where
  "bool_bytes b = [if b then 0xF5 else 0xF4]"

lemma buf_Encoder_extend [simp]: "buf (Encoder_extend bs e) = buf e @ bs"
  by (simp add: Encoder_extend_def)

lemma buf_Encoder_new [simp]: "buf Encoder_new = []"
  by (simp add: Encoder_new_def)

lemma buf_Encoder_head: "buf (Encoder_head m v e) = buf e @ head_bytes m v"
  by (simp add: head_bytes_def Encoder_head_def Let_def)

lemma try_u64_small: "n \<le> usize_max \<Longrightarrow> unwrap_or d (try_u64 n) = of_nat n"
  by (simp add: try_u64_def u64_max_def usize_max_def)

lemma buf_Encoder_uint [simp]: "buf (Encoder_uint v e) = buf e @ uint_bytes v"
  by (simp add: Encoder_uint_def uint_bytes_def buf_Encoder_head)

lemma buf_Encoder_bytes [simp]:
  "length v \<le> usize_max \<Longrightarrow> buf (Encoder_bytes v e) = buf e @ bytes_bytes v"
  by (simp add: Encoder_bytes_def bytes_bytes_def buf_Encoder_head try_u64_small)

lemma buf_Encoder_text [simp]:
  "length v \<le> usize_max \<Longrightarrow> buf (Encoder_text v e) = buf e @ text_bytes v"
  by (simp add: Encoder_text_def text_bytes_def buf_Encoder_head try_u64_small)

lemma buf_Encoder_array [simp]:
  "n \<le> usize_max \<Longrightarrow> buf (Encoder_array n e) = buf e @ array_bytes n"
  by (simp add: Encoder_array_def array_bytes_def buf_Encoder_head try_u64_small)

lemma buf_Encoder_map [simp]:
  "n \<le> usize_max \<Longrightarrow> buf (Encoder_map n e) = buf e @ map_bytes n"
  by (simp add: Encoder_map_def map_bytes_def buf_Encoder_head try_u64_small)

lemma buf_Encoder_bool [simp]: "buf (Encoder_bool b e) = buf e @ bool_bytes b"
  by (simp add: Encoder_bool_def bool_bytes_def)

text \<open>The shape of a head: an initial byte and, by the size of the value, 0, 1, 2, 4 or 8 bytes.\<close>

lemma head_bytes_cases:
  "head_bytes m v =
    (if v < 24 then [push_bit 5 m OR ucast v]
     else if v \<le> 0xFF then [push_bit 5 m OR 24, ucast v]
     else if v \<le> 0xFFFF then (push_bit 5 m OR 25) # be_bytes 2 (unat v)
     else if v \<le> 0xFFFFFFFF then (push_bit 5 m OR 26) # be_bytes 4 (unat v)
     else (push_bit 5 m OR 27) # be_bytes 8 (unat v))"
proof -
  have le: "v \<le> 0xFF" if "v < 24" using that by (simp add: word_le_nat_alt word_less_nat_alt)
  have 2: "unat (ucast v :: u16) = unat v" if "v \<le> 0xFFFF"
    using that by (simp add: word_le_nat_alt unsigned_ucast_eq take_bit_nat_eq_self)
  have 4: "unat (ucast v :: u32) = unat v" if "v \<le> 0xFFFFFFFF"
    using that by (simp add: word_le_nat_alt unsigned_ucast_eq take_bit_nat_eq_self)
  show ?thesis
    using le 2 4
    by (simp add: head_bytes_def Encoder_head_def Let_def try_u8_def try_u16_def try_u32_def
        u32_be_def u64_be_def)
qed

section \<open>Decoder steps on a split input\<close>

text \<open>A decoder that has consumed \<open>ctx\<close> and still has \<open>rest\<close> to read.\<close>

definition dec_at :: "bytes \<Rightarrow> bytes \<Rightarrow> Decoder" where
  "dec_at ctx rest = \<lparr>input = ctx @ rest, pos = length ctx\<rparr>"

lemma Decoder_new_dec_at: "Decoder_new bs = dec_at [] bs"
  by (simp add: Decoder_new_def dec_at_def)

lemma Decoder_finish_dec_at [simp]:
  "Decoder_finish (dec_at ctx rest) = (if rest = [] then Ok () else Err (Cbor ''trailing bytes''))"
  by (simp add: Decoder_finish_def Decoder_is_finished_def dec_at_def)

lemma read_u8_dec_at:
  "read_u8 (dec_at ctx s) =
    (case s of [] \<Rightarrow> Err (Cbor ''unexpected end'') | b # rest \<Rightarrow> Ok (b, dec_at (ctx @ [b]) rest))"
  by (simp add: read_u8_def dec_at_def split: list.splits)

lemma read_exact_dec_at:
  "read_exact n (dec_at ctx s) =
    (if length ctx + n > usize_max then Err (Cbor ''length overflow'')
     else if n \<le> length s then Ok (take n s, dec_at (ctx @ take n s) (drop n s))
     else Err (Cbor ''unexpected end''))"
  by (simp add: read_exact_def dec_at_def Let_def)

lemma low_mask: "(0x1F :: u8) = mask 5"
  by (simp add: mask_eq_exp_minus_1)

lemma small_bits: "x < 32 \<Longrightarrow> bit (x :: u8) n \<Longrightarrow> n < 5"
proof -
  assume "x < 32"
  then have "take_bit 5 x = x" by (simp add: word_unat_eq_iff unsigned_take_bit_eq take_bit_nat_eq_self word_less_nat_alt)
  then show "bit x n \<Longrightarrow> n < 5" by (metis bit_take_bit_iff)
qed

lemma major_bits: "m < 8 \<Longrightarrow> bit (m :: u8) n \<Longrightarrow> n < 3"
proof -
  assume "m < 8"
  then have "take_bit 3 m = m" by (simp add: word_unat_eq_iff unsigned_take_bit_eq take_bit_nat_eq_self word_less_nat_alt)
  then show "bit m n \<Longrightarrow> n < 3" by (metis bit_take_bit_iff)
qed

lemma initial_split: "push_bit 5 (drop_bit 5 b) OR (b AND 0x1F) = (b :: u8)"
proof (rule bit_word_eqI)
  fix n assume "n < LENGTH(8)"
  then show "bit (push_bit 5 (drop_bit 5 b) OR (b AND 0x1F)) n \<longleftrightarrow> bit b n"
    by (cases "n < 5") (auto simp: bit_simps low_mask)
qed

lemma initial_major: "m < 8 \<Longrightarrow> x < 32 \<Longrightarrow> drop_bit 5 (push_bit 5 m OR x) = (m :: u8)"
  by (rule bit_word_eqI) (auto simp: bit_simps dest: small_bits major_bits)

lemma drop_push_major: "m < 8 \<Longrightarrow> drop_bit 5 (push_bit 5 m) = (m :: u8)"
  using initial_major [of m 0] by simp

lemma initial_additional: "x < 32 \<Longrightarrow> (push_bit 5 m OR x) AND 0x1F = (x :: u8)"
  by (rule bit_word_eqI) (auto simp: bit_simps low_mask dest: small_bits)

lemma drop_bit_major: "drop_bit 5 (b :: u8) < 8"
proof -
  have "unat b < 256" using unat_bound [of b] by simp
  moreover have "unat (drop_bit 5 b) = unat b div 32"
    by (simp add: drop_bit_eq_div unat_div)
  ultimately show ?thesis by (simp add: word_less_nat_alt)
qed


section \<open>Heads: canonical and uniquely readable\<close>

lemma ucast_u8_small: "v \<le> 0xFF \<Longrightarrow> unat (ucast (v :: u64) :: u8) = unat v"
  by (simp add: word_le_nat_alt unsigned_ucast_eq take_bit_nat_eq_self)

lemma read_head_complete:
  assumes "m < 8" and "length ctx + length (head_bytes m v) \<le> usize_max"
  shows "read_head (dec_at ctx (head_bytes m v @ rest)) = Ok ((m, v), dec_at (ctx @ head_bytes m v) rest)"
proof -
  note split_initial = drop_push_major [OF assms(1)] initial_additional
  have v8: "unat v < 256 ^ 8" using unat_bound [of v] by simp
  consider "v < 24" | "24 \<le> v" "v \<le> 0xFF" | "0xFF < v" "v \<le> 0xFFFF"
    | "0xFFFF < v" "v \<le> 0xFFFFFFFF" | "0xFFFFFFFF < v"
    by (meson linorder_not_le)
  then show ?thesis
  proof cases
    case 1
    then have "unat (ucast v :: u8) = unat v" "unat v < 24"
      using ucast_u8_small [of v] by (simp_all add: word_le_nat_alt word_less_nat_alt)
    then have "ucast v < (32 :: u8)" "ucast v \<le> (23 :: u8)" "ucast (ucast v :: u8) = v"
      by (simp_all add: word_less_nat_alt word_le_nat_alt word_unat_eq_iff)
    with 1 initial_major [OF assms(1), of "ucast v"] show ?thesis
      by (simp add: head_bytes_cases read_head_def read_u8_dec_at split_initial)
  next
    case 2
    then have "\<not> v < 24" "ucast (ucast v :: u8) = v"
      using ucast_u8_small [of v] by (simp_all add: word_unat_eq_iff)
    with 2 show ?thesis
      by (simp add: head_bytes_cases read_head_def read_u8_dec_at split_initial)
  next
    case 3
    then have "\<not> v < 24" "\<not> v \<le> 0xFF" "unat v < 256 ^ 2"
      by (simp_all add: word_le_nat_alt word_less_nat_alt)
    with 3 assms(2) show ?thesis
      by (simp add: head_bytes_cases read_head_def read_u8_dec_at read_exact_dec_at split_initial
          be_nat_be_bytes)
  next
    case 4
    then have "\<not> v < 24" "\<not> v \<le> 0xFF" "\<not> v \<le> 0xFFFF" "unat v < 256 ^ 4"
      by (simp_all add: word_le_nat_alt word_less_nat_alt)
    moreover from this have "(ucast (u32_of_be (be_bytes 4 (unat v))) :: u64) = v"
      by (simp add: word_unat_eq_iff unat_u32_of_be be_nat_be_bytes)
    ultimately show ?thesis using 4 assms(2)
      by (simp add: head_bytes_cases read_head_def read_u8_dec_at read_exact_dec_at split_initial)
  next
    case 5
    then have "\<not> v < 24" "\<not> v \<le> 0xFF" "\<not> v \<le> 0xFFFF" "\<not> v \<le> 0xFFFFFFFF"
      by (simp_all add: word_le_nat_alt word_less_nat_alt)
    moreover have "u64_of_be (be_bytes 8 (unat v)) = v"
      using v8 by (simp add: word_unat_eq_iff unat_u64_of_be be_nat_be_bytes)
    ultimately show ?thesis using assms(2)
      by (simp add: head_bytes_cases read_head_def read_u8_dec_at read_exact_dec_at split_initial)
  qed
qed

text \<open>
  The same read backwards: an initial byte \<open>b\<close> and the \<open>n\<close> bytes its low bits announce are
  the head of the value they spell, provided a shorter head would not have held it.
\<close>

lemma head_bytes_direct:
  assumes "b AND 0x1F \<le> 23"
  shows "head_bytes (drop_bit 5 b) (ucast (b AND 0x1F)) = [b]"
proof -
  from assms have "(ucast (b AND 0x1F) :: u64) < 24" "ucast (ucast (b AND 0x1F) :: u64) = b AND 0x1F"
    by (simp_all add: word_less_nat_alt word_le_nat_alt word_unat_eq_iff unsigned_ucast_eq
        take_bit_nat_eq_self take_bit_word_eq_self)
  then show ?thesis using initial_split [of b] by (simp add: head_bytes_cases)
qed

lemma head_bytes_byte:
  assumes "b AND 0x1F = 24" and "\<not> (ucast c :: u64) < 24"
  shows "head_bytes (drop_bit 5 b) (ucast c) = [b, c]"
proof -
  have "(ucast c :: u64) \<le> 0xFF" "ucast (ucast c :: u64) = c"
    using unat_bound [of c]
    by (simp_all add: word_le_nat_alt word_unat_eq_iff unsigned_ucast_eq take_bit_nat_eq_self
        take_bit_word_eq_self)
  with assms show ?thesis using initial_split [of b] by (simp add: head_bytes_cases)
qed

lemma head_bytes_wide:
  assumes "(b AND 0x1F = 25 \<and> length xs = 2 \<and> 0xFF < unat v)
         \<or> (b AND 0x1F = 26 \<and> length xs = 4 \<and> 0xFFFF < unat v)
         \<or> (b AND 0x1F = 27 \<and> length xs = 8 \<and> 0xFFFFFFFF < unat v)"
    and "unat v = be_nat xs"
  shows "head_bytes (drop_bit 5 b) v = b # xs"
  using assms initial_split [of b] be_nat_less [of xs]
  by (elim disjE) (simp_all add: head_bytes_cases word_le_nat_alt word_less_nat_alt be_bytes_be_nat)

lemma read_head_sound:
  assumes "read_head (dec_at ctx s) = Ok ((m, v), d)"
  shows "m < 8 \<and> (\<exists>rest. s = head_bytes m v @ rest \<and> d = dec_at (ctx @ head_bytes m v) rest)"
proof (cases s)
  case Nil
  with assms show ?thesis by (simp add: read_head_def read_u8_dec_at)
next
  case (Cons b t)
  let ?a = "b AND 0x1F"
  note step = Cons read_head_def read_u8_dec_at read_exact_dec_at Let_def
  have m: "m = drop_bit 5 b"
    using assms by (auto simp: step split: if_splits list.splits)
  have *: "\<exists>xs rest. t = xs @ rest \<and> d = dec_at (ctx @ b # xs) rest \<and> head_bytes m v = b # xs"
  proof -
    consider "?a \<le> 23" | "?a = 24" | "?a = 25" | "?a = 26" | "?a = 27"
      using assms by (fastforce simp: step split: if_splits)
    then show ?thesis
    proof cases
      case 1
      with assms head_bytes_direct [of b] show ?thesis by (auto simp: step m)
    next
      case 2
      with assms head_bytes_byte [of b] show ?thesis
        by (auto simp: step m split: if_splits list.splits)
    next
      case 3
      with assms have n: "2 \<le> length t" and v: "v = of_nat (be_nat (take 2 t))" "\<not> v \<le> 0xFF"
        and d: "d = dec_at (ctx @ b # take 2 t) (drop 2 t)"
        by (auto simp: step split: if_splits)
      have "be_nat (take 2 t) < 65536" using be_nat_less [of "take 2 t"] n by simp
      with v have "unat v = be_nat (take 2 t)" by (simp add: unat_of_nat)
      with 3 n v have "head_bytes m v = b # take 2 t"
        unfolding m by (intro head_bytes_wide) (auto simp: word_le_nat_alt)
      with d show ?thesis by (metis append_take_drop_id)
    next
      case 4
      with assms have n: "4 \<le> length t" and v: "v = ucast (u32_of_be (take 4 t))" "\<not> v \<le> 0xFFFF"
        and d: "d = dec_at (ctx @ b # take 4 t) (drop 4 t)"
        by (auto simp: step split: if_splits)
      then have "unat v = be_nat (take 4 t)" by (simp add: unat_u32_of_be)
      with 4 n v have "head_bytes m v = b # take 4 t"
        unfolding m by (intro head_bytes_wide) (auto simp: word_le_nat_alt)
      with d show ?thesis by (metis append_take_drop_id)
    next
      case 5
      with assms have n: "8 \<le> length t" and v: "v = u64_of_be (take 8 t)" "\<not> v \<le> 0xFFFFFFFF"
        and d: "d = dec_at (ctx @ b # take 8 t) (drop 8 t)"
        by (auto simp: step split: if_splits)
      then have "unat v = be_nat (take 8 t)" by (simp add: unat_u64_of_be)
      with 5 n v have "head_bytes m v = b # take 8 t"
        unfolding m by (intro head_bytes_wide) (auto simp: word_le_nat_alt)
      with d show ?thesis by (metis append_take_drop_id)
    qed
  qed
  then show ?thesis by (auto simp: Cons m drop_bit_major)
qed

section \<open>The contract between a writer and its reader\<close>

text \<open>
  \<open>complete\<close>: on what the writer wrote, wherever it stands and whatever follows, the
  reader returns the value and stops exactly behind it. \<open>sound\<close>: the reader accepts
  nothing else, so every accepted value has one byte form.
\<close>

locale codec =
  fixes enc :: "'a \<Rightarrow> bytes"
    and dec :: "Decoder \<Rightarrow> ('a \<times> Decoder, core_error) res"
    and wf :: "'a \<Rightarrow> bool"
  assumes complete: "wf v \<Longrightarrow> length ctx + length (enc v) \<le> usize_max \<Longrightarrow>
      dec (dec_at ctx (enc v @ rest)) = Ok (v, dec_at (ctx @ enc v) rest)"
    and sound: "dec (dec_at ctx s) = Ok (v, d) \<Longrightarrow>
      wf v \<and> (\<exists>rest. s = enc v @ rest \<and> d = dec_at (ctx @ enc v) rest)"
begin

lemma prefix_free:
  assumes "wf v" and "wf w" and "enc v @ r = enc w @ s" and "length (enc w @ s) \<le> usize_max"
  shows "v = w \<and> r = s"
proof -
  have "length (enc v) \<le> usize_max" "length (enc w) \<le> usize_max"
    using assms(3,4) by (metis add_leD1 length_append)+
  with assms(1,2) have "dec (dec_at [] (enc v @ r)) = Ok (v, dec_at (enc v) r)"
    and "dec (dec_at [] (enc w @ s)) = Ok (w, dec_at (enc w) s)"
    using complete [of v "[]" r] complete [of w "[]" s] by simp_all
  with assms(3) show ?thesis by auto
qed

lemma enc_inject:
  "wf v \<Longrightarrow> wf w \<Longrightarrow> length (enc w) \<le> usize_max \<Longrightarrow> enc v = enc w \<longleftrightarrow> v = w"
  using prefix_free [of v w "[]" "[]"] by auto

lemma not_panic_sound: "dec (dec_at ctx s) = Ok (v, d) \<Longrightarrow> \<exists>rest. d = dec_at (ctx @ enc v) rest"
  using sound by blast

end

text \<open>A loop that reads \<open>n\<close> items with the same reader.\<close>

fun decode_many ::
    "(Decoder \<Rightarrow> ('a \<times> Decoder, core_error) res) \<Rightarrow> nat \<Rightarrow> Decoder
      \<Rightarrow> ('a list \<times> Decoder, core_error) res" where
  "decode_many dec 0 d = Ok ([], d)"
| "decode_many dec (Suc n) d =
     and_then (dec d) (\<lambda>(v, d).
     and_then (decode_many dec n d) (\<lambda>(vs, d). Ok (v # vs, d)))"

context codec
begin

lemma many_complete:
  "\<forall>v \<in> set vs. wf v \<Longrightarrow> length ctx + length (concat (map enc vs)) \<le> usize_max \<Longrightarrow>
    decode_many dec (length vs) (dec_at ctx (concat (map enc vs) @ rest))
      = Ok (vs, dec_at (ctx @ concat (map enc vs)) rest)"
proof (induction vs arbitrary: ctx)
  case Nil
  then show ?case by simp
next
  case (Cons v vs)
  from Cons.prems Cons.IH [of "ctx @ enc v"] show ?case by (simp add: complete)
qed

lemma many_sound:
  "decode_many dec n (dec_at ctx s) = Ok (vs, d) \<Longrightarrow>
    length vs = n \<and> (\<forall>v \<in> set vs. wf v) \<and>
    (\<exists>rest. s = concat (map enc vs) @ rest \<and> d = dec_at (ctx @ concat (map enc vs)) rest)"
proof (induction n arbitrary: ctx s vs d)
  case 0
  then show ?case by auto
next
  case (Suc n)
  then obtain v d1 vs' where v: "dec (dec_at ctx s) = Ok (v, d1)"
    and vs': "decode_many dec n d1 = Ok (vs', d)" and vs: "vs = v # vs'" by auto
  from sound [OF v] obtain r1 where w: "wf v" and s: "s = enc v @ r1"
    and d1: "d1 = dec_at (ctx @ enc v) r1" by auto
  from Suc.IH [OF vs' [unfolded d1]] show ?case by (auto simp: vs w s)
qed

end

section \<open>Every item kind keeps the contract\<close>

lemma Decoder_expect_complete:
  "m < 8 \<Longrightarrow> length ctx + length (head_bytes m v) \<le> usize_max \<Longrightarrow>
    Decoder_expect m (dec_at ctx (head_bytes m v @ rest)) = Ok (v, dec_at (ctx @ head_bytes m v) rest)"
  by (simp add: Decoder_expect_def read_head_complete)

lemma Decoder_expect_sound:
  "Decoder_expect m (dec_at ctx s) = Ok (v, d) \<Longrightarrow>
    \<exists>rest. s = head_bytes m v @ rest \<and> d = dec_at (ctx @ head_bytes m v) rest"
  by (auto simp: Decoder_expect_def split: if_splits dest: read_head_sound)

lemma majors_small: "MAJOR_UINT < 8" "MAJOR_BYTES < 8" "MAJOR_TEXT < 8" "MAJOR_ARRAY < 8" "MAJOR_MAP < 8"
  by (simp_all add: major_defs)

lemma unat_of_usize: "n \<le> usize_max \<Longrightarrow> unat (of_nat n :: u64) = n"
  by (simp add: usize_max_def unat_of_nat)

lemma unat_le_usize_max: "unat (v :: u64) \<le> usize_max"
  using unat_bound [of v] by (simp add: usize_max_def)

interpretation uint_item: codec uint_bytes Decoder_uint "\<lambda>_. True"
proof
  fix v :: u64 and ctx rest :: bytes
  assume "length ctx + length (uint_bytes v) \<le> usize_max"
  then show "Decoder_uint (dec_at ctx (uint_bytes v @ rest)) = Ok (v, dec_at (ctx @ uint_bytes v) rest)"
    by (simp add: Decoder_uint_def uint_bytes_def Decoder_expect_complete majors_small)
next
  fix ctx s v d
  assume "Decoder_uint (dec_at ctx s) = Ok (v, d)"
  then show "True \<and> (\<exists>rest. s = uint_bytes v @ rest \<and> d = dec_at (ctx @ uint_bytes v) rest)"
    by (auto simp: Decoder_uint_def uint_bytes_def dest: Decoder_expect_sound)
qed

interpretation array_item: codec array_bytes Decoder_array "\<lambda>n. n \<le> usize_max"
proof
  fix n :: nat and ctx rest :: bytes
  assume "n \<le> usize_max" and "length ctx + length (array_bytes n) \<le> usize_max"
  then show "Decoder_array (dec_at ctx (array_bytes n @ rest)) = Ok (n, dec_at (ctx @ array_bytes n) rest)"
    by (simp add: Decoder_array_def array_bytes_def Decoder_expect_complete majors_small unat_of_usize)
next
  fix ctx s n d
  assume "Decoder_array (dec_at ctx s) = Ok (n, d)"
  then show "n \<le> usize_max \<and> (\<exists>rest. s = array_bytes n @ rest \<and> d = dec_at (ctx @ array_bytes n) rest)"
    by (auto simp: Decoder_array_def array_bytes_def unat_le_usize_max dest: Decoder_expect_sound)
qed

interpretation map_item: codec map_bytes Decoder_map "\<lambda>n. n \<le> usize_max"
proof
  fix n :: nat and ctx rest :: bytes
  assume "n \<le> usize_max" and "length ctx + length (map_bytes n) \<le> usize_max"
  then show "Decoder_map (dec_at ctx (map_bytes n @ rest)) = Ok (n, dec_at (ctx @ map_bytes n) rest)"
    by (simp add: Decoder_map_def map_bytes_def Decoder_expect_complete majors_small unat_of_usize)
next
  fix ctx s n d
  assume "Decoder_map (dec_at ctx s) = Ok (n, d)"
  then show "n \<le> usize_max \<and> (\<exists>rest. s = map_bytes n @ rest \<and> d = dec_at (ctx @ map_bytes n) rest)"
    by (auto simp: Decoder_map_def map_bytes_def unat_le_usize_max dest: Decoder_expect_sound)
qed

interpretation bool_item: codec bool_bytes Decoder_bool "\<lambda>_. True"
  by unfold_locales
    (auto simp: Decoder_bool_def bool_bytes_def read_u8_dec_at split: list.splits if_splits)

text \<open>The length-prefixed items share the read that follows the head.\<close>

lemma read_exact_sound:
  "read_exact n (dec_at ctx s) = Ok (xs, d) \<Longrightarrow>
    length xs = n \<and> (\<exists>rest. s = xs @ rest \<and> d = dec_at (ctx @ xs) rest)"
  by (auto simp: read_exact_dec_at split: if_splits intro!: exI [of _ "drop n s"])

interpretation bytes_item: codec bytes_bytes Decoder_bytes "\<lambda>v. length v \<le> usize_max"
proof
  fix v ctx rest :: bytes
  assume "length v \<le> usize_max" and "length ctx + length (bytes_bytes v) \<le> usize_max"
  then show "Decoder_bytes (dec_at ctx (bytes_bytes v @ rest)) = Ok (v, dec_at (ctx @ bytes_bytes v) rest)"
    by (simp add: Decoder_bytes_def bytes_bytes_def Decoder_expect_complete majors_small
        unat_of_usize read_exact_dec_at)
next
  fix ctx s v d
  assume "Decoder_bytes (dec_at ctx s) = Ok (v, d)"
  then show "length v \<le> usize_max \<and> (\<exists>rest. s = bytes_bytes v @ rest \<and> d = dec_at (ctx @ bytes_bytes v) rest)"
    by (auto simp: Decoder_bytes_def bytes_bytes_def unat_le_usize_max
        dest!: Decoder_expect_sound read_exact_sound)
qed

interpretation text_item: codec text_bytes Decoder_text "\<lambda>v. str_ok v \<and> length v \<le> usize_max"
proof
  fix v :: string and ctx rest :: bytes
  assume "str_ok v \<and> length v \<le> usize_max" and "length ctx + length (text_bytes v) \<le> usize_max"
  then show "Decoder_text (dec_at ctx (text_bytes v @ rest)) = Ok (v, dec_at (ctx @ text_bytes v) rest)"
    by (simp add: Decoder_text_def text_bytes_def Decoder_expect_complete majors_small
        unat_of_usize read_exact_dec_at str_ok_def)
next
  fix ctx s v d
  assume "Decoder_text (dec_at ctx s) = Ok (v, d)"
  then show "(str_ok v \<and> length v \<le> usize_max)
      \<and> (\<exists>rest. s = text_bytes v @ rest \<and> d = dec_at (ctx @ text_bytes v) rest)"
    by (auto simp: Decoder_text_def text_bytes_def unat_le_usize_max str_ok_def
        split: if_splits dest!: Decoder_expect_sound read_exact_sound)
qed

interpretation fixed_item: codec bytes_bytes "Decoder_bytes_fixed n"
    "\<lambda>v. length v = n \<and> length v \<le> usize_max" for n
  by unfold_locales
    (auto simp: Decoder_bytes_fixed_def bytes_item.complete split: if_splits dest: bytes_item.sound)

lemmas wire_complete [wire_simps] =
  uint_item.complete array_item.complete map_item.complete bool_item.complete
  bytes_item.complete text_item.complete fixed_item.complete

lemmas wire_complete_end [wire_simps] = wire_complete [where rest = "[]", unfolded append_Nil2]

lemmas wire_sound [wire_dests] =
  uint_item.sound array_item.sound map_item.sound bool_item.sound
  bytes_item.sound text_item.sound fixed_item.sound

section \<open>No decoder panics\<close>

lemma read_u8_total: "read_u8 d \<noteq> Panic"
  by (simp add: read_u8_def)

lemma read_exact_total: "read_exact n d \<noteq> Panic"
  by (simp add: read_exact_def Let_def)

lemma read_head_total: "read_head d \<noteq> Panic"
  by (auto simp: read_head_def and_then_eq_Panic read_u8_total read_exact_total Let_def split: if_splits)

lemma decoder_total:
  "Decoder_finish d \<noteq> Panic" "Decoder_uint d \<noteq> Panic" "Decoder_bytes d \<noteq> Panic"
  "Decoder_bytes_fixed n d \<noteq> Panic" "Decoder_text d \<noteq> Panic" "Decoder_array d \<noteq> Panic"
  "Decoder_map d \<noteq> Panic" "Decoder_bool d \<noteq> Panic"
proof -
  have e: "Decoder_expect m d \<noteq> Panic" for m d
    by (auto simp: Decoder_expect_def and_then_eq_Panic read_head_total split: if_splits)
  have b: "Decoder_bytes d \<noteq> Panic" for d
    by (auto simp: Decoder_bytes_def and_then_eq_Panic e read_exact_total)
  show "Decoder_finish d \<noteq> Panic" "Decoder_uint d \<noteq> Panic" "Decoder_bytes d \<noteq> Panic"
    "Decoder_bytes_fixed n d \<noteq> Panic" "Decoder_text d \<noteq> Panic" "Decoder_array d \<noteq> Panic"
    "Decoder_map d \<noteq> Panic" "Decoder_bool d \<noteq> Panic"
    by (auto simp: Decoder_finish_def Decoder_uint_def e b Decoder_bytes_fixed_def Decoder_text_def
        Decoder_array_def Decoder_map_def Decoder_bool_def and_then_eq_Panic read_exact_total read_u8_total
        split: if_splits)
qed

section \<open>Sizes\<close>

lemma length_head_bytes: "1 \<le> length (head_bytes m v) \<and> length (head_bytes m v) \<le> 9"
  by (simp add: head_bytes_cases)

lemma length_uint_bytes: "length (uint_bytes v) \<le> 9"
  using length_head_bytes by (simp add: uint_bytes_def)

lemma length_array_bytes: "length (array_bytes n) \<le> 9"
  using length_head_bytes by (simp add: array_bytes_def)

lemma length_bytes_bytes: "length (bytes_bytes v) \<le> 9 + length v"
  using length_head_bytes [of MAJOR_BYTES] by (simp add: bytes_bytes_def)

lemma length_text_bytes: "length (text_bytes v) \<le> 9 + length v"
  using length_head_bytes [of MAJOR_TEXT] by (simp add: text_bytes_def)

lemmas wire_lengths = length_uint_bytes length_array_bytes length_bytes_bytes length_text_bytes

section \<open>Sequences of calls\<close>

text \<open>Every encoder call appends, whatever was written before.\<close>

definition appends :: "(Encoder \<Rightarrow> Encoder) \<Rightarrow> bytes \<Rightarrow> bool" where
  "appends call bs \<longleftrightarrow> (\<forall>e. buf (call e) = buf e @ bs)"

lemma encode_seq_appends:
  "list_all2 appends calls pieces \<Longrightarrow> encode_seq calls = concat pieces"
proof -
  have "list_all2 appends calls pieces \<Longrightarrow> buf (fold (\<lambda>call e. call e) calls e) = buf e @ concat pieces" for e
    by (induction calls pieces arbitrary: e rule: list_all2_induct) (simp_all add: appends_def)
  from this [of Encoder_new] show "list_all2 appends calls pieces \<Longrightarrow> encode_seq calls = concat pieces"
    by (simp add: encode_seq_def Encoder_into_bytes_def)
qed

lemma appends_calls:
  "appends (Encoder_uint v) (uint_bytes v)"
  "length b \<le> usize_max \<Longrightarrow> appends (Encoder_bytes b) (bytes_bytes b)"
  "length t \<le> usize_max \<Longrightarrow> appends (Encoder_text t) (text_bytes t)"
  "n \<le> usize_max \<Longrightarrow> appends (Encoder_array n) (array_bytes n)"
  "n \<le> usize_max \<Longrightarrow> appends (Encoder_map n) (map_bytes n)"
  "appends (Encoder_bool c) (bool_bytes c)"
  by (simp_all add: appends_def)

lemma small_usize: "n \<le> 4096 \<Longrightarrow> n \<le> usize_max"
  by (simp add: usize_max_def)

section \<open>Properties\<close>

text \<open>
  C9. Canonical heads. Reading a head accepts exactly what \<open>Encoder_head\<close> writes for a
  major type below 8: every accepted integer, length or count stands in its one
  shortest form, and the reader stops exactly behind it.
\<close>

theorem read_head_canonical:
  assumes "length bs \<le> usize_max"
  shows "read_head (Decoder_new bs) = Ok ((m, v), d) \<longleftrightarrow>
    m < 8 \<and> (\<exists>rest. bs = Encoder_into_bytes (Encoder_head m v Encoder_new) @ rest
      \<and> d = \<lparr>input = bs, pos = length bs - length rest\<rparr>)"
proof
  assume "read_head (Decoder_new bs) = Ok ((m, v), d)"
  from read_head_sound [OF this [unfolded Decoder_new_dec_at]]
  show "m < 8 \<and> (\<exists>rest. bs = Encoder_into_bytes (Encoder_head m v Encoder_new) @ rest
      \<and> d = \<lparr>input = bs, pos = length bs - length rest\<rparr>)"
    by (auto simp: Encoder_into_bytes_def buf_Encoder_head dec_at_def)
next
  assume "m < 8 \<and> (\<exists>rest. bs = Encoder_into_bytes (Encoder_head m v Encoder_new) @ rest
      \<and> d = \<lparr>input = bs, pos = length bs - length rest\<rparr>)"
  then show "read_head (Decoder_new bs) = Ok ((m, v), d)"
    using assms read_head_complete [of m "[]" v]
    by (auto simp: Encoder_into_bytes_def buf_Encoder_head Decoder_new_dec_at dec_at_def)
qed

theorem read_head_canonical_witness:
  "read_head (Decoder_new [0x19, 1, 0, 7]) = Ok ((0, 256), \<lparr>input = [0x19, 1, 0, 7], pos = 3\<rparr>)"
proof -
  have fits: "length [0x19, 1, 0, 7 :: u8] \<le> usize_max" by (simp add: usize_max_def)
  have enc: "Encoder_into_bytes (Encoder_head 0 256 Encoder_new) = [0x19, 1, 0]" by code_simp
  show ?thesis
    unfolding read_head_canonical [OF fits]
    by (rule conjI, simp, rule exI [of _ "[7]"]) (simp add: enc)
qed

end
