(* ===== verification/Presence.thy ===== *)
theory Presence
  imports Cbor Crypto
begin

text \<open>
  Presence certificates, \<open>crates/core/src/presence.rs\<close>: requests and witness attestations with
  their canonical encodings, the bytes a witness signs, and the verification of a
  certificate against a threshold of distinct witnesses.
\<close>

section \<open>The model\<close>

definition PRESENCE_CONTEXT :: bytes where "PRESENCE_CONTEXT = str_bytes ''keepstone/v1/presence''"

definition DEFAULT_THRESHOLD :: nat where "DEFAULT_THRESHOLD = 3"

record PresenceRequest =
  pr_cell :: string
  pr_nonce :: bytes
  pr_claimant :: bytes
  pr_expiry :: u64

definition PresenceRequest_from_canonical :: "bytes \<Rightarrow> (PresenceRequest, core_error) res" where
  "PresenceRequest_from_canonical bs =
    and_then (Decoder_array (Decoder_new bs)) (\<lambda>(n, d).
    if n \<noteq> 4 then Err (Cbor ''presence request arity'') else
    and_then (Decoder_text d) (\<lambda>(cell, d).
    and_then (Decoder_bytes_fixed 16 d) (\<lambda>(nonce, d).
    and_then (Decoder_bytes_fixed 32 d) (\<lambda>(claimant, d).
    and_then (Decoder_uint d) (\<lambda>(expiry, d).
    and_then (Decoder_finish d) (\<lambda>_.
    Ok \<lparr>pr_cell = cell, pr_nonce = nonce, pr_claimant = claimant, pr_expiry = expiry\<rparr>))))))"

definition PresenceRequest_to_canonical :: "PresenceRequest \<Rightarrow> bytes" where
  "PresenceRequest_to_canonical r = encode_seq
    [Encoder_array 4, Encoder_text (pr_cell r), Encoder_bytes (pr_nonce r), Encoder_bytes (pr_claimant r),
     Encoder_uint (pr_expiry r)]"

record PresenceAttestation =
  pa_cell :: string
  pa_nonce :: bytes
  pa_claimant :: bytes
  pa_rtt_bucket :: u8
  pa_timestamp :: u64
  pa_witness :: bytes
  pa_signature :: bytes

definition attestation_input :: "string \<Rightarrow> bytes \<Rightarrow> bytes \<Rightarrow> u8 \<Rightarrow> u64 \<Rightarrow> bytes" where
  "attestation_input cell nonce claimant rtt_bucket timestamp =
     PRESENCE_CONTEXT @ u32_be (unwrap_or (-1) (try_u32_usize (length cell))) @ str_bytes cell
       @ nonce @ claimant @ [rtt_bucket] @ u64_be timestamp"

definition PresenceAttestation_sign ::
    "crypto \<Rightarrow> Identity \<Rightarrow> PresenceRequest \<Rightarrow> u8 \<Rightarrow> u64 \<Rightarrow> PresenceAttestation" where
  "PresenceAttestation_sign C witness request rtt_bucket timestamp =
    (let input = attestation_input (pr_cell request) (pr_nonce request) (pr_claimant request) rtt_bucket timestamp
     in \<lparr>pa_cell = pr_cell request, pa_nonce = pr_nonce request, pa_claimant = pr_claimant request,
         pa_rtt_bucket = rtt_bucket, pa_timestamp = timestamp, pa_witness = signing_public C witness,
         pa_signature = Identity_sign C witness input\<rparr>)"

definition PresenceAttestation_verify :: "crypto \<Rightarrow> PresenceAttestation \<Rightarrow> (unit, core_error) res" where
  "PresenceAttestation_verify C a =
    map_err (\<lambda>_. CoreVerify)
      (verify C (pa_witness a)
        (attestation_input (pa_cell a) (pa_nonce a) (pa_claimant a) (pa_rtt_bucket a) (pa_timestamp a))
        (pa_signature a))"

definition PresenceAttestation_to_canonical :: "PresenceAttestation \<Rightarrow> bytes" where
  "PresenceAttestation_to_canonical a = encode_seq
    [Encoder_array 7, Encoder_text (pa_cell a), Encoder_bytes (pa_nonce a), Encoder_bytes (pa_claimant a),
     Encoder_uint (ucast (pa_rtt_bucket a)), Encoder_uint (pa_timestamp a), Encoder_bytes (pa_witness a),
     Encoder_bytes (pa_signature a)]"

definition PresenceAttestation_from_canonical :: "bytes \<Rightarrow> (PresenceAttestation, core_error) res" where
  "PresenceAttestation_from_canonical bs =
    and_then (Decoder_array (Decoder_new bs)) (\<lambda>(n, d).
    if n \<noteq> 7 then Err (Cbor ''attestation arity'') else
    and_then (Decoder_text d) (\<lambda>(cell, d).
    and_then (Decoder_bytes_fixed 16 d) (\<lambda>(nonce, d).
    and_then (Decoder_bytes_fixed 32 d) (\<lambda>(claimant, d).
    and_then (Decoder_uint d) (\<lambda>(v, d). and_then (ok_or (Cbor ''rtt'') (try_u8 v)) (\<lambda>rtt_bucket.
    and_then (Decoder_uint d) (\<lambda>(timestamp, d).
    and_then (Decoder_bytes_fixed 32 d) (\<lambda>(witness, d).
    and_then (Decoder_bytes_fixed 64 d) (\<lambda>(signature, d).
    and_then (Decoder_finish d) (\<lambda>_.
    Ok \<lparr>pa_cell = cell, pa_nonce = nonce, pa_claimant = claimant, pa_rtt_bucket = rtt_bucket,
        pa_timestamp = timestamp, pa_witness = witness, pa_signature = signature\<rparr>))))))))))"

record PresenceCert =
  pc_request :: PresenceRequest
  pc_attestations :: "PresenceAttestation list"

text \<open>The loop of \<open>PresenceCert::verify\<close>, with its local \<open>seen\<close>.\<close>

fun verify_attestations ::
    "crypto \<Rightarrow> PresenceRequest \<Rightarrow> bytes list \<Rightarrow> PresenceAttestation list \<Rightarrow> (unit, core_error) res" where
  "verify_attestations C request seen [] = Ok ()"
| "verify_attestations C request seen (attestation # rest) =
    (if pa_cell attestation \<noteq> pr_cell request \<or> pa_nonce attestation \<noteq> pr_nonce request
        \<or> pa_claimant attestation \<noteq> pr_claimant request
     then Err (Invalid ''attestation does not match request'')
     else and_then (PresenceAttestation_verify C attestation) (\<lambda>_.
       if pa_witness attestation \<in> set seen then Err (Invalid ''duplicate witness'')
       else verify_attestations C request (seen @ [pa_witness attestation]) rest))"

definition PresenceCert_verify :: "crypto \<Rightarrow> PresenceCert \<Rightarrow> nat \<Rightarrow> (unit, core_error) res" where
  "PresenceCert_verify C cert threshold =
    (if length (pc_attestations cert) < threshold \<or> threshold = 0 then Err (Invalid ''insufficient attestations'')
     else verify_attestations C (pc_request cert) [] (pc_attestations cert))"

definition PresenceCert_verify_at :: "crypto \<Rightarrow> PresenceCert \<Rightarrow> nat \<Rightarrow> u64 \<Rightarrow> (unit, core_error) res" where
  "PresenceCert_verify_at C cert threshold now =
    (if pr_expiry (pc_request cert) \<noteq> 0 \<and> now > pr_expiry (pc_request cert)
     then Err (Invalid ''presence request expired'')
     else PresenceCert_verify C cert threshold)"

definition witness_count :: "PresenceCert \<Rightarrow> nat" where
  "witness_count cert = length (pc_attestations cert)"

section \<open>Encodings\<close>

definition request_wf :: "PresenceRequest \<Rightarrow> bool" where
  "request_wf r \<longleftrightarrow> str_ok (pr_cell r) \<and> length (pr_cell r) \<le> usize_max \<and> length (pr_nonce r) = 16
    \<and> length (pr_claimant r) = 32"

definition attestation_wf :: "PresenceAttestation \<Rightarrow> bool" where
  "attestation_wf a \<longleftrightarrow> str_ok (pa_cell a) \<and> length (pa_cell a) \<le> usize_max \<and> length (pa_nonce a) = 16
    \<and> length (pa_claimant a) = 32 \<and> length (pa_witness a) = 32 \<and> length (pa_signature a) = 64"

definition request_pieces :: "PresenceRequest \<Rightarrow> bytes list" where
  "request_pieces r = [array_bytes 4, text_bytes (pr_cell r), bytes_bytes (pr_nonce r),
     bytes_bytes (pr_claimant r), uint_bytes (pr_expiry r)]"

definition attestation_pieces :: "PresenceAttestation \<Rightarrow> bytes list" where
  "attestation_pieces a = [array_bytes 7, text_bytes (pa_cell a), bytes_bytes (pa_nonce a),
     bytes_bytes (pa_claimant a), uint_bytes (ucast (pa_rtt_bucket a)), uint_bytes (pa_timestamp a),
     bytes_bytes (pa_witness a), bytes_bytes (pa_signature a)]"

lemma request_to_canonical:
  "request_wf r \<Longrightarrow> PresenceRequest_to_canonical r = concat (request_pieces r)"
  unfolding PresenceRequest_to_canonical_def
  by (rule encode_seq_appends) (simp add: request_pieces_def request_wf_def appends_calls small_usize)

lemma attestation_to_canonical:
  "attestation_wf a \<Longrightarrow> PresenceAttestation_to_canonical a = concat (attestation_pieces a)"
  unfolding PresenceAttestation_to_canonical_def
  by (rule encode_seq_appends) (simp add: attestation_pieces_def attestation_wf_def appends_calls small_usize)

lemma request_complete:
  assumes "request_wf r" and "length (PresenceRequest_to_canonical r) \<le> usize_max"
  shows "PresenceRequest_from_canonical (PresenceRequest_to_canonical r) = Ok r"
proof -
  note len = assms(2) [unfolded request_to_canonical [OF assms(1)] request_pieces_def, simplified]
  show ?thesis
    unfolding PresenceRequest_from_canonical_def request_to_canonical [OF assms(1)] request_pieces_def Decoder_new_dec_at
    using assms(1) [unfolded request_wf_def] len by (simp add: wire_simps small_usize)
qed

lemma request_sound:
  assumes "PresenceRequest_from_canonical bs = Ok r"
  shows "request_wf r \<and> bs = PresenceRequest_to_canonical r"
proof -
  have "request_wf r \<and> bs = concat (request_pieces r)"
    using assms unfolding PresenceRequest_from_canonical_def Decoder_new_dec_at
    by (auto simp: request_wf_def request_pieces_def split: if_splits dest!: wire_dests)
  then show ?thesis by (simp add: request_to_canonical)
qed

lemma attestation_complete:
  assumes "attestation_wf a" and "length (PresenceAttestation_to_canonical a) \<le> usize_max"
  shows "PresenceAttestation_from_canonical (PresenceAttestation_to_canonical a) = Ok a"
proof -
  note len = assms(2) [unfolded attestation_to_canonical [OF assms(1)] attestation_pieces_def, simplified]
  show ?thesis
    unfolding PresenceAttestation_from_canonical_def attestation_to_canonical [OF assms(1)] attestation_pieces_def Decoder_new_dec_at
    using assms(1) [unfolded attestation_wf_def] len by (simp add: wire_simps small_usize)
qed

lemma attestation_sound:
  assumes "PresenceAttestation_from_canonical bs = Ok a"
  shows "attestation_wf a \<and> bs = PresenceAttestation_to_canonical a"
proof -
  have "attestation_wf a \<and> bs = concat (attestation_pieces a)"
    using assms unfolding PresenceAttestation_from_canonical_def Decoder_new_dec_at
    by (auto simp: attestation_wf_def attestation_pieces_def split: if_splits dest!: wire_dests try_u8_SomeD)
  then show ?thesis by (simp add: attestation_to_canonical)
qed

section \<open>Signatures\<close>

lemma attestation_input_inject:
  assumes "attestation_input c n p b t = attestation_input c' n' p' b' t'"
    and "length c \<le> u32_max" "length c' \<le> u32_max"
    and "length n = length n'" "length p = length p'"
  shows "c = c' \<and> n = n' \<and> p = p' \<and> b = b' \<and> t = t'"
proof -
  let ?l = "\<lambda>c. u32_be (unwrap_or (-1) (try_u32_usize (length c)))"
  have eq: "?l c @ str_bytes c @ n @ p @ [b] @ u64_be t = ?l c' @ str_bytes c' @ n' @ p' @ [b'] @ u64_be t'"
    using assms(1) by (simp add: attestation_input_def)
  then have "?l c = ?l c'" by (simp add: append_eq_same_length)
  then have "length c = length c'"
    using assms(2,3) by (simp add: try_u32_usize_def of_u32_inject)
  with eq show ?thesis using assms(4,5) by (simp add: append_eq_same_length)
qed

lemma verify_attestations_Ok_iff:
  "verify_attestations C request seen atts = Ok () \<longleftrightarrow>
    (\<forall>a \<in> set atts. pa_cell a = pr_cell request \<and> pa_nonce a = pr_nonce request
      \<and> pa_claimant a = pr_claimant request \<and> PresenceAttestation_verify C a = Ok ())
    \<and> distinct (map pa_witness atts) \<and> set (map pa_witness atts) \<inter> set seen = {}"
proof (induction atts arbitrary: seen)
  case (Cons a atts)
  show ?case
    by (cases "PresenceAttestation_verify C a") (auto simp: Cons)
qed simp

lemma PresenceAttestation_verify_sign [simp]:
  "ed25519_laws C \<Longrightarrow> identity_wf w \<Longrightarrow>
    PresenceAttestation_verify C (PresenceAttestation_sign C w r b t) = Ok ()"
  by (simp add: PresenceAttestation_verify_def PresenceAttestation_sign_def ed25519.sign_verify Let_def)

section \<open>Properties\<close>

text \<open>
  Requests and attestations have one byte form each: on any input that fits in memory
  the decoders return a value exactly when it is well formed and the input is what its
  encoder writes.
\<close>

lemma presence_canonical:
  assumes "length bs \<le> usize_max"
  shows "(PresenceRequest_from_canonical bs = Ok r \<longleftrightarrow> request_wf r \<and> bs = PresenceRequest_to_canonical r)
    \<and> (PresenceAttestation_from_canonical bs = Ok a
        \<longleftrightarrow> attestation_wf a \<and> bs = PresenceAttestation_to_canonical a)"
  using request_sound [of bs r] request_complete [of r] attestation_sound [of bs a] attestation_complete [of a] assms
  by auto

lemma presence_canonical_witness:
  "let r = \<lparr>pr_cell = ''8f'', pr_nonce = replicate 16 1, pr_claimant = replicate 32 2, pr_expiry = 99\<rparr>
   in PresenceRequest_from_canonical (PresenceRequest_to_canonical r) = Ok r"
proof -
  let ?r = "\<lparr>pr_cell = ''8f'', pr_nonce = replicate 16 1, pr_claimant = replicate 32 2, pr_expiry = 99\<rparr>"
  have wf: "request_wf ?r"
    by (simp add: request_wf_def str_ok_def str_bytes_def byte_of_def usize_max_def)
  have "length (PresenceRequest_to_canonical ?r) \<le> 1000"
    using wire_lengths(2) [of 4] wire_lengths(4) [of "''8f''"] wire_lengths(3) [of "replicate 16 1"]
      wire_lengths(3) [of "replicate 32 2"] wire_lengths(1) [of 99]
    by (simp add: request_to_canonical [OF wf] request_pieces_def)
  then have "length (PresenceRequest_to_canonical ?r) \<le> usize_max" by (simp add: usize_max_def)
  from presence_canonical [OF this, of ?r] wf show ?thesis by simp
qed

text \<open>
  C23. A certificate is accepted exactly when it proves presence to a threshold of witnesses:
  the threshold is positive and met, every attestation is about this request's cell, nonce
  and claimant and carries a valid signature, and no witness counts twice.
\<close>

theorem presence_cert_threshold:
  "PresenceCert_verify C cert threshold = Ok () \<longleftrightarrow>
    0 < threshold \<and> threshold \<le> card (pa_witness ` set (pc_attestations cert))
    \<and> distinct (map pa_witness (pc_attestations cert))
    \<and> (\<forall>a \<in> set (pc_attestations cert).
        verify C (pa_witness a) (attestation_input (pr_cell (pc_request cert)) (pr_nonce (pc_request cert))
          (pr_claimant (pc_request cert)) (pa_rtt_bucket a) (pa_timestamp a)) (pa_signature a) = Ok ()
        \<and> pa_cell a = pr_cell (pc_request cert) \<and> pa_nonce a = pr_nonce (pc_request cert)
        \<and> pa_claimant a = pr_claimant (pc_request cert))"
proof -
  have "card (pa_witness ` set (pc_attestations cert)) = length (pc_attestations cert)"
    if "distinct (map pa_witness (pc_attestations cert))"
    using distinct_card [OF that] by simp
  then show ?thesis
    by (auto simp: PresenceCert_verify_def verify_attestations_Ok_iff PresenceAttestation_verify_def split: if_splits)
qed

theorem presence_cert_threshold_witness:
  "let r = \<lparr>pr_cell = ''8f'', pr_nonce = replicate 16 1, pr_claimant = replicate 32 2, pr_expiry = 99\<rparr>;
       w = (\<lambda>n. \<lparr>signing = replicate 32 n, ecdh = replicate 32 0\<rparr>);
       cert = \<lparr>pc_request = r, pc_attestations = map (\<lambda>n. PresenceAttestation_sign toy_crypto (w n) r 0 7) [1, 2]\<rparr>
   in PresenceCert_verify toy_crypto cert 2 = Ok ()"
proof -
  let ?r = "\<lparr>pr_cell = ''8f'', pr_nonce = replicate 16 1, pr_claimant = replicate 32 2, pr_expiry = 99\<rparr>"
  let ?w = "\<lambda>n. \<lparr>signing = replicate 32 n, ecdh = replicate 32 0\<rparr>"
  let ?c = "\<lparr>pc_request = ?r, pc_attestations = map (\<lambda>n. PresenceAttestation_sign toy_crypto (?w n) ?r 0 7) [1, 2]\<rparr>"
  have wf: "identity_wf (?w n)" for n by (simp add: identity_wf_def)
  have d: "signing_public toy_crypto (?w 1) \<noteq> signing_public toy_crypto (?w 2)"
    by (simp add: signing_public_def toy_crypto_def pad_same replicate_eq_replicate)
  show ?thesis
    unfolding Let_def presence_cert_threshold
    using d ed25519.sign_verify [OF toy_ed25519_laws wf] by (simp add: PresenceAttestation_sign_def Let_def)
qed

text \<open>
  The expiry of a request is not attested. It is not part of what the witnesses sign, so
  whoever holds an accepted certificate can put any expiry into its request and the
  certificate is accepted as before; with expiry 0 it is accepted at every later time.
\<close>

lemma presence_expiry_not_bound:
  assumes "PresenceCert_verify_at C cert threshold now = Ok ()"
  shows "PresenceCert_verify C (cert\<lparr>pc_request := pc_request cert\<lparr>pr_expiry := e\<rparr>\<rparr>) threshold = Ok ()
    \<and> PresenceCert_verify_at C (cert\<lparr>pc_request := pc_request cert\<lparr>pr_expiry := 0\<rparr>\<rparr>) threshold later = Ok ()"
proof -
  have "PresenceCert_verify C cert threshold = Ok ()"
    using assms by (simp add: PresenceCert_verify_at_def split: if_splits)
  then have "PresenceCert_verify C (cert\<lparr>pc_request := pc_request cert\<lparr>pr_expiry := x\<rparr>\<rparr>) threshold = Ok ()" for x
    by (simp add: PresenceCert_verify_def verify_attestations_Ok_iff split: if_splits)
  then show ?thesis by (simp add: PresenceCert_verify_at_def)
qed

lemma presence_expiry_not_bound_witness:
  "let r = \<lparr>pr_cell = ''8f'', pr_nonce = replicate 16 1, pr_claimant = replicate 32 2, pr_expiry = 99\<rparr>;
       a = PresenceAttestation_sign toy_crypto \<lparr>signing = replicate 32 1, ecdh = replicate 32 0\<rparr> r 0 7;
       cert = \<lparr>pc_request = r, pc_attestations = [a]\<rparr>
   in PresenceCert_verify_at toy_crypto cert 1 98 = Ok ()
      \<and> PresenceCert_verify_at toy_crypto (cert\<lparr>pc_request := r\<lparr>pr_expiry := 0\<rparr>\<rparr>) 1 1000 = Ok ()"
proof -
  let ?r = "\<lparr>pr_cell = ''8f'', pr_nonce = replicate 16 1, pr_claimant = replicate 32 2, pr_expiry = 99\<rparr>"
  let ?w = "\<lparr>signing = replicate 32 1, ecdh = replicate 32 0\<rparr> :: Identity"
  let ?a = "PresenceAttestation_sign toy_crypto ?w ?r 0 7"
  have "identity_wf ?w" by (simp add: identity_wf_def)
  then have "PresenceAttestation_verify toy_crypto ?a = Ok ()" by simp
  then have "PresenceCert_verify_at toy_crypto \<lparr>pc_request = ?r, pc_attestations = [?a]\<rparr> 1 98 = Ok ()"
    by (simp add: PresenceCert_verify_at_def PresenceCert_verify_def PresenceAttestation_sign_def Let_def)
  with presence_expiry_not_bound [OF this, of 0 1000] show ?thesis by (simp add: Let_def)
qed

end
