(* ===== verification/Pow.thy ===== *)
theory Pow
  imports Crypto
begin

text \<open>
  Proof of work, \<open>crates/core/src/pow.rs\<close>. The difficulty test is related to the numeric value
  of the digest, and the mining loop, which wraps around the 64-bit nonce space and has no
  exit of its own, is a partial function: \<open>None\<close> is a loop that never returns.
\<close>

section \<open>The model\<close>

definition POW_DIFFICULTY_BITS :: nat where "POW_DIFFICULTY_BITS = 12"

definition POW_CONTEXT :: bytes where "POW_CONTEXT = str_bytes ''keepstone/v1/pow''"

text \<open>\<open>u8::leading_zeros\<close>\<close>

definition leading_zeros_u8 :: "u8 \<Rightarrow> nat" where
  "leading_zeros_u8 b =
    (if b < 1 then 8 else if b < 2 then 7 else if b < 4 then 6 else if b < 8 then 5
     else if b < 16 then 4 else if b < 32 then 3 else if b < 64 then 2 else if b < 128 then 1 else 0)"

text \<open>The counter is at most 256, so it needs no width.\<close>

fun leading_zero_bits :: "bytes \<Rightarrow> nat" where
  "leading_zero_bits [] = 0"
| "leading_zero_bits (byte # bs) =
    (if byte = 0 then 8 + leading_zero_bits bs else leading_zeros_u8 byte)"

definition pow_digest :: "crypto \<Rightarrow> bytes \<Rightarrow> bytes \<Rightarrow> bytes \<Rightarrow> u64 \<Rightarrow> bytes" where
  "pow_digest C signer content_root drop_nonce nonce =
     sha256 C (POW_CONTEXT @ signer @ content_root @ drop_nonce @ u64_be nonce)"

definition pow_is_valid :: "crypto \<Rightarrow> bytes \<Rightarrow> bytes \<Rightarrow> bytes \<Rightarrow> u64 \<Rightarrow> bool" where
  "pow_is_valid C signer content_root drop_nonce nonce \<longleftrightarrow>
     leading_zero_bits (pow_digest C signer content_root drop_nonce nonce) \<ge> POW_DIFFICULTY_BITS"

partial_function (option) mine_from :: "(u64 \<Rightarrow> bool) \<Rightarrow> u64 \<Rightarrow> u64 option" where
  "mine_from valid nonce = (if valid nonce then Some nonce else mine_from valid (nonce + 1))"

definition mine :: "crypto \<Rightarrow> bytes \<Rightarrow> bytes \<Rightarrow> bytes \<Rightarrow> u64 option" where
  "mine C signer content_root drop_nonce =
     mine_from (pow_is_valid C signer content_root drop_nonce) 0"

section \<open>Leading zeros\<close>

lemma leading_zeros_u8_spec:
  assumes "k \<le> 8"
  shows "k \<le> leading_zeros_u8 b \<longleftrightarrow> unat b < 2 ^ (8 - k)"
proof -
  from assms have "k \<in> {0, 1, 2, 3, 4, 5, 6, 7, 8}" by auto
  then show ?thesis
    using unat_bound [of b]
    by (elim insertE emptyE) (simp_all add: leading_zeros_u8_def word_less_nat_alt)
qed

lemma leading_zero_bits_spec:
  "k \<le> 8 * length bs \<Longrightarrow> k \<le> leading_zero_bits bs \<longleftrightarrow> be_nat bs < 2 ^ (8 * length bs - k)"
proof (induction bs arbitrary: k)
  case (Cons b bs)
  let ?n = "length bs"
  have r: "be_nat bs < 2 ^ (8 * ?n)" using be_nat_less [of bs] by (simp add: power_mult)
  show ?case
  proof (cases "k \<le> 8")
    case True
    then have e: "8 * length (b # bs) - k = (8 - k) + 8 * ?n" by simp
    have "unat b * 2 ^ (8 * ?n) + be_nat bs < 2 ^ (8 - k) * 2 ^ (8 * ?n) \<longleftrightarrow> unat b < 2 ^ (8 - k)"
    proof
      assume "unat b * 2 ^ (8 * ?n) + be_nat bs < 2 ^ (8 - k) * 2 ^ (8 * ?n)"
      then have "unat b * 2 ^ (8 * ?n) < 2 ^ (8 - k) * 2 ^ (8 * ?n)" by linarith
      then show "unat b < 2 ^ (8 - k)" by simp
    next
      assume "unat b < 2 ^ (8 - k)"
      then have "(unat b + 1) * 2 ^ (8 * ?n) \<le> 2 ^ (8 - k) * 2 ^ (8 * ?n)" by (intro mult_right_mono) simp_all
      with r show "unat b * 2 ^ (8 * ?n) + be_nat bs < 2 ^ (8 - k) * 2 ^ (8 * ?n)" by (simp add: distrib_right)
    qed
    then have "be_nat (b # bs) < 2 ^ (8 * length (b # bs) - k) \<longleftrightarrow> unat b < 2 ^ (8 - k)"
      unfolding e power_add by (simp add: power_mult)
    also have "\<dots> \<longleftrightarrow> k \<le> leading_zero_bits (b # bs)"
      using leading_zeros_u8_spec [OF True, of b] True by (auto simp: unat_eq_0)
    finally show ?thesis by simp
  next
    case False
    have e: "8 * length (b # bs) - k = 8 * ?n - (k - 8)" using False by simp
    show ?thesis
    proof (cases "b = 0")
      case True
      have "k \<le> leading_zero_bits (b # bs) \<longleftrightarrow> k - 8 \<le> leading_zero_bits bs" using True False by auto
      also have "\<dots> \<longleftrightarrow> be_nat bs < 2 ^ (8 * ?n - (k - 8))" using Cons by simp
      finally show ?thesis unfolding e using True by simp
    next
      case b: False
      have "(2 :: nat) ^ (8 * ?n - (k - 8)) \<le> 2 ^ (8 * ?n)" by (rule power_increasing) simp_all
      also have "\<dots> \<le> unat b * 2 ^ (8 * ?n)" using b unat_eq_0 [of b] by (simp add: Suc_le_eq)
      also have "\<dots> \<le> be_nat (b # bs)" by (simp add: power_mult)
      finally have "\<not> be_nat (b # bs) < 2 ^ (8 * length (b # bs) - k)" unfolding e by simp
      moreover have "leading_zeros_u8 b \<le> 8" by (simp add: leading_zeros_u8_def)
      ultimately show ?thesis using b False by simp
    qed
  qed
qed simp

section \<open>The mining loop\<close>

lemma mine_from_finds:
  assumes "valid (start + of_nat d)" and "\<And>k. k < d \<Longrightarrow> \<not> valid (start + of_nat k)"
  shows "mine_from valid start = Some (start + of_nat d)"
  using assms
proof (induction d arbitrary: start)
  case 0
  then show ?case by (subst mine_from.simps) simp
next
  case (Suc d)
  have "\<not> valid start" using Suc.prems(2) [of 0] by simp
  moreover have "mine_from valid (start + 1) = Some (start + 1 + of_nat d)"
    using Suc.prems(1) Suc.prems(2) [of "Suc _"] by (intro Suc.IH) (simp_all add: ac_simps)
  ultimately show ?case by (subst mine_from.simps) (simp add: ac_simps)
qed

lemma mine_from_valid: "mine_from valid start = Some nonce \<Longrightarrow> valid nonce"
  by (erule mine_from.raw_induct [rotated, where P = "\<lambda>valid start nonce. valid nonce"])
    (auto split: if_splits)

section \<open>Properties\<close>

text \<open>
  C17. The difficulty test is a numeric target. A proof of work is valid exactly when its
  digest, read as a 256-bit big-endian number, is below \<open>2\<^sup>2\<^sup>4\<^sup>4\<close>.
\<close>

theorem pow_target:
  assumes "sha256_laws C"
  shows "pow_is_valid C signer content_root drop_nonce nonce \<longleftrightarrow>
    be_nat (sha256 C (POW_CONTEXT @ signer @ content_root @ drop_nonce @ u64_be nonce)) < 2 ^ 244"
  using leading_zero_bits_spec [of 12 "pow_digest C signer content_root drop_nonce nonce"] assms
  by (simp add: pow_is_valid_def POW_DIFFICULTY_BITS_def sha256_laws_def pow_digest_def)

theorem pow_target_witness:
  "\<not> pow_is_valid toy_crypto (replicate 32 1) (replicate 32 2) (replicate 16 3) 5"
proof -
  let ?m = "POW_CONTEXT @ replicate 32 1 @ replicate 32 2 @ replicate 16 3 @ u64_be 5"
  have d: "sha256 toy_crypto ?m = 0x6B # map byte_of ''eepstone/v1/pow'' @ replicate 16 1"
    by (simp add: toy_crypto_def pad_def POW_CONTEXT_def str_bytes_def byte_of_def)
  have "(2 :: nat) ^ 244 \<le> 0x6B * 256 ^ 31" by simp
  also have "\<dots> \<le> be_nat (0x6B # map byte_of ''eepstone/v1/pow'' @ replicate 16 1)" by simp
  finally have "\<not> be_nat (sha256 toy_crypto ?m) < 2 ^ 244" unfolding d by simp
  then show ?thesis using pow_target [OF toy_sha256_laws] by blast
qed

text \<open>
  C18. Mining is correct and returns exactly when it can. The loop returns if and only if some
  64-bit nonce meets the target; the nonce it returns is valid and is the smallest valid
  one.
\<close>

theorem mine_correct:
  "case mine C signer content_root drop_nonce of
     Some nonce \<Rightarrow> pow_is_valid C signer content_root drop_nonce nonce
       \<and> (\<forall>n < nonce. \<not> pow_is_valid C signer content_root drop_nonce n)
   | None \<Rightarrow> (\<forall>n. \<not> pow_is_valid C signer content_root drop_nonce n)"
proof -
  let ?v = "pow_is_valid C signer content_root drop_nonce"
  show ?thesis
  proof (cases "\<exists>n. ?v n")
    case True
    define d where "d = (LEAST d. ?v (of_nat d))"
    from True obtain n where "?v n" by blast
    then have "?v (of_nat (unat n))" by simp
    then have d: "?v (of_nat d)" unfolding d_def by (rule LeastI)
    have less: "\<not> ?v (of_nat k)" if "k < d" for k using that unfolding d_def by (rule not_less_Least)
    have "d \<le> unat (of_nat d :: u64)"
      using less [of "unat (of_nat d :: u64)"] d by (intro leI) auto
    then have dn: "unat (of_nat d :: u64) = d"
      by (intro antisym) (simp_all add: unat_of_nat)
    have "\<not> ?v n" if "n < of_nat d" for n
      using less [of "unat n"] that by (simp add: word_less_nat_alt dn)
    then have "\<forall>n < of_nat d. \<not> ?v n" by blast
    moreover have "mine C signer content_root drop_nonce = Some (of_nat d)"
      unfolding mine_def using mine_from_finds [of ?v 0 d] d less by simp
    ultimately show ?thesis using d by simp
  next
    case False
    then have "mine_from ?v 0 = None" using mine_from_valid [of ?v 0] by (cases "mine_from ?v 0") auto
    with False show ?thesis by (simp add: mine_def)
  qed
qed

theorem mine_correct_witness:
  "mine (toy_crypto\<lparr>sha256 := \<lambda>_. replicate 32 0\<rparr>) (replicate 32 1) (replicate 32 2) (replicate 16 3) = Some 0"
proof -
  let ?C = "toy_crypto\<lparr>sha256 := \<lambda>_. replicate 32 0\<rparr>"
  let ?v = "pow_is_valid ?C (replicate 32 1) (replicate 32 2) (replicate 16 3)"
  have v: "?v n" for n
  proof -
    have "leading_zero_bits (replicate 32 0) = 256" by code_simp
    then show ?thesis by (simp add: pow_is_valid_def pow_digest_def POW_DIFFICULTY_BITS_def)
  qed
  show ?thesis
    using mine_correct [of ?C "replicate 32 1" "replicate 32 2" "replicate 16 3"] v
    by (auto simp: not_less dest: spec [of _ 0] split: option.splits)
qed

end
