(* ===== verification/Drop_Types.thy ===== *)
theory Drop_Types
  imports Cbor Hybrid Pow
begin

text \<open>
  The wire types of \<open>crates/core/src/types.rs\<close>: drop identifiers, drop bodies and their
  canonical encoding, signed envelopes and the content root. \<open>Vec::with_capacity\<close> on a count
  that was read from the input is part of the model: it panics when the allocation would
  exceed \<open>isize::MAX\<close> bytes.
\<close>

section \<open>Constants and identifiers\<close>

definition PROTOCOL_VERSION :: u8 where "PROTOCOL_VERSION = 1"
definition DROP_CONTEXT :: bytes where "DROP_CONTEXT = str_bytes ''keepstone/v1/drop''"
definition SIG_ED25519 :: u8 where "SIG_ED25519 = 1"
definition SIG_HYBRID :: u8 where "SIG_HYBRID = 2"
definition MIN_TAGS :: nat where "MIN_TAGS = 16"

datatype DropId = DropId (as_bytes: bytes)

definition DropId_of :: "crypto \<Rightarrow> bytes \<Rightarrow> DropId" where
  "DropId_of C bs = DropId (sha256 C bs)"

text \<open>The crate \<open>hex\<close> is a parameter: an encoder, and a decoder that may refuse.\<close>

definition DropId_to_hex :: "(bytes \<Rightarrow> string) \<Rightarrow> DropId \<Rightarrow> string" where
  "DropId_to_hex hex_encode i = hex_encode (as_bytes i)"

definition DropId_from_hex :: "(string \<Rightarrow> bytes option) \<Rightarrow> string \<Rightarrow> (DropId, core_error) res" where
  "DropId_from_hex hex_decode text =
    and_then (ok_or (Invalid ''bad hex'') (hex_decode text)) (\<lambda>bs.
    if length bs \<noteq> 32 then Err (Invalid ''bad id length'') else Ok (DropId bs))"

datatype Mode = Capability | PlaceLocked

fun mode_id :: "Mode \<Rightarrow> u8" where
  "mode_id Capability = 0"
| "mode_id PlaceLocked = 1"

definition mode_from_id :: "u8 \<Rightarrow> (Mode, core_error) res" where
  "mode_from_id i =
    (if i = 0 then Ok Capability
     else if i = 1 then Ok PlaceLocked
     else Err (Invalid ''unknown mode''))"

section \<open>Drop bodies\<close>

datatype SealedContentKey = Classical SealedKey | Hybrid HybridSealed

fun sealed_suite_id :: "SealedContentKey \<Rightarrow> u8" where
  "sealed_suite_id (Classical _) = 1"
| "sealed_suite_id (Hybrid _) = 2"

record WrappedKey =
  wk_tag :: bytes
  wk_sealed :: SealedContentKey

record DropBody =
  db_version :: u8
  db_suite :: u8
  db_cell :: string
  db_ring :: u32
  db_created_at :: u64
  db_expiry :: u64
  db_mode :: u8
  db_chunk_size :: u32
  db_chunk_count :: u32
  db_content_root :: bytes
  db_prefix :: bytes
  db_drop_nonce :: bytes
  db_pow_nonce :: u64
  db_wrapped_keys :: "WrappedKey list"

fun encode_sealed :: "SealedContentKey \<Rightarrow> (Encoder \<Rightarrow> Encoder) list" where
  "encode_sealed (Classical sealed) =
    [Encoder_uint 1, Encoder_array 3, Encoder_bytes (ephemeral_public sealed),
     Encoder_bytes (sk_nonce sealed), Encoder_bytes (sk_ciphertext sealed)]"
| "encode_sealed (Hybrid sealed) =
    [Encoder_uint 2, Encoder_array 4, Encoder_bytes (ephemeral_x25519 sealed),
     Encoder_bytes (kem_ciphertext sealed), Encoder_bytes (hs_nonce sealed),
     Encoder_bytes (hs_ciphertext sealed)]"

definition encode_wrapped :: "WrappedKey \<Rightarrow> (Encoder \<Rightarrow> Encoder) list" where
  "encode_wrapped w = [Encoder_array 3, Encoder_bytes (wk_tag w)] @ encode_sealed (wk_sealed w)"

definition DropBody_to_canonical :: "DropBody \<Rightarrow> bytes" where
  "DropBody_to_canonical b = encode_seq (
    [Encoder_array 14,
     Encoder_uint (ucast (db_version b)),
     Encoder_uint (ucast (db_suite b)),
     Encoder_text (db_cell b),
     Encoder_uint (ucast (db_ring b)),
     Encoder_uint (db_created_at b),
     Encoder_uint (db_expiry b),
     Encoder_uint (ucast (db_mode b)),
     Encoder_uint (ucast (db_chunk_size b)),
     Encoder_uint (ucast (db_chunk_count b)),
     Encoder_bytes (db_content_root b),
     Encoder_bytes (db_prefix b),
     Encoder_bytes (db_drop_nonce b),
     Encoder_uint (db_pow_nonce b),
     Encoder_array (length (db_wrapped_keys b))]
    @ concat (map encode_wrapped (db_wrapped_keys b)))"

text \<open>
  The body of the loop over the wrapped keys. A \<open>WrappedKey\<close> holds its 8-byte tag and room
  for a \<open>HybridSealed\<close> (two arrays of 32 and 24 bytes and two vectors of three words), so it
  is 112 bytes.
\<close>

definition decode_sealed :: "Decoder \<Rightarrow> (SealedContentKey \<times> Decoder, core_error) res" where
  "decode_sealed d =
    and_then (Decoder_uint d) (\<lambda>(kind, d).
    if kind = 1 then
      and_then (Decoder_array d) (\<lambda>(n, d).
      if n \<noteq> 3 then Err (Cbor ''classical sealed arity'') else
      and_then (Decoder_bytes_fixed 32 d) (\<lambda>(e, d).
      and_then (Decoder_bytes_fixed 24 d) (\<lambda>(nonce, d).
      and_then (Decoder_bytes d) (\<lambda>(c, d).
      Ok (Classical \<lparr>ephemeral_public = e, sk_nonce = nonce, sk_ciphertext = c\<rparr>, d)))))
    else if kind = 2 then
      and_then (Decoder_array d) (\<lambda>(n, d).
      if n \<noteq> 4 then Err (Cbor ''hybrid sealed arity'') else
      and_then (Decoder_bytes_fixed 32 d) (\<lambda>(e, d).
      and_then (Decoder_bytes d) (\<lambda>(k, d).
      and_then (Decoder_bytes_fixed 24 d) (\<lambda>(nonce, d).
      and_then (Decoder_bytes d) (\<lambda>(c, d).
      Ok (Hybrid \<lparr>ephemeral_x25519 = e, kem_ciphertext = k, hs_nonce = nonce, hs_ciphertext = c\<rparr>, d))))))
    else Err (Cbor ''unknown sealed key kind''))"

definition decode_wrapped :: "Decoder \<Rightarrow> (WrappedKey \<times> Decoder, core_error) res" where
  "decode_wrapped d =
    and_then (Decoder_array d) (\<lambda>(n, d).
    if n \<noteq> 3 then Err (Cbor ''wrapped key arity'') else
    and_then (Decoder_bytes_fixed 8 d) (\<lambda>(tag, d).
    and_then (decode_sealed d) (\<lambda>(sealed, d).
    Ok (\<lparr>wk_tag = tag, wk_sealed = sealed\<rparr>, d))))"

definition wrapped_key_size :: nat where "wrapped_key_size = 112"

definition with_capacity :: "nat \<Rightarrow> nat \<Rightarrow> (unit, 'e) res" where
  "with_capacity element_size n = (if n * element_size \<le> isize_max then Ok () else Panic)"

definition cbor_field :: "string \<Rightarrow> 'a option \<Rightarrow> ('a, core_error) res" where
  "cbor_field name v = ok_or (Cbor name) v"

definition DropBody_from_canonical :: "bytes \<Rightarrow> (DropBody, core_error) res" where
  "DropBody_from_canonical bs =
    and_then (Decoder_array (Decoder_new bs)) (\<lambda>(n, d).
    if n \<noteq> 14 then Err (Cbor ''drop body arity'') else
    and_then (Decoder_uint d) (\<lambda>(v, d). and_then (cbor_field ''version'' (try_u8 v)) (\<lambda>version.
    and_then (Decoder_uint d) (\<lambda>(v, d). and_then (cbor_field ''suite'' (try_u8 v)) (\<lambda>suite.
    and_then (Decoder_text d) (\<lambda>(cell, d).
    and_then (Decoder_uint d) (\<lambda>(v, d). and_then (cbor_field ''ring'' (try_u32 v)) (\<lambda>ring.
    and_then (Decoder_uint d) (\<lambda>(created_at, d).
    and_then (Decoder_uint d) (\<lambda>(expiry, d).
    and_then (Decoder_uint d) (\<lambda>(v, d). and_then (cbor_field ''mode'' (try_u8 v)) (\<lambda>mode.
    and_then (Decoder_uint d) (\<lambda>(v, d). and_then (cbor_field ''chunk_size'' (try_u32 v)) (\<lambda>chunk_size.
    and_then (Decoder_uint d) (\<lambda>(v, d). and_then (cbor_field ''chunk_count'' (try_u32 v)) (\<lambda>chunk_count.
    and_then (Decoder_bytes_fixed 32 d) (\<lambda>(content_root, d).
    and_then (Decoder_bytes_fixed 20 d) (\<lambda>(prefix, d).
    and_then (Decoder_bytes_fixed 16 d) (\<lambda>(drop_nonce, d).
    and_then (Decoder_uint d) (\<lambda>(pow_nonce, d).
    and_then (Decoder_array d) (\<lambda>(wrapped_count, d).
    and_then (with_capacity wrapped_key_size wrapped_count) (\<lambda>_.
    and_then (decode_many decode_wrapped wrapped_count d) (\<lambda>(wrapped_keys, d).
    and_then (Decoder_finish d) (\<lambda>_.
    Ok \<lparr>db_version = version, db_suite = suite, db_cell = cell, db_ring = ring,
        db_created_at = created_at, db_expiry = expiry, db_mode = mode, db_chunk_size = chunk_size,
        db_chunk_count = chunk_count, db_content_root = content_root, db_prefix = prefix,
        db_drop_nonce = drop_nonce, db_pow_nonce = pow_nonce, db_wrapped_keys = wrapped_keys\<rparr>
    ))))))))))))))))))))))))"

definition DropBody_pow_ok :: "crypto \<Rightarrow> DropBody \<Rightarrow> bytes \<Rightarrow> bool" where
  "DropBody_pow_ok C b signer =
     pow_is_valid C signer (db_content_root b) (db_drop_nonce b) (db_pow_nonce b)"

section \<open>Signed envelopes\<close>

definition signing_input :: "bytes \<Rightarrow> bytes" where
  "signing_input payload =
     DROP_CONTEXT @ u32_be (unwrap_or (-1) (try_u32_usize (length payload))) @ payload"

definition encode_envelope :: "u8 \<Rightarrow> u8 \<Rightarrow> bytes \<Rightarrow> bytes \<Rightarrow> bytes \<Rightarrow> bytes \<Rightarrow> bytes" where
  "encode_envelope suite sig_kind signer ml_dsa_key payload signature = encode_seq
    [Encoder_array 6, Encoder_uint (ucast suite), Encoder_uint (ucast sig_kind), Encoder_bytes signer,
     Encoder_bytes ml_dsa_key, Encoder_bytes payload, Encoder_bytes signature]"

record SignedDrop =
  sd_suite :: u8
  sd_sig_kind :: u8
  sd_signer :: bytes
  sd_ml_dsa_key :: bytes
  sd_payload :: bytes
  sd_signature :: bytes
  sd_raw :: bytes

definition SignedDrop_sign :: "crypto \<Rightarrow> Identity \<Rightarrow> DropBody \<Rightarrow> SignedDrop" where
  "SignedDrop_sign C identity body =
    (let payload = DropBody_to_canonical body;
         signature = Identity_sign C identity (signing_input payload);
         signer = signing_public C identity;
         raw = encode_envelope (db_suite body) SIG_ED25519 signer [] payload signature
     in \<lparr>sd_suite = db_suite body, sd_sig_kind = SIG_ED25519, sd_signer = signer, sd_ml_dsa_key = [],
         sd_payload = payload, sd_signature = signature, sd_raw = raw\<rparr>)"

definition SignedDrop_sign_hybrid ::
    "crypto \<Rightarrow> Identity \<Rightarrow> MlDsaKeypair \<Rightarrow> DropBody \<Rightarrow> (SignedDrop, core_error) res" where
  "SignedDrop_sign_hybrid C identity ml_dsa body =
    (let payload = DropBody_to_canonical body;
         input = signing_input payload;
         ed25519 = Identity_sign C identity input
     in and_then (map_err Crypto (MlDsaKeypair_sign C ml_dsa input)) (\<lambda>ml_dsa_signature.
        let signature = ed25519 @ ml_dsa_signature;
            signer = signing_public C identity;
            ml_dsa_key = MlDsaKeypair_verifying_key_bytes C ml_dsa;
            raw = encode_envelope (db_suite body) SIG_HYBRID signer ml_dsa_key payload signature
        in Ok \<lparr>sd_suite = db_suite body, sd_sig_kind = SIG_HYBRID, sd_signer = signer,
               sd_ml_dsa_key = ml_dsa_key, sd_payload = payload, sd_signature = signature, sd_raw = raw\<rparr>))"

definition SignedDrop_decode :: "bytes \<Rightarrow> (SignedDrop, core_error) res" where
  "SignedDrop_decode bs =
    and_then (Decoder_array (Decoder_new bs)) (\<lambda>(n, d).
    if n \<noteq> 6 then Err (Cbor ''envelope arity'') else
    and_then (Decoder_uint d) (\<lambda>(v, d). and_then (cbor_field ''suite'' (try_u8 v)) (\<lambda>suite.
    and_then (Decoder_uint d) (\<lambda>(v, d). and_then (cbor_field ''sig_kind'' (try_u8 v)) (\<lambda>sig_kind.
    and_then (Decoder_bytes_fixed 32 d) (\<lambda>(signer, d).
    and_then (Decoder_bytes d) (\<lambda>(ml_dsa_key, d).
    and_then (Decoder_bytes d) (\<lambda>(payload, d).
    and_then (Decoder_bytes d) (\<lambda>(signature, d).
    and_then (Decoder_finish d) (\<lambda>_.
    Ok \<lparr>sd_suite = suite, sd_sig_kind = sig_kind, sd_signer = signer, sd_ml_dsa_key = ml_dsa_key,
        sd_payload = payload, sd_signature = signature, sd_raw = bs\<rparr>))))))))))"

definition SignedDrop_id :: "crypto \<Rightarrow> SignedDrop \<Rightarrow> DropId" where
  "SignedDrop_id C s = DropId_of C (sd_raw s)"

definition SignedDrop_verify :: "crypto \<Rightarrow> SignedDrop \<Rightarrow> (unit, core_error) res" where
  "SignedDrop_verify C s =
    (let input = signing_input (sd_payload s) in
     if sd_sig_kind s = SIG_ED25519 then
       (if length (sd_signature s) \<noteq> 64 then Err CoreVerify
        else map_err (\<lambda>_. CoreVerify) (verify C (sd_signer s) input (sd_signature s)))
     else if sd_sig_kind s = SIG_HYBRID then
       (if length (sd_signature s) < 64 \<or> sd_ml_dsa_key s = [] then Err CoreVerify
        else let ed25519 = take 64 (sd_signature s) in
          and_then (map_err Crypto (verify_ml_dsa C (sd_ml_dsa_key s) input (drop 64 (sd_signature s)))) (\<lambda>_.
          map_err (\<lambda>_. CoreVerify) (verify C (sd_signer s) input ed25519)))
     else Err CoreVerify)"

definition SignedDrop_body :: "SignedDrop \<Rightarrow> (DropBody, core_error) res" where
  "SignedDrop_body s = DropBody_from_canonical (sd_payload s)"

definition content_root :: "crypto \<Rightarrow> bytes list \<Rightarrow> bytes" where
  "content_root C chunks = sha256 C (concat (map (sha256 C) chunks))"

section \<open>Encoded forms\<close>

fun sealed_pieces :: "SealedContentKey \<Rightarrow> bytes list" where
  "sealed_pieces (Classical s) = [uint_bytes 1, array_bytes 3, bytes_bytes (ephemeral_public s),
     bytes_bytes (sk_nonce s), bytes_bytes (sk_ciphertext s)]"
| "sealed_pieces (Hybrid s) = [uint_bytes 2, array_bytes 4, bytes_bytes (ephemeral_x25519 s),
     bytes_bytes (kem_ciphertext s), bytes_bytes (hs_nonce s), bytes_bytes (hs_ciphertext s)]"

fun sealed_wf :: "SealedContentKey \<Rightarrow> bool" where
  "sealed_wf (Classical s) \<longleftrightarrow> length (ephemeral_public s) = 32 \<and> length (sk_nonce s) = 24
     \<and> length (sk_ciphertext s) \<le> usize_max"
| "sealed_wf (Hybrid s) \<longleftrightarrow> length (ephemeral_x25519 s) = 32 \<and> length (hs_nonce s) = 24
     \<and> length (kem_ciphertext s) \<le> usize_max \<and> length (hs_ciphertext s) \<le> usize_max"

definition wrapped_pieces :: "WrappedKey \<Rightarrow> bytes list" where
  "wrapped_pieces w = [array_bytes 3, bytes_bytes (wk_tag w)] @ sealed_pieces (wk_sealed w)"

definition wrapped_wf :: "WrappedKey \<Rightarrow> bool" where
  "wrapped_wf w \<longleftrightarrow> length (wk_tag w) = 8 \<and> sealed_wf (wk_sealed w)"

interpretation sealed_item: codec "\<lambda>s. concat (sealed_pieces s)" decode_sealed sealed_wf
proof
  fix s and ctx rest :: bytes
  assume "sealed_wf s" "length ctx + length (concat (sealed_pieces s)) \<le> usize_max"
  then show "decode_sealed (dec_at ctx (concat (sealed_pieces s) @ rest))
      = Ok (s, dec_at (ctx @ concat (sealed_pieces s)) rest)"
    by (cases s) (simp_all add: decode_sealed_def wire_simps small_usize)
next
  fix ctx s v d
  assume "decode_sealed (dec_at ctx s) = Ok (v, d)"
  then show "sealed_wf v \<and> (\<exists>rest. s = concat (sealed_pieces v) @ rest \<and> d = dec_at (ctx @ concat (sealed_pieces v)) rest)"
    by (auto simp: decode_sealed_def split: if_splits dest!: wire_dests)
qed

interpretation wrapped_item: codec "\<lambda>w. concat (wrapped_pieces w)" decode_wrapped wrapped_wf
proof
  fix w and ctx rest :: bytes
  assume "wrapped_wf w" "length ctx + length (concat (wrapped_pieces w)) \<le> usize_max"
  then show "decode_wrapped (dec_at ctx (concat (wrapped_pieces w) @ rest))
      = Ok (w, dec_at (ctx @ concat (wrapped_pieces w)) rest)"
    by (simp add: decode_wrapped_def wrapped_wf_def wrapped_pieces_def wire_simps sealed_item.complete small_usize)
next
  fix ctx s w d
  assume "decode_wrapped (dec_at ctx s) = Ok (w, d)"
  then show "wrapped_wf w \<and> (\<exists>rest. s = concat (wrapped_pieces w) @ rest \<and> d = dec_at (ctx @ concat (wrapped_pieces w)) rest)"
    by (auto simp: decode_wrapped_def wrapped_wf_def wrapped_pieces_def split: if_splits dest!: wire_dests sealed_item.sound)
qed

lemma encode_wrapped_pieces: "wrapped_wf w \<Longrightarrow> list_all2 appends (encode_wrapped w) (wrapped_pieces w)"
  by (cases "wk_sealed w") (simp_all add: wrapped_wf_def encode_wrapped_def wrapped_pieces_def appends_calls small_usize)

section \<open>The encoding of a body\<close>

definition body_head :: "DropBody \<Rightarrow> bytes list" where
  "body_head b =
    [array_bytes 14, uint_bytes (ucast (db_version b)), uint_bytes (ucast (db_suite b)), text_bytes (db_cell b),
     uint_bytes (ucast (db_ring b)), uint_bytes (db_created_at b), uint_bytes (db_expiry b),
     uint_bytes (ucast (db_mode b)), uint_bytes (ucast (db_chunk_size b)), uint_bytes (ucast (db_chunk_count b)),
     bytes_bytes (db_content_root b), bytes_bytes (db_prefix b), bytes_bytes (db_drop_nonce b),
     uint_bytes (db_pow_nonce b), array_bytes (length (db_wrapped_keys b))]"

text \<open>
  The values a \<open>DropBody\<close> can have: array lengths, a valid UTF-8 cell, and a vector of
  wrapped keys that fits in memory.
\<close>

definition body_wf :: "DropBody \<Rightarrow> bool" where
  "body_wf b \<longleftrightarrow> str_ok (db_cell b) \<and> length (db_cell b) \<le> usize_max
    \<and> length (db_content_root b) = 32 \<and> length (db_prefix b) = 20 \<and> length (db_drop_nonce b) = 16
    \<and> (\<forall>w \<in> set (db_wrapped_keys b). wrapped_wf w)
    \<and> length (db_wrapped_keys b) * wrapped_key_size \<le> isize_max"

lemma body_wf_count: "body_wf b \<Longrightarrow> length (db_wrapped_keys b) \<le> usize_max"
  by (simp add: body_wf_def wrapped_key_size_def isize_max_def usize_max_def)

lemma list_all2_concat_map:
  "(\<And>x. x \<in> set xs \<Longrightarrow> list_all2 P (f x) (g x)) \<Longrightarrow> list_all2 P (concat (map f xs)) (concat (map g xs))"
  by (induction xs) (auto intro: list_all2_appendI)

lemma concat_concat_map: "concat (concat (map f xs)) = concat (map (\<lambda>x. concat (f x)) xs)"
  by (induction xs) simp_all

lemma to_canonical_pieces:
  assumes "body_wf b"
  shows "DropBody_to_canonical b = concat (body_head b) @ concat (map (\<lambda>w. concat (wrapped_pieces w)) (db_wrapped_keys b))"
proof -
  have "list_all2 appends (concat (map encode_wrapped (db_wrapped_keys b)))
      (concat (map wrapped_pieces (db_wrapped_keys b)))"
    using assms by (intro list_all2_concat_map encode_wrapped_pieces) (simp add: body_wf_def)
  then have "DropBody_to_canonical b = concat (body_head b @ concat (map wrapped_pieces (db_wrapped_keys b)))"
    unfolding DropBody_to_canonical_def
    by (intro encode_seq_appends list_all2_appendI)
      (use assms body_wf_count [OF assms] in \<open>simp add: body_head_def body_wf_def appends_calls small_usize\<close>)
  then show ?thesis by (simp add: concat_concat_map)
qed

lemma body_complete:
  assumes "body_wf b" and "length (DropBody_to_canonical b) \<le> usize_max"
  shows "DropBody_from_canonical (DropBody_to_canonical b) = Ok b"
proof -
  note len = assms(2) [unfolded to_canonical_pieces [OF assms(1)] body_head_def, simplified]
  note wf = assms(1) [unfolded body_wf_def] body_wf_count [OF assms(1)]
  have many: "decode_many decode_wrapped (length (db_wrapped_keys b))
      (dec_at ctx (concat (map (\<lambda>w. concat (wrapped_pieces w)) (db_wrapped_keys b))))
    = Ok (db_wrapped_keys b, dec_at (ctx @ concat (map (\<lambda>w. concat (wrapped_pieces w)) (db_wrapped_keys b))) [])"
    if "length ctx + length (concat (map (\<lambda>w. concat (wrapped_pieces w)) (db_wrapped_keys b))) \<le> usize_max" for ctx
    using wrapped_item.many_complete [of "db_wrapped_keys b" ctx "[]"] wf that by simp
  show ?thesis
    unfolding DropBody_from_canonical_def to_canonical_pieces [OF assms(1)] body_head_def Decoder_new_dec_at
    using wf len by (simp add: wire_simps many cbor_field_def with_capacity_def small_usize)
qed

lemma body_sound:
  assumes "DropBody_from_canonical bs = Ok b"
  shows "body_wf b \<and> bs = DropBody_to_canonical b"
proof -
  have "body_wf b \<and> bs = concat (body_head b) @ concat (map (\<lambda>w. concat (wrapped_pieces w)) (db_wrapped_keys b))"
    using assms unfolding DropBody_from_canonical_def Decoder_new_dec_at
    by (auto simp: cbor_field_def with_capacity_def body_wf_def body_head_def
        split: if_splits dest!: wire_dests try_u8_SomeD try_u32_SomeD wrapped_item.many_sound)
  then show ?thesis by (simp add: to_canonical_pieces)
qed

section \<open>The encoding of an envelope\<close>

definition envelope_wf :: "SignedDrop \<Rightarrow> bool" where
  "envelope_wf s \<longleftrightarrow> length (sd_signer s) = 32 \<and> length (sd_ml_dsa_key s) \<le> usize_max
    \<and> length (sd_payload s) \<le> usize_max \<and> length (sd_signature s) \<le> usize_max"

definition envelope_pieces :: "u8 \<Rightarrow> u8 \<Rightarrow> bytes \<Rightarrow> bytes \<Rightarrow> bytes \<Rightarrow> bytes \<Rightarrow> bytes list" where
  "envelope_pieces suite sig_kind signer ml_dsa_key payload signature =
    [array_bytes 6, uint_bytes (ucast suite), uint_bytes (ucast sig_kind), bytes_bytes signer,
     bytes_bytes ml_dsa_key, bytes_bytes payload, bytes_bytes signature]"

definition envelope_of :: "SignedDrop \<Rightarrow> bytes" where
  "envelope_of s = encode_envelope (sd_suite s) (sd_sig_kind s) (sd_signer s) (sd_ml_dsa_key s)
     (sd_payload s) (sd_signature s)"

lemma envelope_of_pieces:
  "envelope_wf s \<Longrightarrow> envelope_of s = concat (envelope_pieces (sd_suite s) (sd_sig_kind s) (sd_signer s)
    (sd_ml_dsa_key s) (sd_payload s) (sd_signature s))"
  unfolding envelope_of_def encode_envelope_def
  by (rule encode_seq_appends) (simp add: envelope_pieces_def envelope_wf_def appends_calls small_usize)

lemma envelope_complete:
  assumes "envelope_wf s" and "length (envelope_of s) \<le> usize_max" and "sd_raw s = envelope_of s"
  shows "SignedDrop_decode (envelope_of s) = Ok s"
proof -
  note len = assms(2) [unfolded envelope_of_pieces [OF assms(1)] envelope_pieces_def, simplified]
  have raw: "s = s\<lparr>sd_raw := envelope_of s\<rparr>" using assms(3) by (cases s) simp
  have "SignedDrop_decode (envelope_of s) = Ok (s\<lparr>sd_raw := envelope_of s\<rparr>)"
    unfolding SignedDrop_decode_def envelope_of_pieces [OF assms(1)] envelope_pieces_def Decoder_new_dec_at
    using assms(1) [unfolded envelope_wf_def] len
    by (cases s) (simp add: wire_simps cbor_field_def small_usize)
  with raw show ?thesis by simp
qed

lemma envelope_sound:
  assumes "SignedDrop_decode bs = Ok s"
  shows "envelope_wf s \<and> bs = envelope_of s \<and> sd_raw s = bs"
proof -
  have "envelope_wf s \<and> bs = concat (envelope_pieces (sd_suite s) (sd_sig_kind s) (sd_signer s)
      (sd_ml_dsa_key s) (sd_payload s) (sd_signature s)) \<and> sd_raw s = bs"
    using assms unfolding SignedDrop_decode_def Decoder_new_dec_at
    by (auto simp: cbor_field_def envelope_wf_def envelope_pieces_def
        split: if_splits dest!: wire_dests try_u8_SomeD)
  then show ?thesis using envelope_of_pieces by auto
qed

lemma length_envelope:
  "envelope_wf s \<Longrightarrow> length (envelope_of s) \<le>
    95 + length (sd_ml_dsa_key s) + length (sd_payload s) + length (sd_signature s)"
  using length_array_bytes [of 6] length_uint_bytes [of "ucast (sd_suite s)"]
    length_uint_bytes [of "ucast (sd_sig_kind s)"] length_bytes_bytes [of "sd_signer s"]
    length_bytes_bytes [of "sd_ml_dsa_key s"] length_bytes_bytes [of "sd_payload s"]
    length_bytes_bytes [of "sd_signature s"]
  by (simp add: envelope_of_pieces envelope_pieces_def envelope_wf_def)

section \<open>Properties\<close>

text \<open>
  C19. The body encoding is canonical in both directions. On any input that fits in memory
  \<open>from_canonical\<close> returns a body exactly when the body is well formed and the input is
  the one string \<open>to_canonical\<close> writes for it: encoding then decoding is the identity, and
  no body has two byte forms.
\<close>

theorem drop_body_canonical:
  assumes "length bs \<le> usize_max"
  shows "DropBody_from_canonical bs = Ok body \<longleftrightarrow> body_wf body \<and> bs = DropBody_to_canonical body"
  using body_sound body_complete assms by blast

theorem drop_body_canonical_witness:
  "let body = \<lparr>db_version = 1, db_suite = 1, db_cell = ''8f'', db_ring = 300, db_created_at = 5, db_expiry = 0,
      db_mode = 0, db_chunk_size = 65536, db_chunk_count = 1, db_content_root = replicate 32 1,
      db_prefix = replicate 20 2, db_drop_nonce = replicate 16 3, db_pow_nonce = 70000,
      db_wrapped_keys = [\<lparr>wk_tag = replicate 8 4, wk_sealed = Classical
        \<lparr>ephemeral_public = replicate 32 5, sk_nonce = replicate 24 6, sk_ciphertext = replicate 48 7\<rparr>\<rparr>]\<rparr>
   in DropBody_from_canonical (DropBody_to_canonical body) = Ok body"
proof -
  let ?b = "\<lparr>db_version = 1, db_suite = 1, db_cell = ''8f'', db_ring = 300, db_created_at = 5, db_expiry = 0,
      db_mode = 0, db_chunk_size = 65536, db_chunk_count = 1, db_content_root = replicate 32 1,
      db_prefix = replicate 20 2, db_drop_nonce = replicate 16 3, db_pow_nonce = 70000,
      db_wrapped_keys = [\<lparr>wk_tag = replicate 8 4, wk_sealed = Classical
        \<lparr>ephemeral_public = replicate 32 5, sk_nonce = replicate 24 6, sk_ciphertext = replicate 48 7\<rparr>\<rparr>]\<rparr>"
  have wf: "body_wf ?b"
    by (simp add: body_wf_def wrapped_wf_def str_ok_def str_bytes_def byte_of_def wrapped_key_size_def
        isize_max_def usize_max_def)
  have l: "length (uint_bytes v) \<le> 9" "length (array_bytes n) \<le> 9" "length (bytes_bytes x) \<le> 9 + length x"
    "length (text_bytes t) \<le> 9 + length t" for v n x t
    by (rule wire_lengths)+
  have "length (DropBody_to_canonical ?b) \<le> 2000"
    unfolding to_canonical_pieces [OF wf]
    using l(1) [of 1] l(1) [of 300] l(1) [of 5] l(1) [of 0] l(1) [of 65536] l(1) [of 70000] l(2) [of 14] l(2) [of 1]
      l(2) [of 3] l(3) [of "replicate 32 1"] l(3) [of "replicate 20 2"] l(3) [of "replicate 16 3"]
      l(3) [of "replicate 8 4"] l(3) [of "replicate 32 5"] l(3) [of "replicate 24 6"] l(3) [of "replicate 48 7"]
      l(4) [of "''8f''"]
    by (simp add: body_head_def wrapped_pieces_def)
  then have "length (DropBody_to_canonical ?b) \<le> usize_max" by (simp add: usize_max_def)
  with drop_body_canonical [of "DropBody_to_canonical ?b" ?b] wf show ?thesis by simp
qed

text \<open>
  A well-formed header whose last field announces \<open>2\<^sup>6\<^sup>0\<close> wrapped keys, and nothing behind it.
\<close>

definition oversized_body :: bytes where
  "oversized_body = encode_seq
    [Encoder_array 14, Encoder_uint 1, Encoder_uint 1, Encoder_text [], Encoder_uint 0, Encoder_uint 0,
     Encoder_uint 0, Encoder_uint 0, Encoder_uint 0, Encoder_uint 0, Encoder_bytes (replicate 32 0),
     Encoder_bytes (replicate 20 0), Encoder_bytes (replicate 16 0), Encoder_uint 0, Encoder_array (2 ^ 60)]"

lemma oversized_body_pieces:
  "oversized_body = concat
    [array_bytes 14, uint_bytes 1, uint_bytes 1, text_bytes [], uint_bytes 0, uint_bytes 0,
     uint_bytes 0, uint_bytes 0, uint_bytes 0, uint_bytes 0, bytes_bytes (replicate 32 0),
     bytes_bytes (replicate 20 0), bytes_bytes (replicate 16 0), uint_bytes 0, array_bytes (2 ^ 60)]"
  unfolding oversized_body_def
  by (rule encode_seq_appends) (simp add: appends_calls small_usize, simp add: appends_calls usize_max_def)


text \<open>
  The decoder of bodies can be made to panic by an input of fewer than 300 bytes: the
  vector for the wrapped keys is allocated for the announced count before a single key
  has been read, and the announced count can exceed what any allocation may hold.
\<close>

lemma drop_body_alloc_panic:
  "length oversized_body < 300 \<and> DropBody_from_canonical oversized_body = Panic"
proof
  have big: "(2 :: nat) ^ 60 \<le> usize_max" by (simp add: usize_max_def)
  note l = wire_lengths(3) [of "replicate 32 0"] wire_lengths(3) [of "replicate 20 0"]
    wire_lengths(3) [of "replicate 16 0"] wire_lengths(1) [of 0] wire_lengths(1) [of 1]
    wire_lengths(2) [of 14] wire_lengths(2) [of "2 ^ 60"] wire_lengths(4) [of "[]"]
  show short: "length oversized_body < 300" using l by (simp add: oversized_body_pieces)
  then have len: "length oversized_body \<le> usize_max" by (simp add: usize_max_def)
  have "\<not> (2 :: nat) ^ 60 * wrapped_key_size \<le> isize_max" by (simp add: wrapped_key_size_def isize_max_def)
  then have cap: "with_capacity wrapped_key_size (2 ^ 60) = (Panic :: (unit, core_error) res)"
    by (simp only: with_capacity_def if_False)
  have "try_u8 1 = Some 1" "try_u8 0 = Some 0" "try_u32 0 = Some 0" by (simp_all add: try_u8_def try_u32_def)
  then show "DropBody_from_canonical oversized_body = Panic"
    using big cap len
    unfolding DropBody_from_canonical_def oversized_body_pieces Decoder_new_dec_at
    by (simp add: wire_simps cbor_field_def small_usize str_ok_def str_bytes_def del: power_numeral)
qed

text \<open>
  Envelopes are canonical: \<open>decode\<close> accepts exactly the strings \<open>encode_envelope\<close> writes,
  keeps them unchanged as \<open>raw\<close>, and never panics, so the identifier of a drop is the hash
  of the one byte form its fields have.
\<close>

lemma envelope_canonical:
  assumes "length bs \<le> usize_max"
  shows "(SignedDrop_decode bs = Ok s \<longleftrightarrow> envelope_wf s \<and> sd_raw s = bs \<and>
      bs = encode_envelope (sd_suite s) (sd_sig_kind s) (sd_signer s) (sd_ml_dsa_key s) (sd_payload s) (sd_signature s))
    \<and> SignedDrop_decode bs \<noteq> Panic
    \<and> (SignedDrop_decode bs = Ok s \<longrightarrow> SignedDrop_id C s = DropId (sha256 C bs))"
proof -
  have np: "Decoder_array d \<noteq> Panic" "Decoder_uint d \<noteq> Panic" "Decoder_bytes d \<noteq> Panic"
    "Decoder_bytes_fixed n d \<noteq> Panic" "Decoder_finish d \<noteq> Panic" for d n
    by (auto simp: decoder_total)
  have "SignedDrop_decode bs \<noteq> Panic"
    by (auto simp: SignedDrop_decode_def and_then_eq_Panic np cbor_field_def split: if_splits)
  moreover have "SignedDrop_decode bs = Ok s \<longleftrightarrow> envelope_wf s \<and> sd_raw s = bs \<and> bs = envelope_of s"
    using envelope_sound [of bs s] envelope_complete [of s] assms by auto
  ultimately show ?thesis by (auto simp: envelope_of_def SignedDrop_id_def DropId_of_def)
qed

lemma envelope_canonical_witness:
  "let bs = encode_envelope 1 1 (replicate 32 1) [] [9] (replicate 64 2) in
   SignedDrop_decode bs = Ok \<lparr>sd_suite = 1, sd_sig_kind = 1, sd_signer = replicate 32 1, sd_ml_dsa_key = [],
     sd_payload = [9], sd_signature = replicate 64 2, sd_raw = bs\<rparr>"
proof -
  let ?bs = "encode_envelope 1 1 (replicate 32 1) [] [9] (replicate 64 2)"
  let ?s = "\<lparr>sd_suite = 1, sd_sig_kind = 1, sd_signer = replicate 32 1, sd_ml_dsa_key = [],
     sd_payload = [9], sd_signature = replicate 64 2, sd_raw = ?bs\<rparr>"
  have wf: "envelope_wf ?s" by (simp add: envelope_wf_def usize_max_def)
  have "length ?bs \<le> usize_max"
    using length_envelope [OF wf] by (simp add: envelope_of_def usize_max_def)
  from envelope_canonical [OF this, of ?s] wf show ?thesis by (simp add: Let_def)
qed

lemma signed_envelope_decodes:
  assumes "envelope_wf s" and "sd_raw s = envelope_of s"
    and "length (sd_ml_dsa_key s) \<le> 1952" and "length (sd_signature s) \<le> 3373"
    and "length (sd_payload s) + 8192 \<le> usize_max"
  shows "SignedDrop_decode (sd_raw s) = Ok s"
  using envelope_complete [OF assms(1) _ assms(2)] length_envelope [OF assms(1)] assms(2-5) by simp

lemma length_identity:
  "ed25519_laws C \<Longrightarrow> identity_wf i \<Longrightarrow>
    length (signing_public C i) = 32 \<and> length (Identity_sign C i m) = 64"
  by (simp add: ed25519_laws_def identity_wf_def signing_public_def Identity_sign_def)

text \<open>
  What an author signs, everyone reads back. For every well-formed body of reasonable size
  both signing routes give an envelope whose transmitted bytes decode to the envelope
  itself, verify, and carry exactly that body.
\<close>

lemma signed_drop_roundtrip:
  assumes "ed25519_laws C" and "mldsa_laws C" and "identity_wf i" and "length (mldsa_inner k) = 32"
    and "body_wf body" and "length (DropBody_to_canonical body) + 8192 \<le> usize_max"
    and "s = SignedDrop_sign C i body \<or> SignedDrop_sign_hybrid C i k body = Ok s"
  shows "SignedDrop_decode (sd_raw s) = Ok s \<and> SignedDrop_verify C s = Ok () \<and> SignedDrop_body s = Ok body"
proof -
  note id = length_identity [OF assms(1,3)]
  have sizes: "sd_payload s = DropBody_to_canonical body" "sd_raw s = envelope_of s" "length (sd_signer s) = 32"
    "length (sd_ml_dsa_key s) \<le> 1952" "length (sd_signature s) \<le> 3373"
    using assms(7) id verify_ml_dsa_sign [OF assms(2,4)]
    by (auto simp: SignedDrop_sign_def SignedDrop_sign_hybrid_def envelope_of_def Let_def
        ML_DSA_65_VK_LEN_def ML_DSA_65_SIG_LEN_def)
  have "envelope_wf s" using sizes assms(6) by (auto simp: envelope_wf_def usize_max_def)
  then have "SignedDrop_decode (sd_raw s) = Ok s" using sizes assms(6) by (intro signed_envelope_decodes) simp_all
  moreover have "SignedDrop_body s = Ok body"
    using body_complete [OF assms(5)] assms(6) sizes(1) by (simp add: SignedDrop_body_def)
  moreover have "SignedDrop_verify C s = Ok ()"
    using assms(7)
  proof
    assume "s = SignedDrop_sign C i body"
    then show ?thesis
      using id ed25519.sign_verify [OF assms(1,3)]
      by (simp add: SignedDrop_sign_def SignedDrop_verify_def SIG_ED25519_def Let_def)
  next
    assume "SignedDrop_sign_hybrid C i k body = Ok s"
    then obtain d where d: "MlDsaKeypair_sign C k (signing_input (DropBody_to_canonical body)) = Ok d"
      and s: "sd_sig_kind s = 2" "sd_signer s = signing_public C i" "sd_payload s = DropBody_to_canonical body"
        "sd_ml_dsa_key s = MlDsaKeypair_verifying_key_bytes C k"
        "sd_signature s = Identity_sign C i (signing_input (DropBody_to_canonical body)) @ d"
      by (auto simp: SignedDrop_sign_hybrid_def SIG_HYBRID_def Let_def)
    note v = verify_ml_dsa_sign [OF assms(2,4) d]
    then have "sd_ml_dsa_key s \<noteq> []" using s(4) by (auto simp: ML_DSA_65_VK_LEN_def)
    then show ?thesis
      using s v id ed25519.sign_verify [OF assms(1,3)]
      by (simp add: SignedDrop_verify_def SIG_ED25519_def SIG_HYBRID_def Let_def)
  qed
  ultimately show ?thesis by blast
qed

lemma signed_drop_roundtrip_witness:
  "let i = \<lparr>signing = replicate 32 1, ecdh = replicate 32 2\<rparr>;
       body = \<lparr>db_version = 1, db_suite = 1, db_cell = [], db_ring = 1, db_created_at = 5, db_expiry = 0,
         db_mode = 0, db_chunk_size = 65536, db_chunk_count = 0, db_content_root = replicate 32 1,
         db_prefix = replicate 20 2, db_drop_nonce = replicate 16 3, db_pow_nonce = 7, db_wrapped_keys = []\<rparr>;
       s = SignedDrop_sign toy_crypto i body
   in SignedDrop_decode (sd_raw s) = Ok s \<and> SignedDrop_verify toy_crypto s = Ok () \<and> SignedDrop_body s = Ok body"
proof -
  let ?i = "\<lparr>signing = replicate 32 1, ecdh = replicate 32 2\<rparr> :: Identity"
  let ?b = "\<lparr>db_version = 1, db_suite = 1, db_cell = [], db_ring = 1, db_created_at = 5, db_expiry = 0,
         db_mode = 0, db_chunk_size = 65536, db_chunk_count = 0, db_content_root = replicate 32 1,
         db_prefix = replicate 20 2, db_drop_nonce = replicate 16 3, db_pow_nonce = 7, db_wrapped_keys = []\<rparr> :: DropBody"
  have i: "identity_wf ?i" by (simp add: identity_wf_def)
  have k: "length (mldsa_inner \<lparr>mldsa_inner = replicate 32 9\<rparr>) = 32" by simp
  have b: "body_wf ?b" by (simp add: body_wf_def str_ok_def str_bytes_def)
  note l = wire_lengths(3) [of "replicate 32 1"] wire_lengths(3) [of "replicate 20 2"]
    wire_lengths(3) [of "replicate 16 3"] wire_lengths(1) [of 0] wire_lengths(1) [of 1] wire_lengths(1) [of 5]
    wire_lengths(1) [of 7] wire_lengths(1) [of 65536] wire_lengths(2) [of 14] wire_lengths(2) [of 0] wire_lengths(4) [of "[]"]
  have "length (DropBody_to_canonical ?b) \<le> 1000"
    using l by (simp add: to_canonical_pieces [OF b] body_head_def)
  then have "length (DropBody_to_canonical ?b) + 8192 \<le> usize_max" by (simp add: usize_max_def)
  from signed_drop_roundtrip [OF toy_ed25519_laws toy_mldsa_laws i k b this, of "SignedDrop_sign toy_crypto ?i ?b"]
  show ?thesis by (simp add: Let_def)
qed

text \<open>
  C21. The post-quantum half of an envelope can be stripped. The signed bytes bind neither the
  signature kind nor the ML-DSA key, so every envelope that verifies as hybrid also
  verifies as a plain Ed25519 envelope with the same signer and payload after the second
  half is cut off, and its bytes decode.
\<close>

theorem hybrid_envelope_downgrade:
  assumes "SignedDrop_verify C s = Ok ()" and "sd_sig_kind s = SIG_HYBRID" and "envelope_wf s"
    and "length (sd_payload s) + 8192 \<le> usize_max"
  shows "\<exists>s'. SignedDrop_decode (sd_raw s') = Ok s' \<and> SignedDrop_verify C s' = Ok ()
    \<and> sd_sig_kind s' = SIG_ED25519 \<and> sd_signer s' = sd_signer s \<and> sd_payload s' = sd_payload s"
proof -
  let ?t = "s\<lparr>sd_sig_kind := SIG_ED25519, sd_ml_dsa_key := [], sd_signature := take 64 (sd_signature s)\<rparr>"
  let ?s' = "?t\<lparr>sd_raw := envelope_of ?t\<rparr>"
  have v: "verify C (sd_signer s) (signing_input (sd_payload s)) (take 64 (sd_signature s)) = Ok ()"
    and l: "64 \<le> length (sd_signature s)"
    using assms(1,2) by (auto simp: SignedDrop_verify_def SIG_HYBRID_def SIG_ED25519_def Let_def split: if_splits)
  have "SignedDrop_decode (sd_raw ?s') = Ok ?s'"
    using assms(3,4) by (intro signed_envelope_decodes) (auto simp: envelope_wf_def envelope_of_def)
  moreover have "SignedDrop_verify C ?s' = Ok ()"
    using v l by (simp add: SignedDrop_verify_def)
  ultimately show ?thesis by (intro exI [of _ ?s']) simp
qed

theorem hybrid_envelope_downgrade_witness:
  "\<exists>s'. SignedDrop_verify toy_crypto s' = Ok () \<and> sd_sig_kind s' = SIG_ED25519
    \<and> sd_signer s' = replicate 32 1 \<and> sd_payload s' = [9]"
proof -
  let ?i = "signing_input [9]"
  let ?s = "\<lparr>sd_suite = 2, sd_sig_kind = SIG_HYBRID, sd_signer = replicate 32 1, sd_ml_dsa_key = replicate 1952 0,
    sd_payload = [9], sd_signature = pad 64 (replicate 32 1 @ ?i) @ pad 3309 ?i, sd_raw = []\<rparr>"
  have "SignedDrop_verify toy_crypto ?s = Ok ()"
    by (simp add: SignedDrop_verify_def SIG_HYBRID_def SIG_ED25519_def verify_ml_dsa_def verify_def toy_crypto_def)
  moreover have "envelope_wf ?s" "length (sd_payload ?s) + 8192 \<le> usize_max"
    by (simp_all add: envelope_wf_def usize_max_def)
  ultimately show ?thesis using hybrid_envelope_downgrade [of toy_crypto ?s] by auto
qed

text \<open>
  C22. The content root commits to the chunks. Two equally long or differently long lists of
  chunks with the same root are equal, provided SHA-256 has 32-byte digests and does not
  collide on the chunks and on the two strings of concatenated digests.
\<close>

theorem content_root_binding:
  assumes "content_root C as = content_root C bs" and "sha256_laws C"
    and "inj_on (sha256 C) (set as \<union> set bs \<union> {concat (map (sha256 C) as), concat (map (sha256 C) bs)})"
  shows "as = bs"
proof -
  have cc: "concat (map (sha256 C) as) = concat (map (sha256 C) bs)"
    by (rule inj_onD [OF assms(3)]) (use assms(1) in \<open>simp_all add: content_root_def\<close>)
  have len: "length (sha256 C x) = 32" for x using assms(2) by (simp add: sha256_laws_def)
  have "map (sha256 C) as = map (sha256 C) bs"
  proof -
    have "concat (map (sha256 C) xs) = concat (map (sha256 C) ys) \<Longrightarrow> map (sha256 C) xs = map (sha256 C) ys" for xs ys
    proof (induction xs arbitrary: ys)
      case Nil
      then show ?case using len by (cases ys) (auto simp del: length_0_conv simp: length_0_conv [symmetric])
    next
      case (Cons x xs)
      then show ?case using len [of x] len by (cases ys) (auto simp: append_eq_same_length)
    qed
    from this [OF cc] show ?thesis .
  qed
  then show ?thesis by (rule map_inj_on) (rule inj_on_subset [OF assms(3)], blast)
qed

theorem content_root_binding_witness:
  "let C = toy_crypto\<lparr>sha256 := \<lambda>x. pad 32 (take 1 x @ take 1 (drop 32 x) @ [of_nat (length x)])\<rparr>
   in content_root C [[1], [2]] \<noteq> content_root C [[2], [1]]"
proof -
  let ?C = "toy_crypto\<lparr>sha256 := \<lambda>x. pad 32 (take 1 x @ take 1 (drop 32 x) @ [of_nat (length x)])\<rparr>"
  have laws: "sha256_laws ?C" by (simp add: sha256_laws_def)
  have "inj_on (sha256 ?C) (set [[1], [2]] \<union> set [[2], [1]]
      \<union> {concat (map (sha256 ?C) [[1], [2]]), concat (map (sha256 ?C) [[2], [1]])})"
    unfolding inj_on_def by code_simp
  from content_root_binding [OF _ laws this] show ?thesis by (auto simp: Let_def)
qed

end
