(* ===== verification/Node_Store.thy ===== *)
theory Node_Store
  imports Drop_Types "HOL-Library.AList"
begin

text \<open>
  Clocks and storage of \<open>crates/node/src/lib.rs\<close>, and the relay of \<open>crates/relay/src/lib.rs\<close>. A
  \<open>HashMap\<close> is an association list with distinct keys; nothing depends on its order. The trait
  \<open>Storage\<close> is the locale \<open>storage\<close>, provided by \<open>MemoryStore\<close>; the chunk half of it is the
  locale \<open>chunk_store\<close>, which \<open>Relay\<close> provides too.
\<close>

section \<open>Clocks\<close>

text \<open>
  The reading of \<open>SystemTime::now().duration_since(UNIX_EPOCH)\<close> is the argument: the seconds,
  or nothing when the clock stands before the epoch.
\<close>

definition SystemClock_now_unix :: "u64 option \<Rightarrow> u64" where
  "SystemClock_now_unix since_epoch = unwrap_or 0 since_epoch"

record FixedClock =
  fixed_time :: u64

definition FixedClock_now_unix :: "FixedClock \<Rightarrow> u64" where
  "FixedClock_now_unix c = fixed_time c"

section \<open>MemoryStore\<close>

record MemoryStore =
  ms_drops :: "(DropId \<times> bytes) list"
  ms_chunks :: "((DropId \<times> u32) \<times> bytes) list"

definition MemoryStore_new :: MemoryStore where
  "MemoryStore_new = \<lparr>ms_drops = [], ms_chunks = []\<rparr>"

definition put_drop :: "DropId \<Rightarrow> bytes \<Rightarrow> MemoryStore \<Rightarrow> MemoryStore" where
  "put_drop i bs s = s\<lparr>ms_drops := AList.update i bs (ms_drops s)\<rparr>"

definition get_drop :: "MemoryStore \<Rightarrow> DropId \<Rightarrow> bytes option" where
  "get_drop s i = map_of (ms_drops s) i"

definition put_chunk :: "DropId \<Rightarrow> u32 \<Rightarrow> bytes \<Rightarrow> MemoryStore \<Rightarrow> MemoryStore" where
  "put_chunk i index bs s = s\<lparr>ms_chunks := AList.update (i, index) bs (ms_chunks s)\<rparr>"

definition get_chunk :: "MemoryStore \<Rightarrow> DropId \<Rightarrow> u32 \<Rightarrow> bytes option" where
  "get_chunk s i index = map_of (ms_chunks s) (i, index)"

definition chunk_indices :: "MemoryStore \<Rightarrow> DropId \<Rightarrow> u32 list" where
  "chunk_indices s i = sort (map snd (filter (\<lambda>(d, _). d = i) (map fst (ms_chunks s))))"

definition store_inv :: "MemoryStore \<Rightarrow> bool" where
  "store_inv s \<longleftrightarrow> distinct (map fst (ms_drops s)) \<and> distinct (map fst (ms_chunks s))"

section \<open>Relay\<close>

record Relay =
  rl_chunks :: "((DropId \<times> u32) \<times> bytes) list"

definition Relay_new :: Relay where "Relay_new = \<lparr>rl_chunks = []\<rparr>"

definition Relay_store :: "DropId \<Rightarrow> u32 \<Rightarrow> bytes \<Rightarrow> Relay \<Rightarrow> Relay" where
  "Relay_store i index ciphertext r = r\<lparr>rl_chunks := AList.update (i, index) ciphertext (rl_chunks r)\<rparr>"

definition Relay_fetch :: "Relay \<Rightarrow> DropId \<Rightarrow> u32 \<Rightarrow> (bytes, relay_error) res" where
  "Relay_fetch r i index = ok_or RelayNotFound (map_of (rl_chunks r) (i, index))"

definition Relay_len :: "Relay \<Rightarrow> nat" where "Relay_len r = length (rl_chunks r)"

definition Relay_is_empty :: "Relay \<Rightarrow> bool" where "Relay_is_empty r \<longleftrightarrow> rl_chunks r = []"

definition relay_inv :: "Relay \<Rightarrow> bool" where
  "relay_inv r \<longleftrightarrow> distinct (map fst (rl_chunks r))"

section \<open>The interface of a chunk store\<close>

locale chunk_store =
  fixes inv :: "'s \<Rightarrow> bool"
    and empty :: 's
    and put :: "DropId \<Rightarrow> u32 \<Rightarrow> bytes \<Rightarrow> 's \<Rightarrow> 's"
    and get :: "'s \<Rightarrow> DropId \<Rightarrow> u32 \<Rightarrow> bytes option"
  assumes inv_empty: "inv empty"
    and inv_put: "inv s \<Longrightarrow> inv (put i n bs s)"
    and get_empty: "get empty i n = None"
    and get_put: "get (put i n bs s) j m = (if (j, m) = (i, n) then Some bs else get s j m)"
begin

definition put_all :: "DropId \<Rightarrow> (u32 \<times> bytes) list \<Rightarrow> 's \<Rightarrow> 's" where
  "put_all i items s = fold (\<lambda>(n, bs). put i n bs) items s"

lemma inv_put_all: "inv s \<Longrightarrow> inv (put_all i items s)"
  unfolding put_all_def by (induction items arbitrary: s) (auto intro: inv_put)

lemma get_put_all:
  "distinct (map fst items) \<Longrightarrow> get (put_all i items s) j m =
    (if j = i then (case map_of items m of Some bs \<Rightarrow> Some bs | None \<Rightarrow> get s j m) else get s j m)"
proof (induction items arbitrary: s)
  case (Cons p items)
  obtain n bs where p: "p = (n, bs)" by (cases p)
  have "map_of items n = None" using Cons.prems p by (auto simp: map_of_eq_None_iff image_iff)
  with Cons.IH [of "put i n bs s"] Cons.prems p show ?case
    by (auto simp: put_all_def get_put split: option.splits)
qed (simp add: put_all_def)

end

text \<open>The whole trait \<open>Storage\<close>: a chunk store that also holds drops and lists its chunks.\<close>

locale storage = chunk_store inv empty put get
  for inv :: "'s \<Rightarrow> bool" and empty :: 's
    and put :: "DropId \<Rightarrow> u32 \<Rightarrow> bytes \<Rightarrow> 's \<Rightarrow> 's" and get :: "'s \<Rightarrow> DropId \<Rightarrow> u32 \<Rightarrow> bytes option" +
  fixes putd :: "DropId \<Rightarrow> bytes \<Rightarrow> 's \<Rightarrow> 's"
    and getd :: "'s \<Rightarrow> DropId \<Rightarrow> bytes option"
    and indices :: "'s \<Rightarrow> DropId \<Rightarrow> u32 list"
  assumes inv_putd: "inv s \<Longrightarrow> inv (putd i bs s)"
    and getd_empty: "getd empty i = None"
    and getd_putd: "getd (putd i bs s) j = (if j = i then Some bs else getd s j)"
    and getd_put: "getd (put i n bs s) j = getd s j"
    and get_putd: "get (putd i bs s) j m = get s j m"
    and indices_sorted: "inv s \<Longrightarrow> sorted (indices s i) \<and> distinct (indices s i)"
    and indices_set: "set (indices s i) = {n. get s i n \<noteq> None}"
begin

lemma indices_unique:
  "inv s \<Longrightarrow> sorted ns \<Longrightarrow> distinct ns \<Longrightarrow> set ns = {n. get s i n \<noteq> None} \<Longrightarrow> indices s i = ns"
  using indices_sorted [of s i] indices_set [of s i] by (intro sorted_distinct_set_unique) auto

text \<open>Chunks stored in any order are listed in order, and each is held.\<close>

lemma put_all_indices:
  assumes "inv s" and "\<And>n. get s i n = None" and "distinct (map fst items)"
  shows "indices (put_all i items s) i = sort (map fst items)"
proof (rule indices_unique)
  have "get (put_all i items s) i n \<noteq> None \<longleftrightarrow> n \<in> fst ` set items" for n
    using assms(2,3) by (force simp: get_put_all map_of_eq_None_iff split: option.splits)
  then show "set (sort (map fst items)) = {n. get (put_all i items s) i n \<noteq> None}" by auto
qed (use assms inv_put_all in auto)

end

section \<open>MemoryStore and Relay provide it\<close>

lemma map_of_update: "map_of (AList.update k v xs) k' = (if k' = k then Some v else map_of xs k')"
  by (simp add: update_conv')

interpretation memory: storage store_inv MemoryStore_new put_chunk get_chunk put_drop get_drop chunk_indices
proof
  fix s :: MemoryStore and i
  assume "store_inv s"
  then have "distinct (filter (\<lambda>(d, _). d = i) (map fst (ms_chunks s)))" by (simp add: store_inv_def)
  moreover have "inj_on snd (set (filter (\<lambda>(d, _). d = i) (map fst (ms_chunks s))))"
    by (auto simp: inj_on_def)
  ultimately show "sorted (chunk_indices s i) \<and> distinct (chunk_indices s i)"
    by (simp add: chunk_indices_def distinct_map)
next
  fix s :: MemoryStore and i
  have "n \<in> set (chunk_indices s i) \<longleftrightarrow> get_chunk s i n \<noteq> None" for n
  proof -
    have "n \<in> set (chunk_indices s i) \<longleftrightarrow> (i, n) \<in> fst ` set (ms_chunks s)"
      by (force simp: chunk_indices_def)
    then show ?thesis by (simp add: get_chunk_def map_of_eq_None_iff)
  qed
  then show "set (chunk_indices s i) = {n. get_chunk s i n \<noteq> None}" by blast
qed (auto simp: store_inv_def MemoryStore_new_def put_chunk_def get_chunk_def put_drop_def get_drop_def
    map_of_update distinct_update)

definition Relay_lookup :: "Relay \<Rightarrow> DropId \<Rightarrow> u32 \<Rightarrow> bytes option" where
  "Relay_lookup r i n = (case Relay_fetch r i n of Ok bs \<Rightarrow> Some bs | _ \<Rightarrow> None)"

lemma Relay_lookup_map_of: "Relay_lookup r i n = map_of (rl_chunks r) (i, n)"
  by (cases "map_of (rl_chunks r) (i, n)") (simp_all add: Relay_lookup_def Relay_fetch_def)

interpretation relay: chunk_store relay_inv Relay_new Relay_store Relay_lookup
  by unfold_locales (auto simp: relay_inv_def Relay_new_def Relay_store_def Relay_lookup_map_of
      map_of_update distinct_update)

section \<open>Properties\<close>

text \<open>
  A drop's chunks can arrive in any order. Storing chunks with different indices for a drop
  of which nothing was held lists exactly their indices, ascending, returns each chunk
  under its index, changes no other drop's chunks and no envelope, and keeps the store's
  keys unique.
\<close>

lemma memory_store_chunks:
  assumes "store_inv s" and "\<forall>n. get_chunk s i n = None" and "distinct (map fst items)"
    and "s' = fold (\<lambda>(n, bs). put_chunk i n bs) items s"
  shows "chunk_indices s' i = sort (map fst items)
    \<and> (\<forall>(n, bs) \<in> set items. get_chunk s' i n = Some bs)
    \<and> (\<forall>j n. j \<noteq> i \<longrightarrow> get_chunk s' j n = get_chunk s j n)
    \<and> (\<forall>j. get_drop s' j = get_drop s j) \<and> store_inv s'"
proof -
  have s': "s' = memory.put_all i items s" by (simp add: assms(4) memory.put_all_def)
  have "get_drop (memory.put_all i xs t) j = get_drop t j" for xs t j
    unfolding memory.put_all_def
    by (induction xs arbitrary: t) (auto simp: memory.getd_put)
  then show ?thesis
    using assms(1-3) memory.put_all_indices [of s i items] memory.inv_put_all [of s i items]
    by (auto simp: s' memory.get_put_all map_of_is_SomeI)
qed

lemma memory_store_chunks_witness:
  "let i = DropId (replicate 32 1);
       s' = fold (\<lambda>(n, bs). put_chunk i n bs) [(2, [5]), (0, [6]), (1, [7])] MemoryStore_new
   in chunk_indices s' i = [0, 1, 2] \<and> get_chunk s' i 1 = Some [7]"
proof -
  let ?i = "DropId (replicate 32 1)" and ?items = "[(2, [5]), (0, [6]), (1, [7])] :: (u32 \<times> bytes) list"
  have "store_inv MemoryStore_new" "\<forall>n. get_chunk MemoryStore_new ?i n = None" "distinct (map fst ?items)"
    using memory.inv_empty memory.get_empty by simp_all
  moreover have "\<not> (2 :: u32) \<le> 1" by code_simp
  ultimately show ?thesis using memory_store_chunks [OF _ _ _ refl, of MemoryStore_new ?i ?items]
    by (simp add: Let_def)
qed

end
