(* ===== verification/Wire_Protocol.thy ===== *)
theory Wire_Protocol
  imports Drop_Types
begin

text \<open>
  The peer protocol, \<open>crates/node/src/protocol.rs\<close>: messages, their encoding as a two-element
  array of a tag and a byte string, and the length-prefixed frame with its size limit.
\<close>

section \<open>The model\<close>

definition MAX_FRAME :: nat where "MAX_FRAME = 8 * 1024 * 1024"

definition PROTO_VERSION :: u8 where "PROTO_VERSION = 1"

datatype Message =
    Hello u8
  | Want DropId
  | Drop bytes
  | Missing DropId
  | WantChunk DropId u32
  | Chunk DropId u32 bytes
  | Presence bytes
  | Attestation bytes
  | Put bytes
  | PutChunk DropId u32 bytes
  | Stored DropId
  | GetSth
  | Sth bytes
  | Bye

definition TAG_HELLO :: u64 where "TAG_HELLO = 0"
definition TAG_WANT :: u64 where "TAG_WANT = 1"
definition TAG_DROP :: u64 where "TAG_DROP = 2"
definition TAG_MISSING :: u64 where "TAG_MISSING = 3"
definition TAG_BYE :: u64 where "TAG_BYE = 4"
definition TAG_WANT_CHUNK :: u64 where "TAG_WANT_CHUNK = 5"
definition TAG_CHUNK :: u64 where "TAG_CHUNK = 6"
definition TAG_PRESENCE :: u64 where "TAG_PRESENCE = 7"
definition TAG_ATTESTATION :: u64 where "TAG_ATTESTATION = 8"
definition TAG_PUT :: u64 where "TAG_PUT = 9"
definition TAG_STORED :: u64 where "TAG_STORED = 10"
definition TAG_PUT_CHUNK :: u64 where "TAG_PUT_CHUNK = 11"
definition TAG_GET_STH :: u64 where "TAG_GET_STH = 12"
definition TAG_STH :: u64 where "TAG_STH = 13"

lemmas tag_defs = TAG_HELLO_def TAG_WANT_def TAG_DROP_def TAG_MISSING_def TAG_BYE_def TAG_WANT_CHUNK_def
  TAG_CHUNK_def TAG_PRESENCE_def TAG_ATTESTATION_def TAG_PUT_def TAG_STORED_def TAG_PUT_CHUNK_def
  TAG_GET_STH_def TAG_STH_def

fun encode_payload :: "Message \<Rightarrow> (Encoder \<Rightarrow> Encoder) list" where
  "encode_payload (Hello version) = [Encoder_uint TAG_HELLO, Encoder_bytes [version]]"
| "encode_payload (Want i) = [Encoder_uint TAG_WANT, Encoder_bytes (as_bytes i)]"
| "encode_payload (Drop raw) = [Encoder_uint TAG_DROP, Encoder_bytes raw]"
| "encode_payload (Missing i) = [Encoder_uint TAG_MISSING, Encoder_bytes (as_bytes i)]"
| "encode_payload (WantChunk i index) =
    [Encoder_uint TAG_WANT_CHUNK, Encoder_bytes (as_bytes i @ u32_be index)]"
| "encode_payload (Chunk i index data) =
    [Encoder_uint TAG_CHUNK, Encoder_bytes (as_bytes i @ u32_be index @ data)]"
| "encode_payload (Presence bs) = [Encoder_uint TAG_PRESENCE, Encoder_bytes bs]"
| "encode_payload (Attestation bs) = [Encoder_uint TAG_ATTESTATION, Encoder_bytes bs]"
| "encode_payload (Put raw) = [Encoder_uint TAG_PUT, Encoder_bytes raw]"
| "encode_payload (PutChunk i index data) =
    [Encoder_uint TAG_PUT_CHUNK, Encoder_bytes (as_bytes i @ u32_be index @ data)]"
| "encode_payload (Stored i) = [Encoder_uint TAG_STORED, Encoder_bytes (as_bytes i)]"
| "encode_payload GetSth = [Encoder_uint TAG_GET_STH, Encoder_bytes []]"
| "encode_payload (Sth bs) = [Encoder_uint TAG_STH, Encoder_bytes bs]"
| "encode_payload Bye = [Encoder_uint TAG_BYE, Encoder_bytes []]"

definition Message_encode :: "Message \<Rightarrow> bytes" where
  "Message_encode m = encode_seq (Encoder_array 2 # encode_payload m)"

definition id_from :: "bytes \<Rightarrow> (DropId, node_error) res" where
  "id_from payload = (if length payload \<noteq> 32 then Err (Protocol ''id length'') else Ok (DropId payload))"

definition id_index_from :: "bytes \<Rightarrow> (DropId \<times> u32, node_error) res" where
  "id_index_from payload =
    (if length payload < 36 then Err (Protocol ''chunk header'')
     else and_then (id_from (take 32 payload)) (\<lambda>i.
       let slice = take 4 (drop 32 payload) in
       if length slice \<noteq> 4 then Err (Protocol ''chunk index'')
       else Ok (i, u32_of_be slice)))"

text \<open>The final \<open>match\<close> of \<open>decode\<close> on the tag.\<close>

definition decode_tagged :: "u64 \<Rightarrow> bytes \<Rightarrow> (Message, node_error) res" where
  "decode_tagged tag payload =
    (if tag = TAG_HELLO then
      (case payload of [] \<Rightarrow> Err (Protocol ''hello'') | version # _ \<Rightarrow> Ok (Hello version))
    else if tag = TAG_WANT then and_then (id_from payload) (\<lambda>i. Ok (Want i))
    else if tag = TAG_DROP then Ok (Drop payload)
    else if tag = TAG_MISSING then and_then (id_from payload) (\<lambda>i. Ok (Missing i))
    else if tag = TAG_WANT_CHUNK then and_then (id_index_from payload) (\<lambda>(i, index). Ok (WantChunk i index))
    else if tag = TAG_CHUNK then
      and_then (id_index_from payload) (\<lambda>(i, index). Ok (Chunk i index (drop 36 payload)))
    else if tag = TAG_PRESENCE then Ok (Presence payload)
    else if tag = TAG_ATTESTATION then Ok (Attestation payload)
    else if tag = TAG_PUT then Ok (Put payload)
    else if tag = TAG_PUT_CHUNK then
      and_then (id_index_from payload) (\<lambda>(i, index). Ok (PutChunk i index (drop 36 payload)))
    else if tag = TAG_STORED then and_then (id_from payload) (\<lambda>i. Ok (Stored i))
    else if tag = TAG_GET_STH then Ok GetSth
    else if tag = TAG_STH then Ok (Sth payload)
    else if tag = TAG_BYE then Ok Bye
    else Err (Protocol ''unknown tag''))"

definition Message_decode :: "bytes \<Rightarrow> (Message, node_error) res" where
  "Message_decode bs =
    and_then (map_err (\<lambda>_. Protocol ''arity'') (Decoder_array (Decoder_new bs))) (\<lambda>(n, d).
    if n \<noteq> 2 then Err (Protocol ''arity'') else
    and_then (map_err (\<lambda>_. Protocol ''tag'') (Decoder_uint d)) (\<lambda>(tag, d).
    and_then (map_err (\<lambda>_. Protocol ''payload'') (Decoder_bytes d)) (\<lambda>(payload, d).
    and_then (map_err (\<lambda>_. Protocol ''trailing'') (Decoder_finish d)) (\<lambda>_.
    decode_tagged tag payload))))"

definition frame :: "Message \<Rightarrow> (bytes, node_error) res" where
  "frame message =
    (let body = Message_encode message in
     if length body > MAX_FRAME then Err (Protocol ''frame too large'')
     else and_then (ok_or (Protocol ''frame too large'') (try_u32_usize (length body))) (\<lambda>n.
       Ok (u32_be n @ body)))"

section \<open>Encoded forms\<close>

fun message_tag :: "Message \<Rightarrow> u64" where
  "message_tag (Hello _) = 0" | "message_tag (Want _) = 1" | "message_tag (Drop _) = 2"
| "message_tag (Missing _) = 3" | "message_tag Bye = 4" | "message_tag (WantChunk _ _) = 5"
| "message_tag (Chunk _ _ _) = 6" | "message_tag (Presence _) = 7" | "message_tag (Attestation _) = 8"
| "message_tag (Put _) = 9" | "message_tag (Stored _) = 10" | "message_tag (PutChunk _ _ _) = 11"
| "message_tag GetSth = 12" | "message_tag (Sth _) = 13"

fun message_payload :: "Message \<Rightarrow> bytes" where
  "message_payload (Hello v) = [v]" | "message_payload (Want i) = as_bytes i" | "message_payload (Drop r) = r"
| "message_payload (Missing i) = as_bytes i" | "message_payload Bye = []"
| "message_payload (WantChunk i n) = as_bytes i @ u32_be n"
| "message_payload (Chunk i n c) = as_bytes i @ u32_be n @ c" | "message_payload (Presence b) = b"
| "message_payload (Attestation b) = b" | "message_payload (Put r) = r" | "message_payload (Stored i) = as_bytes i"
| "message_payload (PutChunk i n c) = as_bytes i @ u32_be n @ c"
| "message_payload GetSth = []" | "message_payload (Sth b) = b"

text \<open>The identifiers in a message are 32 bytes long.\<close>

fun message_wf :: "Message \<Rightarrow> bool" where
  "message_wf (Want i) = (length (as_bytes i) = 32)" | "message_wf (Missing i) = (length (as_bytes i) = 32)"
| "message_wf (WantChunk i _) = (length (as_bytes i) = 32)" | "message_wf (Chunk i _ _) = (length (as_bytes i) = 32)"
| "message_wf (Stored i) = (length (as_bytes i) = 32)" | "message_wf (PutChunk i _ _) = (length (as_bytes i) = 32)"
| "message_wf _ = True"

lemma encode_payload_shape: "encode_payload m = [Encoder_uint (message_tag m), Encoder_bytes (message_payload m)]"
  by (cases m) (simp_all add: tag_defs)

lemma Message_encode_pieces:
  "length (message_payload m) \<le> usize_max \<Longrightarrow>
    Message_encode m = concat [array_bytes 2, uint_bytes (message_tag m), bytes_bytes (message_payload m)]"
  unfolding Message_encode_def encode_payload_shape
  by (rule encode_seq_appends) (simp add: appends_calls small_usize)

lemma id_from_bytes [simp]: "length bs = 32 \<Longrightarrow> id_from bs = Ok (DropId bs)"
  by (simp add: id_from_def)

lemma id_index_from_bytes [simp]:
  "length bs = 32 \<Longrightarrow> id_index_from (bs @ u32_be n @ data) = Ok (DropId bs, n)"
  by (simp add: id_index_from_def Let_def)

lemma id_index_from_end [simp]: "length bs = 32 \<Longrightarrow> id_index_from (bs @ u32_be n) = Ok (DropId bs, n)"
  using id_index_from_bytes [of bs n "[]"] by simp

lemma id_from_not_Panic [simp]: "id_from bs \<noteq> Panic"
  by (simp add: id_from_def)

lemma id_index_from_not_Panic [simp]: "id_index_from bs \<noteq> Panic"
  by (simp add: id_index_from_def and_then_eq_Panic Let_def)

lemma decode_pieces:
  assumes "length (array_bytes 2) + (length (uint_bytes tag) + length (bytes_bytes payload)) \<le> usize_max"
    and "length payload \<le> usize_max"
  shows "Decoder_array (Decoder_new (concat [array_bytes 2, uint_bytes tag, bytes_bytes payload]))
      = Ok (2, dec_at (array_bytes 2) (uint_bytes tag @ bytes_bytes payload))"
    and "Decoder_uint (dec_at (array_bytes 2) (uint_bytes tag @ bytes_bytes payload))
      = Ok (tag, dec_at (array_bytes 2 @ uint_bytes tag) (bytes_bytes payload))"
    and "Decoder_bytes (dec_at (array_bytes 2 @ uint_bytes tag) (bytes_bytes payload))
      = Ok (payload, dec_at (array_bytes 2 @ uint_bytes tag @ bytes_bytes payload) [])"
  using assms by (simp_all add: Decoder_new_dec_at wire_simps small_usize)

lemma message_roundtrip:
  assumes "message_wf m" and "length (message_payload m) + 32 \<le> usize_max"
  shows "Message_decode (Message_encode m) = Ok m"
proof -
  have p: "length (message_payload m) \<le> usize_max" using assms(2) by simp
  have "length (array_bytes 2) + (length (uint_bytes (message_tag m)) + length (bytes_bytes (message_payload m))) \<le> usize_max"
    using assms(2) wire_lengths(2) [of 2] wire_lengths(1) [of "message_tag m"] wire_lengths(3) [of "message_payload m"]
    by linarith
  note d = decode_pieces [OF this p]
  have "Message_decode (Message_encode m) = decode_tagged (message_tag m) (message_payload m)"
    unfolding Message_decode_def Message_encode_pieces [OF p]
    by (simp only: d map_err.simps and_then.simps prod.case Decoder_finish_dec_at if_True simp_thms if_False)
  also have "\<dots> = Ok m"
    using assms(1) by (cases m) (simp_all add: decode_tagged_def tag_defs)
  finally show ?thesis .
qed

lemma length_Message_encode:
  "length (message_payload m) \<le> usize_max \<Longrightarrow> length (Message_encode m) \<le> 27 + length (message_payload m)"
  using wire_lengths(2) [of 2] wire_lengths(1) [of "message_tag m"] wire_lengths(3) [of "message_payload m"]
  by (simp add: Message_encode_pieces)

text \<open>
  What the decoder tolerates in the payload: a greeting or a chunk request may carry more
  bytes than it needs, and the payload of \<open>GetSth\<close> and \<open>Bye\<close> is not looked at.
\<close>

fun payload_accepted :: "Message \<Rightarrow> bytes \<Rightarrow> bool" where
  "payload_accepted (Hello v) payload = (\<exists>rest. payload = v # rest)"
| "payload_accepted (WantChunk i n) payload = (\<exists>rest. payload = as_bytes i @ u32_be n @ rest)"
| "payload_accepted GetSth payload = True"
| "payload_accepted Bye payload = True"
| "payload_accepted m payload = (payload = message_payload m)"

lemma id_from_Ok: "id_from bs = Ok i \<longleftrightarrow> bs = as_bytes i \<and> length (as_bytes i) = 32"
  by (cases i) (auto simp: id_from_def)

lemma id_index_from_Ok:
  "id_index_from bs = Ok (i, n) \<longleftrightarrow>
    length (as_bytes i) = 32 \<and> 36 \<le> length bs \<and> bs = as_bytes i @ u32_be n @ drop 36 bs"
proof
  assume "id_index_from bs = Ok (i, n)"
  then have "36 \<le> length bs" "as_bytes i = take 32 bs" "u32_be n = take 4 (drop 32 bs)"
    by (auto simp: id_index_from_def id_from_def Let_def split: if_splits)
  then show "length (as_bytes i) = 32 \<and> 36 \<le> length bs \<and> bs = as_bytes i @ u32_be n @ drop 36 bs"
    using take_append_drop_2 [of 32 36 bs] by (simp add: append_assoc [symmetric] del: append_assoc)
next
  assume "length (as_bytes i) = 32 \<and> 36 \<le> length bs \<and> bs = as_bytes i @ u32_be n @ drop 36 bs"
  then show "id_index_from bs = Ok (i, n)"
    by (metis DropId.collapse id_index_from_bytes)
qed

lemma decode_tagged_Ok:
  "decode_tagged tag payload = Ok m \<longleftrightarrow> tag = message_tag m \<and> message_wf m \<and> payload_accepted m payload"
proof -
  have c: "id_index_from payload = Ok (i, n) \<and> data = drop 36 payload \<longleftrightarrow>
      length (as_bytes i) = 32 \<and> payload = as_bytes i @ u32_be n @ data" for i n data
    by (auto simp: id_index_from_Ok)
  have w: "id_index_from payload = Ok (i, n) \<longleftrightarrow>
      length (as_bytes i) = 32 \<and> (\<exists>rest. payload = as_bytes i @ u32_be n @ rest)" for i n
    using c [of i n "drop 36 payload"] by (auto simp: id_index_from_Ok)
  have h: "(case payload of [] \<Rightarrow> Err e | v # _ \<Rightarrow> Ok (Hello v)) = Ok x \<longleftrightarrow>
      (\<exists>v rest. payload = v # rest \<and> x = Hello v)" for e :: node_error and x
    by (auto split: list.splits)
  show ?thesis
    by (cases m) (auto simp: decode_tagged_def tag_defs id_from_Ok h w)
qed

lemma Message_decode_OkD:
  "Message_decode bs = Ok m \<Longrightarrow> \<exists>tag payload. length payload \<le> usize_max
    \<and> bs = concat [array_bytes 2, uint_bytes tag, bytes_bytes payload] \<and> decode_tagged tag payload = Ok m"
  unfolding Message_decode_def Decoder_new_dec_at
  by (auto split: if_splits dest!: wire_dests) blast

lemma decode_tagged_not_Panic: "decode_tagged tag payload \<noteq> Panic"
  by (auto simp: decode_tagged_def and_then_eq_Panic split: list.splits)

section \<open>Properties\<close>

text \<open>
  C25. The message decoder is total and exact. On any input that fits in memory it does not
  panic, and it returns a message exactly when the input is the two-element array of that
  message's tag and an accepted payload; in particular every message reads back what was
  written.
\<close>

theorem message_decode_exact:
  assumes "length bs \<le> usize_max"
  shows "Message_decode bs \<noteq> Panic \<and>
    (Message_decode bs = Ok m \<longleftrightarrow> message_wf m \<and> (\<exists>payload. payload_accepted m payload \<and>
      bs = encode_seq [Encoder_array 2, Encoder_uint (message_tag m), Encoder_bytes payload]))
    \<and> (message_wf m \<and> bs = Message_encode m \<longrightarrow> Message_decode bs = Ok m)"
proof -
  have enc: "encode_seq [Encoder_array 2, Encoder_uint t, Encoder_bytes p]
      = concat [array_bytes 2, uint_bytes t, bytes_bytes p]" if "length p \<le> usize_max" for t p
    using that by (intro encode_seq_appends) (simp add: appends_calls small_usize)
  have total: "Message_decode bs \<noteq> Panic"
    by (auto simp: Message_decode_def and_then_eq_Panic decoder_total decode_tagged_not_Panic split: if_splits)
  have sound: "message_wf m \<and> (\<exists>payload. payload_accepted m payload \<and>
      bs = encode_seq [Encoder_array 2, Encoder_uint (message_tag m), Encoder_bytes payload])"
    if "Message_decode bs = Ok m"
    using Message_decode_OkD [OF that] enc unfolding decode_tagged_Ok by metis
  have len: "length p \<le> usize_max" if "bs = encode_seq [Encoder_array 2, Encoder_uint t, Encoder_bytes p]" for t p
    using that assms by (simp add: encode_seq_def Encoder_into_bytes_def Encoder_bytes_def)
  have complete: "Message_decode bs = Ok m" if "message_wf m" "payload_accepted m payload"
    "bs = encode_seq [Encoder_array 2, Encoder_uint (message_tag m), Encoder_bytes payload]" for payload
  proof -
    note p = len [OF that(3)]
    have b: "bs = concat [array_bytes 2, uint_bytes (message_tag m), bytes_bytes payload]"
      using that(3) enc [OF p] by simp
    have "length (array_bytes 2) + (length (uint_bytes (message_tag m)) + length (bytes_bytes payload)) \<le> usize_max"
      using assms b by simp
    note d = decode_pieces [OF this p]
    have "Message_decode bs = decode_tagged (message_tag m) payload"
      unfolding Message_decode_def b
      by (simp only: d map_err.simps and_then.simps prod.case Decoder_finish_dec_at if_True simp_thms if_False)
    with that(1,2) show ?thesis by (simp add: decode_tagged_Ok)
  qed
  have own: "payload_accepted m (message_payload m)" by (cases m) auto
  show ?thesis
    using total sound complete complete [OF _ own] unfolding Message_encode_def encode_payload_shape by blast
qed

theorem message_decode_exact_witness:
  "Message_decode (Message_encode (WantChunk (DropId (replicate 32 9)) 7)) = Ok (WantChunk (DropId (replicate 32 9)) 7)"
proof -
  let ?m = "WantChunk (DropId (replicate 32 9)) 7"
  have "length (message_payload ?m) \<le> usize_max" by (simp add: usize_max_def)
  from length_Message_encode [OF this] have "length (Message_encode ?m) \<le> usize_max" by (simp add: usize_max_def)
  from message_decode_exact [OF this, of ?m] show ?thesis by simp
qed

text \<open>A frame is the 4-byte length and the body, if the body is within the limit.\<close>

lemma frame_Ok:
  "frame m = Ok f \<longleftrightarrow> length (Message_encode m) \<le> MAX_FRAME
    \<and> f = u32_be (of_nat (length (Message_encode m))) @ Message_encode m"
  by (auto simp: frame_def Let_def try_u32_usize_def MAX_FRAME_def u32_max_def)

lemma frame_cases: "(\<exists>f. frame m = Ok f) \<or> frame m = Err (Protocol ''frame too large'')"
  by (auto simp: frame_def Let_def try_u32_usize_def MAX_FRAME_def u32_max_def)

end
