(* ===== verification/Net.thy ===== *)
theory Net
  imports Wire_Protocol Node_Store Presence Sth
begin

text \<open>
  The reference TCP transport, \<open>crates/node/src/net.rs\<close>: sending and receiving frames, the three
  kinds of server (relay, log, witness), their clients, and the interleaving of a relay's
  connections over its shared store.

  A connection is represented by what it does: the bytes that arrive before the peer ends it
  (\<open>st_inbox\<close>), whether it ends by a reset instead of an end of file (\<open>st_reset\<close>), how many more
  bytes can be written before the peer is gone (\<open>st_room\<close>, no limit when \<open>None\<close>), and the bytes
  written so far (\<open>st_outbox\<close>). Waiting for bytes is not visible in it.
\<close>

section \<open>Streams\<close>

datatype io_error =
    InvalidData string
  | UnexpectedEof
  | ConnectionReset
  | BrokenPipe
  | OtherError string

record Stream =
  st_inbox :: bytes
  st_reset :: bool
  st_room :: "nat option"
  st_outbox :: bytes

definition stream_read_exact :: "nat \<Rightarrow> Stream \<Rightarrow> (bytes, io_error) res \<times> Stream" where
  "stream_read_exact n st =
    (if n \<le> length (st_inbox st) then (Ok (take n (st_inbox st)), st\<lparr>st_inbox := drop n (st_inbox st)\<rparr>)
     else (Err (if st_reset st then ConnectionReset else UnexpectedEof), st\<lparr>st_inbox := []\<rparr>))"

definition stream_write_all :: "bytes \<Rightarrow> Stream \<Rightarrow> (unit, io_error) res \<times> Stream" where
  "stream_write_all bs st =
    (case st_room st of
       None \<Rightarrow> (Ok (), st\<lparr>st_outbox := st_outbox st @ bs\<rparr>)
     | Some room \<Rightarrow>
         if length bs \<le> room
         then (Ok (), st\<lparr>st_outbox := st_outbox st @ bs, st_room := Some (room - length bs)\<rparr>)
         else (Err BrokenPipe, st\<lparr>st_outbox := st_outbox st @ take room bs, st_room := Some 0\<rparr>))"

definition net_send :: "Message \<Rightarrow> Stream \<Rightarrow> (unit, io_error) res \<times> Stream" where
  "net_send message st =
    (case map_err (\<lambda>_. InvalidData ''frame'') (frame message) of
       Ok framed \<Rightarrow> stream_write_all framed st
     | Err e \<Rightarrow> (Err e, st)
     | Panic \<Rightarrow> (Panic, st))"

definition net_recv :: "Stream \<Rightarrow> (Message option, io_error) res \<times> Stream" where
  "net_recv st =
    (case stream_read_exact 4 st of
       (Err e, st) \<Rightarrow> (if e = UnexpectedEof then Ok None else Err e, st)
     | (Panic, st) \<Rightarrow> (Panic, st)
     | (Ok len_buf, st) \<Rightarrow>
         let len = unat (u32_of_be len_buf) in
         if len > MAX_FRAME then (Err (InvalidData ''frame too large''), st)
         else case stream_read_exact len st of
             (Err e, st) \<Rightarrow> (Err e, st)
           | (Panic, st) \<Rightarrow> (Panic, st)
           | (Ok body, st) \<Rightarrow>
               (and_then (map_err (\<lambda>_. InvalidData ''protocol'') (Message_decode body)) (\<lambda>m. Ok (Some m)), st))"

section \<open>Servers\<close>

text \<open>
  Every branch of the three \<open>match\<close> statements sends exactly one message, and then goes on
  with the loop or breaks. So a handler returns the reply and whether to go on, or the error
  with which the function returns, and the new state, which is changed before the reply is
  sent. The mutex of the relay's store carries its poison flag.
\<close>

record SharedStore =
  ss_poisoned :: bool
  ss_store :: MemoryStore

fun respond_message :: "crypto \<Rightarrow> Message \<Rightarrow> SharedStore \<Rightarrow> (Message \<times> bool, io_error) res \<times> SharedStore" where
  "respond_message C (Hello version) s = (Ok (Hello version, True), s)"
| "respond_message C (Want i) s =
    (if ss_poisoned s then (Err (OtherError ''store poisoned''), s)
     else (case get_drop (ss_store s) i of
         Some raw \<Rightarrow> (Ok (Drop raw, True), s)
       | None \<Rightarrow> (Ok (Missing i, True), s)))"
| "respond_message C (WantChunk i index) s =
    (if ss_poisoned s then (Err (OtherError ''store poisoned''), s)
     else (case get_chunk (ss_store s) i index of
         Some data \<Rightarrow> (Ok (Chunk i index data, True), s)
       | None \<Rightarrow> (Ok (Missing i, True), s)))"
| "respond_message C (Put raw) s =
    (case SignedDrop_decode raw of
       Ok sd \<Rightarrow>
         (case SignedDrop_verify C sd of
            Ok _ \<Rightarrow>
              let i = SignedDrop_id C sd in
              (Ok (Stored i, True),
               if ss_poisoned s then s else s\<lparr>ss_store := put_drop i raw (ss_store s)\<rparr>)
          | Err _ \<Rightarrow> (Ok (Bye, True), s)
          | Panic \<Rightarrow> (Panic, s))
     | Err _ \<Rightarrow> (Ok (Bye, True), s)
     | Panic \<Rightarrow> (Panic, s))"
| "respond_message C (PutChunk i index data) s =
    (Ok (Stored i, True),
     if ss_poisoned s then s else s\<lparr>ss_store := put_chunk i index data (ss_store s)\<rparr>)"
| "respond_message C _ s = (Ok (Bye, False), s)"

fun sth_message :: "Message \<Rightarrow> SignedTreeHead \<Rightarrow> (Message \<times> bool, io_error) res \<times> SignedTreeHead" where
  "sth_message (Hello version) sth = (Ok (Hello version, True), sth)"
| "sth_message GetSth sth = (Ok (Sth (SignedTreeHead_to_bytes sth), True), sth)"
| "sth_message _ sth = (Ok (Bye, False), sth)"

text \<open>
  The state of a witness connection is the list of the clock readings still to come; an
  exhausted list reads as a clock that stands before the epoch.
\<close>

definition next_reading :: "u64 option list \<Rightarrow> u64 option \<times> u64 option list" where
  "next_reading clock = (case clock of [] \<Rightarrow> (None, []) | t # clock \<Rightarrow> (t, clock))"

fun witness_message ::
    "crypto \<Rightarrow> Identity \<Rightarrow> string \<Rightarrow> Message \<Rightarrow> u64 option list
      \<Rightarrow> (Message \<times> bool, io_error) res \<times> u64 option list" where
  "witness_message C witness cell (Hello version) clock = (Ok (Hello version, True), clock)"
| "witness_message C witness cell (Presence bs) clock =
    (case PresenceRequest_from_canonical bs of
       Ok request \<Rightarrow>
         if pr_cell request \<noteq> cell then (Ok (Missing (DropId_of C (str_bytes ''cell'')), True), clock)
         else
           let (reading, clock) = next_reading clock;
               attestation = PresenceAttestation_sign C witness request 0 (SystemClock_now_unix reading)
           in (Ok (Attestation (PresenceAttestation_to_canonical attestation), True), clock)
     | Err _ \<Rightarrow> (Ok (Bye, False), clock)
     | Panic \<Rightarrow> (Panic, clock))"
| "witness_message C witness cell _ clock = (Ok (Bye, False), clock)"

text \<open>One turn of the loop of a server: the result when the function returns, or none.\<close>

definition answer_step ::
    "(Message \<Rightarrow> 's \<Rightarrow> (Message \<times> bool, io_error) res \<times> 's) \<Rightarrow> Stream \<Rightarrow> 's
      \<Rightarrow> (unit, io_error) res option \<times> Stream \<times> 's" where
  "answer_step handle st s =
    (case net_recv st of
       (Ok None, st) \<Rightarrow> (Some (Ok ()), st, s)
     | (Err e, st) \<Rightarrow> (Some (Err e), st, s)
     | (Panic, st) \<Rightarrow> (Some Panic, st, s)
     | (Ok (Some message), st) \<Rightarrow>
         (case handle message s of
            (Ok (reply, continue), s) \<Rightarrow>
              (case net_send reply st of
                 (Ok _, st) \<Rightarrow> (if continue then None else Some (Ok ()), st, s)
               | (Err e, st) \<Rightarrow> (Some (Err e), st, s)
               | (Panic, st) \<Rightarrow> (Some Panic, st, s))
          | (Err e, s) \<Rightarrow> (Some (Err e), st, s)
          | (Panic, s) \<Rightarrow> (Some Panic, st, s)))"

lemma inbox_write_all [simp]: "st_inbox (snd (stream_write_all bs st)) = st_inbox st"
  by (simp add: stream_write_all_def split: option.split)

lemma inbox_net_send [simp]: "st_inbox (snd (net_send m st)) = st_inbox st"
  by (simp add: net_send_def split: res.split)

lemma room_net_send [simp]: "st_room (snd (net_send m st)) = None \<longleftrightarrow> st_room st = None"
  by (simp add: net_send_def stream_write_all_def split: res.split option.split)

lemma net_recv_consumes:
  "net_recv st = (Ok (Some m), st') \<Longrightarrow> length (st_inbox st') < length (st_inbox st)"
  by (auto simp: net_recv_def stream_read_exact_def Let_def split: if_splits)

lemma answer_step_consumes:
  assumes "answer_step handle st s = (None, st', s')"
  shows "length (st_inbox st') < length (st_inbox st)"
proof -
  obtain m st1 where r: "net_recv st = (Ok (Some m), st1)"
    using assms by (auto simp: answer_step_def split: prod.splits res.splits option.splits)
  with assms obtain reply where "net_send reply st1 = (Ok (), st')"
    by (auto simp: answer_step_def split: prod.splits res.splits if_splits)
  then have "st_inbox st' = st_inbox st1" using inbox_net_send [of reply st1] by simp
  then show ?thesis using net_recv_consumes [OF r] by simp
qed

function answer_loop ::
    "(Message \<Rightarrow> 's \<Rightarrow> (Message \<times> bool, io_error) res \<times> 's) \<Rightarrow> Stream \<Rightarrow> 's
      \<Rightarrow> (unit, io_error) res \<times> Stream \<times> 's" where
  "answer_loop handle st s =
    (case answer_step handle st s of
       (None, st', s') \<Rightarrow> answer_loop handle st' s'
     | (Some r, st', s') \<Rightarrow> (r, st', s'))"
  by pat_completeness auto

termination
  by (relation "measure (\<lambda>(handle, st, s). length (st_inbox st))") (auto dest: answer_step_consumes sym)

declare answer_loop.simps [simp del]

definition respond :: "crypto \<Rightarrow> Stream \<Rightarrow> SharedStore \<Rightarrow> (unit, io_error) res \<times> Stream \<times> SharedStore" where
  "respond C = answer_loop (respond_message C)"

definition sth_respond :: "Stream \<Rightarrow> SignedTreeHead \<Rightarrow> (unit, io_error) res \<times> Stream \<times> SignedTreeHead" where
  "sth_respond = answer_loop sth_message"

definition witness_respond ::
    "crypto \<Rightarrow> Identity \<Rightarrow> string \<Rightarrow> Stream \<Rightarrow> u64 option list
      \<Rightarrow> (unit, io_error) res \<times> Stream \<times> u64 option list" where
  "witness_respond C witness cell = answer_loop (witness_message C witness cell)"

section \<open>Clients\<close>

text \<open>
  Each client function connects, greets, ignores the greeting it gets back, sends one
  request and looks at the reply. The argument is the outcome of connecting; the second
  result is what was written.
\<close>

definition request :: "(Stream, io_error) res \<Rightarrow> Message \<Rightarrow> (Message option, io_error) res \<times> bytes" where
  "request connection message =
    (case connection of
       Err e \<Rightarrow> (Err e, [])
     | Panic \<Rightarrow> (Panic, [])
     | Ok st \<Rightarrow>
         (case net_send (Hello PROTO_VERSION) st of
            (Err e, st) \<Rightarrow> (Err e, st_outbox st)
          | (Panic, st) \<Rightarrow> (Panic, st_outbox st)
          | (Ok _, st) \<Rightarrow>
              (case net_recv st of
                 (Err e, st) \<Rightarrow> (Err e, st_outbox st)
               | (Panic, st) \<Rightarrow> (Panic, st_outbox st)
               | (Ok _, st) \<Rightarrow>
                   (case net_send message st of
                      (Err e, st) \<Rightarrow> (Err e, st_outbox st)
                    | (Panic, st) \<Rightarrow> (Panic, st_outbox st)
                    | (Ok _, st) \<Rightarrow> (case net_recv st of (reply, st) \<Rightarrow> (reply, st_outbox st))))))"

definition on_reply :: "(Message option \<Rightarrow> ('a, io_error) res) \<Rightarrow> (Message option, io_error) res \<times> bytes
    \<Rightarrow> ('a, io_error) res \<times> bytes" where
  "on_reply f r = (case r of (reply, sent) \<Rightarrow> (and_then reply f, sent))"

definition fetch :: "(Stream, io_error) res \<Rightarrow> DropId \<Rightarrow> (bytes option, io_error) res \<times> bytes" where
  "fetch connection i = on_reply (\<lambda>reply. case reply of
       Some (Drop raw) \<Rightarrow> Ok (Some raw)
     | Some (Missing _) \<Rightarrow> Ok None
     | _ \<Rightarrow> Err (InvalidData ''unexpected reply'')) (request connection (Want i))"

definition fetch_chunk :: "(Stream, io_error) res \<Rightarrow> DropId \<Rightarrow> u32 \<Rightarrow> (bytes option, io_error) res \<times> bytes" where
  "fetch_chunk connection i index = on_reply (\<lambda>reply. case reply of
       Some (Chunk _ _ data) \<Rightarrow> Ok (Some data)
     | Some (Missing _) \<Rightarrow> Ok None
     | _ \<Rightarrow> Err (InvalidData ''unexpected reply'')) (request connection (WantChunk i index))"

definition push_drop :: "(Stream, io_error) res \<Rightarrow> bytes \<Rightarrow> (bool, io_error) res \<times> bytes" where
  "push_drop connection raw = on_reply (\<lambda>reply. case reply of
       Some (Stored _) \<Rightarrow> Ok True
     | _ \<Rightarrow> Ok False) (request connection (Put raw))"

definition push_chunk :: "(Stream, io_error) res \<Rightarrow> DropId \<Rightarrow> u32 \<Rightarrow> bytes \<Rightarrow> (bool, io_error) res \<times> bytes" where
  "push_chunk connection i index data = on_reply (\<lambda>reply. case reply of
       Some (Stored _) \<Rightarrow> Ok True
     | _ \<Rightarrow> Ok False) (request connection (PutChunk i index data))"

definition fetch_sth :: "(Stream, io_error) res \<Rightarrow> (SignedTreeHead option, io_error) res \<times> bytes" where
  "fetch_sth connection = on_reply (\<lambda>reply. case reply of
       Some (Sth bs) \<Rightarrow>
         if length bs \<noteq> STH_ENCODED_LEN then Err (InvalidData ''bad sth length'')
         else Ok (Some (SignedTreeHead_from_bytes bs))
     | _ \<Rightarrow> Ok None) (request connection GetSth)"

definition request_presence ::
    "(Stream, io_error) res \<Rightarrow> PresenceRequest \<Rightarrow> (PresenceAttestation option, io_error) res \<times> bytes" where
  "request_presence connection req = on_reply (\<lambda>reply. case reply of
       Some (Attestation bs) \<Rightarrow>
         (case PresenceAttestation_from_canonical bs of
            Ok a \<Rightarrow> Ok (Some a)
          | Err _ \<Rightarrow> Ok None
          | Panic \<Rightarrow> Panic)
     | _ \<Rightarrow> Ok None) (request connection (Presence (PresenceRequest_to_canonical req)))"

section \<open>Serving many connections\<close>

text \<open>
  \<open>serve\<close> accepts connections and spawns a task for each; the tasks share the store. A step of
  the node is an accept or one turn of one task's loop: a turn locks the store at most once,
  and what it does outside the lock touches its own stream only.
\<close>

record Connection =
  cn_stream :: Stream
  cn_result :: "(unit, io_error) res option"

record Node =
  nd_store :: SharedStore
  nd_conns :: "Connection list"

fun received :: "nat \<Rightarrow> (Message option, io_error) res \<Rightarrow> (nat \<times> Message) list" where
  "received k (Ok (Some m)) = [(k, m)]"
| "received k _ = []"

text \<open>A step is labelled with the message it received and the number of the connection.\<close>

inductive serve_step :: "crypto \<Rightarrow> Node \<Rightarrow> (nat \<times> Message) list \<Rightarrow> Node \<Rightarrow> bool" for C where
  accept: "st_outbox st = [] \<Longrightarrow>
    serve_step C nd [] (nd\<lparr>nd_conns := nd_conns nd @ [\<lparr>cn_stream = st, cn_result = None\<rparr>]\<rparr>)"
| turn: "k < length (nd_conns nd) \<Longrightarrow> cn_result (nd_conns nd ! k) = None \<Longrightarrow>
    answer_step (respond_message C) (cn_stream (nd_conns nd ! k)) (nd_store nd) = (r, st, s) \<Longrightarrow>
    serve_step C nd (received k (fst (net_recv (cn_stream (nd_conns nd ! k)))))
      \<lparr>nd_store = s, nd_conns = (nd_conns nd)[k := \<lparr>cn_stream = st, cn_result = r\<rparr>]\<rparr>"

inductive serve_run :: "crypto \<Rightarrow> Node \<Rightarrow> (nat \<times> Message) list \<Rightarrow> Node \<Rightarrow> bool" for C nd0 where
  start: "serve_run C nd0 [] nd0"
| step: "serve_run C nd0 trace nd \<Longrightarrow> serve_step C nd l nd' \<Longrightarrow> serve_run C nd0 (trace @ l) nd'"

section \<open>Frames on a stream\<close>

definition frame_bytes :: "Message \<Rightarrow> bytes" where
  "frame_bytes m = u32_be (of_nat (length (Message_encode m))) @ Message_encode m"

definition fits :: "Message \<Rightarrow> bool" where
  "fits m \<longleftrightarrow> length (Message_encode m) \<le> MAX_FRAME"

lemma frame_fits: "fits m \<Longrightarrow> frame m = Ok (frame_bytes m)"
  by (simp add: fits_def frame_bytes_def frame_Ok)

lemma frame_unfit: "\<not> fits m \<Longrightarrow> frame m = Err (Protocol ''frame too large'')"
  using frame_cases [of m] by (auto simp: fits_def frame_Ok)

lemma small_fits: "length (message_payload m) \<le> 8000000 \<Longrightarrow> fits m"
  using length_Message_encode [of m] by (simp add: fits_def MAX_FRAME_def usize_max_def)

lemma payload_le_encode: "length (message_payload m) \<le> length (Message_encode m)"
  unfolding Message_encode_def encode_payload_shape
  by (simp add: encode_seq_def Encoder_into_bytes_def Encoder_bytes_def)

lemma fits_decode: "fits m \<Longrightarrow> message_wf m \<Longrightarrow> Message_decode (Message_encode m) = Ok m"
  using payload_le_encode [of m] by (intro message_roundtrip) (simp_all add: fits_def MAX_FRAME_def usize_max_def)

lemma net_recv_frame:
  assumes "fits m" and "message_wf m" and "st_inbox st = frame_bytes m @ rest"
  shows "net_recv st = (Ok (Some m), st\<lparr>st_inbox := rest\<rparr>)"
proof -
  have "unat (of_nat (length (Message_encode m)) :: u32) = length (Message_encode m)"
    using assms(1) by (simp add: fits_def MAX_FRAME_def unat_of_nat)
  then show ?thesis
    using assms fits_decode [OF assms(1,2)]
    by (simp add: net_recv_def stream_read_exact_def frame_bytes_def Let_def fits_def)
qed

lemma net_recv_end:
  "st_inbox st = [] \<Longrightarrow> \<not> st_reset st \<Longrightarrow> net_recv st = (Ok None, st)"
  by (simp add: net_recv_def stream_read_exact_def)

lemma net_send_open:
  "fits m \<Longrightarrow> st_room st = None \<Longrightarrow> net_send m st = (Ok (), st\<lparr>st_outbox := st_outbox st @ frame_bytes m\<rparr>)"
  by (simp add: net_send_def frame_fits stream_write_all_def)

lemma net_send_fits:
  "fits m \<Longrightarrow> fst (net_send m st) = Ok () \<or> fst (net_send m st) = Err BrokenPipe"
  by (simp add: net_send_def frame_fits stream_write_all_def split: option.split)

lemma net_recv_message:
  assumes "net_recv st = (Ok (Some m), st')"
  shows "message_wf m" and "\<exists>body. length body \<le> MAX_FRAME \<and> Message_decode body = Ok m"
    and "st_outbox st' = st_outbox st \<and> st_room st' = st_room st"
proof -
  let ?n = "unat (u32_of_be (take 4 (st_inbox st)))"
  from assms have d: "\<not> MAX_FRAME < ?n" "Message_decode (take ?n (drop 4 (st_inbox st))) = Ok m"
    and "st_outbox st' = st_outbox st \<and> st_room st' = st_room st"
    by (auto simp: net_recv_def stream_read_exact_def Let_def split: if_splits)
  moreover have *: "\<exists>body. length body \<le> MAX_FRAME \<and> Message_decode body = Ok m"
    using d by (intro exI [of _ "take ?n (drop 4 (st_inbox st))"]) simp
  ultimately show "\<exists>body. length body \<le> MAX_FRAME \<and> Message_decode body = Ok m"
    and "st_outbox st' = st_outbox st \<and> st_room st' = st_room st" by blast+
  from * show "message_wf m" using Message_decode_OkD decode_tagged_Ok by blast
qed

lemma net_recv_keeps: "st_outbox (snd (net_recv st)) = st_outbox st \<and> st_room (snd (net_recv st)) = st_room st"
  by (simp add: net_recv_def stream_read_exact_def Let_def)

lemma Message_decode_not_Panic: "Message_decode bs \<noteq> Panic"
  by (auto simp: Message_decode_def and_then_eq_Panic decoder_total decode_tagged_not_Panic split: if_splits)

lemma net_recv_not_Panic: "fst (net_recv st) \<noteq> Panic"
  by (auto simp: net_recv_def stream_read_exact_def Let_def and_then_eq_Panic Message_decode_not_Panic)

lemma net_recv_error: "fst (net_recv st) \<noteq> Err (InvalidData ''frame'')"
proof -
  have "and_then (map_err (\<lambda>_. InvalidData ''protocol'') (Message_decode bs)) (\<lambda>m. Ok (Some m))
      \<noteq> Err (InvalidData ''frame'')" for bs
    by (cases "Message_decode bs") simp_all
  then show ?thesis by (simp add: net_recv_def stream_read_exact_def Let_def)
qed

text \<open>A reply with stored data is as long as the request that stored it.\<close>

lemma stored_reply_fits:
  "fits (Drop raw) \<longleftrightarrow> fits (Put raw)" "fits (Chunk i n data) \<longleftrightarrow> fits (PutChunk i n data)"
proof -
  have "length (Message_encode m) = length (Message_encode m')"
    if "message_payload m = message_payload m'" "message_tag m < 24" "message_tag m' < 24" for m m'
    using that unfolding Message_encode_def encode_payload_shape
    by (simp add: encode_seq_def Encoder_into_bytes_def Encoder_bytes_def Encoder_uint_def buf_Encoder_head head_bytes_cases)
  from this [of "Drop raw" "Put raw"] this [of "Chunk i n data" "PutChunk i n data"]
  show "fits (Drop raw) \<longleftrightarrow> fits (Put raw)" "fits (Chunk i n data) \<longleftrightarrow> fits (PutChunk i n data)"
    by (simp_all add: fits_def)
qed

lemma received_put_fits:
  assumes "net_recv st = (Ok (Some m), st')" and "m = Put raw \<or> m = PutChunk i n data"
  shows "fits m"
proof -
  obtain body where b: "length body \<le> MAX_FRAME" "Message_decode body = Ok m"
    using net_recv_message(2) [OF assms(1)] by blast
  from Message_decode_OkD [OF b(2)] obtain tag payload where "length payload \<le> usize_max"
    "body = concat [array_bytes 2, uint_bytes tag, bytes_bytes payload]" "decode_tagged tag payload = Ok m" by blast
  moreover from this(3) have "tag = message_tag m" "payload = message_payload m"
    using assms(2) by (auto simp: decode_tagged_Ok)
  ultimately show ?thesis using b(1) by (simp add: fits_def Message_encode_pieces)
qed

section \<open>What the relay keeps\<close>

text \<open>
  The invariant of a relay's store: keys are unique, every drop is a decodable envelope with a
  valid signature filed under the hash of its bytes, and everything held fits a reply.
\<close>

definition valid_envelope :: "crypto \<Rightarrow> bytes \<Rightarrow> bool" where
  "valid_envelope C raw \<longleftrightarrow>
    (case SignedDrop_decode raw of Ok s \<Rightarrow> is_ok (SignedDrop_verify C s) | _ \<Rightarrow> False)"

definition relay_ok :: "crypto \<Rightarrow> SharedStore \<Rightarrow> bool" where
  "relay_ok C s \<longleftrightarrow> store_inv (ss_store s)
    \<and> (\<forall>i raw. get_drop (ss_store s) i = Some raw \<longrightarrow>
        valid_envelope C raw \<and> i = DropId_of C raw \<and> fits (Drop raw))
    \<and> (\<forall>i n data. get_chunk (ss_store s) i n = Some data \<longrightarrow> fits (Chunk i n data))"

lemma SignedDrop_decode_raw: "SignedDrop_decode bs = Ok s \<Longrightarrow> sd_raw s = bs"
  by (auto simp: SignedDrop_decode_def split: if_splits)

lemma SignedDrop_not_Panic [simp]: "SignedDrop_decode bs \<noteq> Panic" "SignedDrop_verify C s \<noteq> Panic"
proof -
  have np: "Decoder_array d \<noteq> Panic" "Decoder_uint d \<noteq> Panic" "Decoder_bytes d \<noteq> Panic"
    "Decoder_bytes_fixed n d \<noteq> Panic" "Decoder_finish d \<noteq> Panic" for d n
    by (auto simp: decoder_total)
  show "SignedDrop_decode bs \<noteq> Panic"
    by (auto simp: SignedDrop_decode_def and_then_eq_Panic np cbor_field_def split: if_splits)
  show "SignedDrop_verify C s \<noteq> Panic"
    by (auto simp: SignedDrop_verify_def and_then_eq_Panic Let_def verify_def verify_ml_dsa_not_Panic)
qed

lemma respond_put:
  "respond_message C (Put raw) s =
    (if valid_envelope C raw
     then (Ok (Stored (DropId_of C raw), True),
       if ss_poisoned s then s else s\<lparr>ss_store := put_drop (DropId_of C raw) raw (ss_store s)\<rparr>)
     else (Ok (Bye, True), s))"
  by (auto simp: valid_envelope_def SignedDrop_id_def Let_def SignedDrop_decode_raw split: res.split)

lemma relay_ok_new: "relay_ok C \<lparr>ss_poisoned = p, ss_store = MemoryStore_new\<rparr>"
  using memory.inv_empty by (simp add: relay_ok_def memory.getd_empty memory.get_empty)

lemma relay_ok_put_drop:
  "relay_ok C s \<Longrightarrow> valid_envelope C raw \<Longrightarrow> fits (Put raw) \<Longrightarrow>
    relay_ok C (s\<lparr>ss_store := put_drop (DropId_of C raw) raw (ss_store s)\<rparr>)"
  by (simp add: relay_ok_def memory.inv_putd memory.getd_putd memory.get_putd stored_reply_fits)

lemma relay_ok_put_chunk:
  "relay_ok C s \<Longrightarrow> fits (PutChunk i n data) \<Longrightarrow>
    relay_ok C (s\<lparr>ss_store := put_chunk i n data (ss_store s)\<rparr>)"
  by (simp add: relay_ok_def memory.inv_put memory.getd_put memory.get_put stored_reply_fits)

section \<open>The abstract relay\<close>

text \<open>
  What a relay promises: two maps, one request answered at a time. A request for something
  held returns it, a valid envelope is filed under its hash, a chunk under the identifier and
  index given, and anything a client should not send is answered with a farewell.
\<close>

type_synonym relay_state = "(DropId \<Rightarrow> bytes option) \<times> (DropId \<times> u32 \<Rightarrow> bytes option)"

fun relay_request :: "crypto \<Rightarrow> Message \<Rightarrow> relay_state \<Rightarrow> Message \<times> relay_state" where
  "relay_request C (Hello v) S = (Hello v, S)"
| "relay_request C (Want i) S = (case fst S i of Some raw \<Rightarrow> Drop raw | None \<Rightarrow> Missing i, S)"
| "relay_request C (WantChunk i n) S = (case snd S (i, n) of Some data \<Rightarrow> Chunk i n data | None \<Rightarrow> Missing i, S)"
| "relay_request C (Put raw) S =
    (if valid_envelope C raw then (Stored (DropId_of C raw), ((fst S)(DropId_of C raw \<mapsto> raw), snd S)) else (Bye, S))"
| "relay_request C (PutChunk i n data) S = (Stored i, (fst S, (snd S)((i, n) \<mapsto> data)))"
| "relay_request C _ S = (Bye, S)"

definition abs_relay :: "SharedStore \<Rightarrow> relay_state" where
  "abs_relay s = (get_drop (ss_store s), \<lambda>(i, n). get_chunk (ss_store s) i n)"

text \<open>All requests of a run, one after the other: the replies and the final state.\<close>

fun relay_serial :: "crypto \<Rightarrow> (nat \<times> Message) list \<Rightarrow> relay_state \<Rightarrow> (nat \<times> Message) list \<times> relay_state" where
  "relay_serial C [] S = ([], S)"
| "relay_serial C ((k, m) # trace) S =
    (let (reply, S1) = relay_request C m S; (replies, S2) = relay_serial C trace S1 in ((k, reply) # replies, S2))"

lemma relay_serial_append:
  "relay_serial C (xs @ ys) S =
    (let (r1, S1) = relay_serial C xs S; (r2, S2) = relay_serial C ys S1 in (r1 @ r2, S2))"
  by (induction C xs S rule: relay_serial.induct) (simp_all add: Let_def split: prod.splits)

lemma length_DropId_of: "sha256_laws C \<Longrightarrow> length (as_bytes (DropId_of C raw)) = 32"
  by (simp add: DropId_of_def sha256_laws_def)

lemma respond_refines:
  assumes "sha256_laws C" "relay_ok C s" "\<not> ss_poisoned s" "message_wf m"
    and "\<And>raw. m = Put raw \<Longrightarrow> fits m" "\<And>i n data. m = PutChunk i n data \<Longrightarrow> fits m"
  shows "\<exists>c s'. respond_message C m s = (Ok (fst (relay_request C m (abs_relay s)), c), s')
    \<and> abs_relay s' = snd (relay_request C m (abs_relay s)) \<and> relay_ok C s' \<and> \<not> ss_poisoned s'
    \<and> fits (fst (relay_request C m (abs_relay s)))"
proof -
  have small: "fits (Hello v)" "length (as_bytes i) = 32 \<Longrightarrow> fits (Missing i)"
    "length (as_bytes i) = 32 \<Longrightarrow> fits (Stored i)" "fits Bye" for v i
    by (simp_all add: small_fits)
  show ?thesis
  proof (cases m)
    case (Put raw)
    then show ?thesis
      using assms relay_ok_put_drop [of C s raw] length_DropId_of [OF assms(1), of raw]
      by (auto simp add: respond_put small abs_relay_def memory.getd_putd memory.get_putd fun_eq_iff simp del: respond_message.simps)
  next
    case (PutChunk i n data)
    then show ?thesis
      using assms relay_ok_put_chunk [of C s i n data]
      by (auto simp: small abs_relay_def memory.getd_put memory.get_put fun_eq_iff)
  next
    case (Want i)
    then show ?thesis using assms(2-4) by (auto simp: small abs_relay_def relay_ok_def split: option.split)
  next
    case (WantChunk i n)
    then show ?thesis using assms(2-4) by (auto simp: small abs_relay_def relay_ok_def split: option.split)
  qed (use assms(2-4) small in auto)
qed

lemma answer_step_relay:
  assumes "sha256_laws C" "relay_ok C s" "\<not> ss_poisoned s"
    and "answer_step (respond_message C) st s = (r, st', s')"
    and R_def: "R = relay_serial C (received k (fst (net_recv st))) (abs_relay s)"
  shows "relay_ok C s'" "\<not> ss_poisoned s'" "abs_relay s' = snd R"
    "r \<noteq> Some Panic" "r \<noteq> Some (Err (InvalidData ''frame''))"
    "st_room st' = None \<longleftrightarrow> st_room st = None"
    "st_room st = None \<Longrightarrow> st_outbox st' = st_outbox st @ concat (map (frame_bytes \<circ> snd) (fst R))"
    "fst ` set (fst R) \<subseteq> {k}"
proof -
  obtain q st1 where q: "net_recv st = (q, st1)" by (cases "net_recv st")
  have keeps: "st_outbox st1 = st_outbox st" "st_room st1 = st_room st" using net_recv_keeps [of st] q by simp_all
  have "relay_ok C s' \<and> \<not> ss_poisoned s' \<and> abs_relay s' = snd R
    \<and> r \<noteq> Some Panic \<and> r \<noteq> Some (Err (InvalidData ''frame''))
    \<and> (st_room st' = None \<longleftrightarrow> st_room st = None)
    \<and> (st_room st = None \<longrightarrow> st_outbox st' = st_outbox st @ concat (map (frame_bytes \<circ> snd) (fst R)))
    \<and> fst ` set (fst R) \<subseteq> {k}"
  proof (cases "\<exists>m. q = Ok (Some m)")
    case False
    then have "s' = s" "st' = st1" "R = ([], abs_relay s)" "r \<noteq> Some Panic" "r \<noteq> Some (Err (InvalidData ''frame''))"
      using assms(4) q net_recv_not_Panic [of st] net_recv_error [of st]
      by (auto simp: answer_step_def R_def split: res.splits option.splits if_splits)
    then show ?thesis using assms(2,3) keeps by simp
  next
    case True
    then obtain m where m: "q = Ok (Some m)" by blast
    note rc = q [unfolded m]
    let ?reply = "fst (relay_request C m (abs_relay s))"
    obtain c t where h: "respond_message C m s = (Ok (?reply, c), t)"
      and t: "abs_relay t = snd (relay_request C m (abs_relay s))" "relay_ok C t" "\<not> ss_poisoned t" "fits ?reply"
      using respond_refines [OF assms(1-3) net_recv_message(1) [OF rc]] received_put_fits [OF rc] by blast
    have R: "R = ([(k, ?reply)], snd (relay_request C m (abs_relay s)))"
      by (simp add: R_def q m split: prod.split)
    from net_send_fits [OF t(4), of st1] assms(4) have "s' = t" "st' = snd (net_send ?reply st1)"
      "r \<noteq> Some Panic" "r \<noteq> Some (Err (InvalidData ''frame''))"
      by (auto simp: answer_step_def rc h split: prod.splits res.splits if_splits)
    then show ?thesis using t keeps R net_send_open [OF t(4), of st1] by simp
  qed
  then show "relay_ok C s'" "\<not> ss_poisoned s'" "abs_relay s' = snd R"
    "r \<noteq> Some Panic" "r \<noteq> Some (Err (InvalidData ''frame''))"
    "st_room st' = None \<longleftrightarrow> st_room st = None"
    "st_room st = None \<Longrightarrow> st_outbox st' = st_outbox st @ concat (map (frame_bytes \<circ> snd) (fst R))"
    "fst ` set (fst R) \<subseteq> {k}" by blast+
qed

text \<open>What holds of every node that started empty-handed or with a store in order.\<close>

definition replies_to :: "nat \<Rightarrow> (nat \<times> Message) list \<Rightarrow> bytes" where
  "replies_to k replies = concat (map (frame_bytes \<circ> snd) (filter (\<lambda>p. fst p = k) replies))"

definition node_inv :: "crypto \<Rightarrow> relay_state \<Rightarrow> (nat \<times> Message) list \<Rightarrow> Node \<Rightarrow> bool" where
  "node_inv C S trace nd \<longleftrightarrow> relay_ok C (nd_store nd) \<and> \<not> ss_poisoned (nd_store nd)
    \<and> abs_relay (nd_store nd) = snd (relay_serial C trace S)
    \<and> (\<forall>k \<in> fst ` set (fst (relay_serial C trace S)). k < length (nd_conns nd))
    \<and> (\<forall>k < length (nd_conns nd).
        cn_result (nd_conns nd ! k) \<notin> {Some Panic, Some (Err (InvalidData ''frame''))}
        \<and> (st_room (cn_stream (nd_conns nd ! k)) = None \<longrightarrow>
            st_outbox (cn_stream (nd_conns nd ! k)) = replies_to k (fst (relay_serial C trace S))))"

lemma node_inv_turn:
  assumes "sha256_laws C" "node_inv C S trace nd" "k < length (nd_conns nd)"
    and "answer_step (respond_message C) (cn_stream (nd_conns nd ! k)) (nd_store nd) = (r, st, s)"
  shows "node_inv C S (trace @ received k (fst (net_recv (cn_stream (nd_conns nd ! k)))))
    \<lparr>nd_store = s, nd_conns = (nd_conns nd)[k := \<lparr>cn_stream = st, cn_result = r\<rparr>]\<rparr>"
proof -
  let ?st = "cn_stream (nd_conns nd ! k)"
  define R where "R = relay_serial C (received k (fst (net_recv ?st))) (abs_relay (nd_store nd))"
  have inv: "relay_ok C (nd_store nd)" "\<not> ss_poisoned (nd_store nd)"
    and abs: "abs_relay (nd_store nd) = snd (relay_serial C trace S)"
    using assms(2) by (simp_all add: node_inv_def)
  note step = answer_step_relay [OF assms(1) inv assms(4) R_def]
  have run: "relay_serial C (trace @ received k (fst (net_recv ?st))) S
      = (fst (relay_serial C trace S) @ fst R, snd R)"
    by (simp add: relay_serial_append R_def abs split: prod.split)
  have own: "replies_to k (xs @ fst R) = replies_to k xs @ concat (map (frame_bytes \<circ> snd) (fst R))" for xs
  proof -
    have "filter (\<lambda>p. fst p = k) (fst R) = fst R" using step(8) by (auto simp: filter_id_conv)
    then show ?thesis by (simp add: replies_to_def)
  qed
  have other: "replies_to j (xs @ fst R) = replies_to j xs" if "j \<noteq> k" for j xs
  proof -
    have "filter (\<lambda>p. fst p = j) (fst R) = []" using step(8) that by (auto simp: filter_empty_conv)
    then show ?thesis by (simp add: replies_to_def)
  qed
  show ?thesis
    using assms(2,3) step
    by (auto simp: node_inv_def run own other nth_list_update)
qed

lemma node_inv_accept:
  assumes "node_inv C S trace nd" "st_outbox st = []"
  shows "node_inv C S trace (nd\<lparr>nd_conns := nd_conns nd @ [\<lparr>cn_stream = st, cn_result = None\<rparr>]\<rparr>)"
proof -
  let ?R = "fst (relay_serial C trace S)" and ?n = "length (nd_conns nd)"
  have "filter (\<lambda>p. fst p = ?n) ?R = []" using assms(1) by (force simp: node_inv_def filter_empty_conv)
  then have "replies_to ?n ?R = []" by (simp add: replies_to_def)
  then show ?thesis using assms by (auto simp: node_inv_def nth_append less_Suc_eq)
qed

lemma node_inv_run:
  assumes "serve_run C nd0 trace nd" "sha256_laws C" "relay_ok C (nd_store nd0)" "\<not> ss_poisoned (nd_store nd0)"
    and "nd_conns nd0 = []"
  shows "node_inv C (abs_relay (nd_store nd0)) trace nd"
  using assms(1)
proof induction
  case start
  then show ?case using assms(3-5) by (simp add: node_inv_def)
next
  case (step trace nd l nd')
  from step(2) show ?case
  proof cases
    case (accept st)
    then show ?thesis using node_inv_accept [OF step(3)] by simp
  next
    case (turn k r st s)
    then show ?thesis using node_inv_turn [OF assms(2) step(3)] by simp
  qed
qed

section \<open>A client talks to a server\<close>

text \<open>
  A session: both ends run on what the other one wrote. The connection loses nothing and the
  client closes it when its function returns.
\<close>

definition open_stream :: "bytes \<Rightarrow> Stream" where
  "open_stream incoming = \<lparr>st_inbox = incoming, st_reset = False, st_room = None, st_outbox = []\<rparr>"

definition session ::
    "(Stream \<Rightarrow> 's \<Rightarrow> (unit, io_error) res \<times> Stream \<times> 's) \<Rightarrow> 's
      \<Rightarrow> ((Stream, io_error) res \<Rightarrow> ('a, io_error) res \<times> bytes) \<Rightarrow> ('a, io_error) res \<Rightarrow> 's \<Rightarrow> bool" where
  "session server s client answer s' \<longleftrightarrow>
    (\<exists>to_server to_client r st. client (Ok (open_stream to_client)) = (answer, to_server)
      \<and> server (open_stream to_server) s = (r, st, s') \<and> st_outbox st = to_client)"

lemma session_on_reply:
  "session server s (\<lambda>conn. on_reply f (request conn m)) b s' \<longleftrightarrow>
    (\<exists>a. session server s (\<lambda>conn. request conn m) a s' \<and> b = and_then a f)"
  unfolding session_def on_reply_def case_prod_beta prod_eq_iff fst_conv snd_conv by blast

text \<open>What a client writes: a greeting, and its request if a greeting or the end of the stream comes back.\<close>

lemma request_sends:
  assumes "fits m"
  defines "h \<equiv> frame_bytes (Hello PROTO_VERSION)"
  shows "snd (request (Ok (open_stream tc)) m) = h @ frame_bytes m \<or>
    snd (request (Ok (open_stream tc)) m) = h \<and> \<not> is_ok (fst (net_recv (open_stream tc\<lparr>st_outbox := h\<rparr>)))"
proof -
  have h: "net_send (Hello PROTO_VERSION) (open_stream tc) = (Ok (), open_stream tc\<lparr>st_outbox := h\<rparr>)"
    by (simp add: net_send_open small_fits open_stream_def h_def)
  obtain q st where q: "net_recv (open_stream tc\<lparr>st_outbox := h\<rparr>) = (q, st)" by (cases rule: prod.exhaust)
  then have st: "st_outbox st = h" "st_room st = None"
    using net_recv_keeps [of "open_stream tc\<lparr>st_outbox := h\<rparr>"] by (simp_all add: open_stream_def)
  have "st_outbox (snd (net_recv (st\<lparr>st_outbox := h @ frame_bytes m\<rparr>))) = h @ frame_bytes m"
    by (simp add: net_recv_keeps)
  then show ?thesis
    by (cases q; cases "net_recv (st\<lparr>st_outbox := h @ frame_bytes m\<rparr>)")
      (simp_all add: request_def h q st net_send_open [OF assms(1)])
qed

text \<open>What all servers have in common: they return a greeting and go on.\<close>

locale responder =
  fixes handle :: "Message \<Rightarrow> 's \<Rightarrow> (Message \<times> bool, io_error) res \<times> 's"
  assumes greets: "handle (Hello v) s = (Ok (Hello v, True), s)"
begin

lemma step_message:
  assumes "fits m" "message_wf m" "st_inbox st = frame_bytes m @ rest" "st_room st = None"
    and "handle m s = (Ok (reply, c), s')" "fits reply"
  shows "answer_step handle st s = (if c then None else Some (Ok ()),
    st\<lparr>st_inbox := rest, st_outbox := st_outbox st @ frame_bytes reply\<rparr>, s')"
  using assms by (simp add: answer_step_def net_recv_frame net_send_open)

lemma greeting_fits: "fits (Hello v)" "message_wf (Hello v)"
  by (simp_all add: small_fits)

lemma loop_end: "answer_loop handle \<lparr>st_inbox = [], st_reset = False, st_room = None, st_outbox = out\<rparr> s
    = (Ok (), \<lparr>st_inbox = [], st_reset = False, st_room = None, st_outbox = out\<rparr>, s)"
  by (simp add: answer_loop.simps [of handle] answer_step_def net_recv_end)

lemma loop_greeting:
  "answer_loop handle (open_stream (frame_bytes (Hello v) @ rest)) s
    = answer_loop handle \<lparr>st_inbox = rest, st_reset = False, st_room = None, st_outbox = frame_bytes (Hello v)\<rparr> s"
  using step_message [OF greeting_fits, of "open_stream (frame_bytes (Hello v) @ rest)" v rest s, OF _ _ greets greeting_fits(1)]
  by (subst answer_loop.simps) (simp add: open_stream_def)

lemma loop_request:
  assumes "fits m" "message_wf m" "handle m s = (Ok (reply, c), s')" "fits reply"
  shows "answer_loop handle \<lparr>st_inbox = frame_bytes m, st_reset = False, st_room = None, st_outbox = out\<rparr> s
    = (Ok (), \<lparr>st_inbox = [], st_reset = False, st_room = None, st_outbox = out @ frame_bytes reply\<rparr>, s')"
  using step_message [OF assms(1,2) _ _ assms(3,4), of "\<lparr>st_inbox = frame_bytes m, st_reset = False, st_room = None, st_outbox = out\<rparr>" "[]"]
  by (subst answer_loop.simps) (simp add: loop_end)

text \<open>A client's request reaches the handler, and the handler's reply reaches the client.\<close>

lemma request_served:
  assumes "fits m" "message_wf m" "handle m s = (Ok (reply, c), s')" "fits reply" "message_wf reply"
  shows "session (answer_loop handle) s (\<lambda>conn. request conn m) a t \<longleftrightarrow> a = Ok (Some reply) \<and> t = s'"
proof -
  let ?h = "frame_bytes (Hello PROTO_VERSION)" and ?f = "frame_bytes m" and ?g = "frame_bytes reply"
  have server: "answer_loop handle (open_stream (?h @ ?f)) s
      = (Ok (), \<lparr>st_inbox = [], st_reset = False, st_room = None, st_outbox = ?h @ ?g\<rparr>, s')"
    by (simp add: loop_greeting loop_request [OF assms(1-4)])
  have greeting: "answer_loop handle (open_stream ?h) s
      = (Ok (), \<lparr>st_inbox = [], st_reset = False, st_room = None, st_outbox = ?h\<rparr>, s)"
    using loop_greeting [of _ "[]"] by (simp add: loop_end)
  have client: "request (Ok (open_stream (?h @ ?g))) m = (Ok (Some reply), ?h @ ?f)"
    using assms(1) greeting_fits(1) net_recv_frame [OF greeting_fits, where rest = ?g]
      net_recv_frame [OF assms(4,5), where rest = "[]"]
    by (simp add: request_def open_stream_def net_send_open)
  have sent: "snd (request (Ok (open_stream tc)) m) = ?h @ ?f \<or>
      snd (request (Ok (open_stream tc)) m) = ?h \<and> \<not> is_ok (fst (net_recv (open_stream tc\<lparr>st_outbox := ?h\<rparr>)))" for tc
    using request_sends [OF assms(1)] by blast
  have got: "is_ok (fst (net_recv (open_stream ?h\<lparr>st_outbox := ?h\<rparr>)))"
    using net_recv_frame [OF greeting_fits, where rest = "[]"] by (simp add: open_stream_def)
  show ?thesis
  proof
    assume "session (answer_loop handle) s (\<lambda>conn. request conn m) a t"
    then obtain ts tc r st where x: "request (Ok (open_stream tc)) m = (a, ts)"
      "answer_loop handle (open_stream ts) s = (r, st, t)" "st_outbox st = tc"
      by (auto simp: session_def)
    have "ts \<noteq> ?h"
    proof
      assume "ts = ?h"
      then have "tc = ?h" using x(2,3) greeting by auto
      moreover have "4 \<le> length ?f" by (simp add: frame_bytes_def)
      ultimately show False using sent [of tc] x(1) \<open>ts = ?h\<close> got by auto
    qed
    then have "ts = ?h @ ?f" using sent [of tc] x(1) by auto
    then show "a = Ok (Some reply) \<and> t = s'" using x server client by auto
  next
    assume "a = Ok (Some reply) \<and> t = s'"
    then show "session (answer_loop handle) s (\<lambda>conn. request conn m) a t"
      unfolding session_def using client server by fastforce
  qed
qed

end

interpretation relay_server: responder "respond_message C" for C by unfold_locales simp
interpretation log_server: responder sth_message by unfold_locales simp
interpretation witness_server: responder "witness_message C witness cell" for C witness cell by unfold_locales simp

section \<open>Properties\<close>

text \<open>A first run, for the witnesses: one connection that asks for a drop the relay does not hold.\<close>

lemma first_run:
  fixes C :: crypto
  assumes "length (as_bytes i) = 32"
  defines "nd0 \<equiv> \<lparr>nd_store = \<lparr>ss_poisoned = False, ss_store = MemoryStore_new\<rparr>, nd_conns = []\<rparr>"
  shows "serve_run C nd0 [(0, Want i)] (nd0\<lparr>nd_conns :=
    [\<lparr>cn_stream = (open_stream [])\<lparr>st_outbox := frame_bytes (Missing i)\<rparr>, cn_result = None\<rparr>]\<rparr>)"
proof -
  let ?st = "open_stream (frame_bytes (Want i))"
  let ?nd1 = "nd0\<lparr>nd_conns := [\<lparr>cn_stream = ?st, cn_result = None\<rparr>]\<rparr>"
  have fit: "fits (Want i)" "fits (Missing i)" "message_wf (Want i)" using assms(1) by (simp_all add: small_fits)
  have h: "respond_message C (Want i) (nd_store nd0) = (Ok (Missing i, True), nd_store nd0)"
    by (simp add: nd0_def memory.getd_empty)
  have recv: "fst (net_recv ?st) = Ok (Some (Want i))"
    using net_recv_frame [OF fit(1,3), of ?st "[]"] by (simp add: open_stream_def)
  have step: "answer_step (respond_message C) ?st (nd_store nd0)
      = (None, (open_stream [])\<lparr>st_outbox := frame_bytes (Missing i)\<rparr>, nd_store nd0)"
    using relay_server.step_message [OF fit(1,3) _ _ h fit(2), of ?st "[]"] by (simp add: open_stream_def)
  have "serve_step C nd0 [] ?nd1"
    using serve_step.accept [of ?st C nd0] by (simp add: nd0_def open_stream_def)
  then have "serve_run C nd0 ([] @ []) ?nd1" by (rule serve_run.step [OF serve_run.start])
  moreover have "serve_step C ?nd1 [(0, Want i)]
      \<lparr>nd_store = nd_store nd0, nd_conns =
        [\<lparr>cn_stream = (open_stream [])\<lparr>st_outbox := frame_bytes (Missing i)\<rparr>, cn_result = None\<rparr>]\<rparr>"
    using serve_step.turn [of 0 ?nd1 C None "(open_stream [])\<lparr>st_outbox := frame_bytes (Missing i)\<rparr>" "nd_store nd0"]
      step recv by (simp add: nd0_def)
  ultimately show ?thesis using serve_run.step by (fastforce simp: nd0_def)
qed

text \<open>
  C26. The relay is serializable. However the turns of its connections interleave, and
  whatever bytes the peers send, the store is what the abstract relay reaches by answering
  the received requests one after the other, and every connection whose peer keeps reading
  has been sent exactly the frames of the replies to its own requests, in order.
\<close>

theorem serve_serializable:
  assumes "serve_run C nd0 trace nd" and "sha256_laws C"
    and "nd0 = \<lparr>nd_store = \<lparr>ss_poisoned = False, ss_store = MemoryStore_new\<rparr>, nd_conns = []\<rparr>"
  shows "abs_relay (nd_store nd) = snd (relay_serial C trace (abs_relay (nd_store nd0)))
    \<and> (\<forall>k < length (nd_conns nd). st_room (cn_stream (nd_conns nd ! k)) = None \<longrightarrow>
        st_outbox (cn_stream (nd_conns nd ! k))
          = concat (map (\<lambda>(_, reply). frame_bytes reply)
              (filter (\<lambda>(j, _). j = k) (fst (relay_serial C trace (abs_relay (nd_store nd0)))))))"
proof -
  have "node_inv C (abs_relay (nd_store nd0)) trace nd"
    using node_inv_run [OF assms(1,2)] relay_ok_new assms(3) by simp
  moreover have "replies_to k xs = concat (map (\<lambda>(_, reply). frame_bytes reply) (filter (\<lambda>(j, _). j = k) xs))" for k xs
    by (induction xs) (auto simp: replies_to_def)
  ultimately show ?thesis by (simp add: node_inv_def)
qed


theorem serve_serializable_witness:
  "\<exists>nd trace. trace = [(0, Want (DropId (replicate 32 7)))]
    \<and> serve_run toy_crypto \<lparr>nd_store = \<lparr>ss_poisoned = False, ss_store = MemoryStore_new\<rparr>, nd_conns = []\<rparr> trace nd
    \<and> st_outbox (cn_stream (nd_conns nd ! 0)) = frame_bytes (Missing (DropId (replicate 32 7)))"
proof -
  let ?nd0 = "\<lparr>nd_store = \<lparr>ss_poisoned = False, ss_store = MemoryStore_new\<rparr>, nd_conns = []\<rparr>"
  let ?i = "DropId (replicate 32 7)"
  have run: "serve_run toy_crypto ?nd0 [(0, Want ?i)] (?nd0\<lparr>nd_conns :=
      [\<lparr>cn_stream = (open_stream [])\<lparr>st_outbox := frame_bytes (Missing ?i)\<rparr>, cn_result = None\<rparr>]\<rparr>)"
    by (rule first_run) simp
  have "abs_relay (nd_store ?nd0) = (\<lambda>_. None, \<lambda>_. None)"
    by (auto simp: abs_relay_def memory.getd_empty memory.get_empty fun_eq_iff)
  then show ?thesis
    using serve_serializable [OF run toy_sha256_laws refl] run by (intro exI conjI) (auto simp: open_stream_def)
qed


text \<open>
  C28. Push, then fetch. On a working connection, pushing an envelope to a relay whose store is
  in order returns true exactly when the envelope decodes and verifies, and only then stores
  it; afterwards every fetch of its hash returns the same bytes, a fetch of anything else
  returns what was there before, and a fetch changes nothing. In all cases both ends
  terminate with these results and no others.
\<close>

theorem relay_push_fetch:
  assumes "sha256_laws C" and "relay_ok C s" and "\<not> ss_poisoned s"
    and "length raw \<le> 8000000" and "length (as_bytes i) = 32"
    and "s' = (if valid_envelope C raw then s\<lparr>ss_store := put_drop (DropId_of C raw) raw (ss_store s)\<rparr> else s)"
  shows "(session (respond C) s (\<lambda>conn. push_drop conn raw) pushed t
      \<longleftrightarrow> pushed = Ok (valid_envelope C raw) \<and> t = s')
    \<and> (session (respond C) s' (\<lambda>conn. fetch conn i) fetched u
      \<longleftrightarrow> fetched = Ok (if valid_envelope C raw \<and> i = DropId_of C raw then Some raw else get_drop (ss_store s) i)
        \<and> u = s')"
proof -
  have fit: "fits (Put raw)" "fits (Want i)" "fits (Missing i)" "fits Bye" "fits (Stored (DropId_of C raw))"
    using assms(4,5) length_DropId_of [OF assms(1)] by (simp_all add: small_fits)
  let ?reply = "if valid_envelope C raw then Stored (DropId_of C raw) else Bye"
  have h: "respond_message C (Put raw) s = (Ok (?reply, True), s')"
    using assms(3,6) by (simp add: respond_put del: respond_message.simps)
  have fr: "fits ?reply" "message_wf ?reply" using fit length_DropId_of [OF assms(1)] by simp_all
  note served = relay_server.request_served [OF fit(1) _ h fr, folded respond_def]
  have push: "session (respond C) s (\<lambda>conn. push_drop conn raw) pushed t
      \<longleftrightarrow> pushed = Ok (valid_envelope C raw) \<and> t = s'"
    by (auto simp: push_drop_def session_on_reply served)
  have ok: "relay_ok C s'" "\<not> ss_poisoned s'" using assms relay_ok_put_drop fit(1) by simp_all
  let ?got = "case get_drop (ss_store s') i of Some raw \<Rightarrow> Drop raw | None \<Rightarrow> Missing i"
  have h: "respond_message C (Want i) s' = (Ok (?got, True), s')" using ok(2) by (simp split: option.split)
  have fr: "fits ?got" "message_wf ?got"
    using ok(1) fit(3) assms(5) by (auto simp: relay_ok_def split: option.split)
  note served = relay_server.request_served [OF fit(2) _ h fr, folded respond_def]
  have "session (respond C) s' (\<lambda>conn. fetch conn i) fetched u
      \<longleftrightarrow> fetched = Ok (get_drop (ss_store s') i) \<and> u = s'"
    using assms(5) by (cases "get_drop (ss_store s') i") (auto simp: fetch_def session_on_reply served)
  then show ?thesis using push assms(6) by (auto simp: memory.getd_putd)
qed

theorem relay_push_fetch_witness:
  "let s = \<lparr>ss_poisoned = False, ss_store = MemoryStore_new\<rparr> in
   session (respond toy_crypto) s (\<lambda>conn. push_drop conn []) (Ok False) s
   \<and> session (respond toy_crypto) s (\<lambda>conn. fetch conn (DropId (replicate 32 1))) (Ok None) s"
proof -
  have "\<not> is_ok (SignedDrop_decode [])"
    by (simp add: SignedDrop_decode_def Decoder_array_def Decoder_expect_def read_head_def read_u8_def Decoder_new_def)
  then have bad: "\<not> valid_envelope toy_crypto []" by (auto simp: valid_envelope_def split: res.splits)
  let ?s = "\<lparr>ss_poisoned = False, ss_store = MemoryStore_new\<rparr>"
  show ?thesis
    using relay_push_fetch [OF toy_sha256_laws relay_ok_new, of False "[]" "DropId (replicate 32 1)" ?s] bad
    by (simp add: Let_def memory.getd_empty)
qed

text \<open>
  A log node's tree head arrives unchanged: fetching the signed tree head of a log returns
  exactly that head and nothing else.
\<close>

lemma sth_gossip:
  assumes "sth_wf sth"
  shows "session sth_respond sth fetch_sth answer sth' \<longleftrightarrow> answer = Ok (Some sth) \<and> sth' = sth"
proof -
  have len: "length (SignedTreeHead_to_bytes sth) = STH_ENCODED_LEN"
    using assms by (simp add: sth_wf_def SignedTreeHead_to_bytes_def STH_ENCODED_LEN_def)
  have inv: "SignedTreeHead_from_bytes (SignedTreeHead_to_bytes sth) = sth"
    using assms by (simp add: sth_wf_def SignedTreeHead_to_bytes_def SignedTreeHead_from_bytes_def)
  have "fits GetSth" "fits (Sth (SignedTreeHead_to_bytes sth))"
    using len by (simp_all add: small_fits STH_ENCODED_LEN_def)
  then show ?thesis
    using len inv log_server.request_served [of GetSth sth "Sth (SignedTreeHead_to_bytes sth)" True sth]
    by (auto simp: fetch_sth_def [abs_def] sth_respond_def session_on_reply)
qed

lemma sth_gossip_witness:
  "let sth = \<lparr>sth_tree_size = 1, sth_root = replicate 32 1, sth_timestamp = 5, sth_log_public = replicate 32 2,
     sth_signature = replicate 64 3\<rparr>
   in session sth_respond sth fetch_sth (Ok (Some sth)) sth"
proof -
  let ?sth = "\<lparr>sth_tree_size = 1, sth_root = replicate 32 1, sth_timestamp = 5, sth_log_public = replicate 32 2,
     sth_signature = replicate 64 3\<rparr>"
  have "sth_wf ?sth" by (simp add: sth_wf_def)
  from sth_gossip [OF this] show ?thesis by (simp add: Let_def)
qed

text \<open>
  Asking a witness for presence. A witness attests exactly the requests for its own cell,
  with the time of its clock; the attestation arrives intact, names the request's nonce and
  claimant, and verifies. A request for another cell is answered with nothing.
\<close>

lemma presence_over_the_wire:
  assumes "sha256_laws C" and "ed25519_laws C" and "identity_wf w"
    and "request_wf req" and "length (pr_cell req) \<le> 1000000"
    and "a = PresenceAttestation_sign C w req 0 (unwrap_or 0 (fst (next_reading clock)))"
  shows "(session (witness_respond C w cell) clock (\<lambda>conn. request_presence conn req) answer clock'
      \<longleftrightarrow> (if pr_cell req = cell then answer = Ok (Some a) \<and> clock' = snd (next_reading clock)
         else answer = Ok None \<and> clock' = clock))
    \<and> PresenceAttestation_verify C a = Ok ()"
proof -
  have wf: "attestation_wf a"
    using assms(4,6) length_identity [OF assms(2,3)]
    by (simp add: attestation_wf_def request_wf_def PresenceAttestation_sign_def Let_def)
  have ra: "pa_cell a = pr_cell req" "length (pa_nonce a) = 16" "length (pa_claimant a) = 32"
    "length (pa_witness a) = 32" "length (pa_signature a) = 64"
    using wf assms(6) by (simp_all add: attestation_wf_def PresenceAttestation_sign_def Let_def)
  have rl: "length (PresenceRequest_to_canonical req) \<le> 1001000"
    using assms(4,5) wire_lengths(2) [of 4] wire_lengths(4) [of "pr_cell req"] wire_lengths(3) [of "pr_nonce req"]
      wire_lengths(3) [of "pr_claimant req"] wire_lengths(1) [of "pr_expiry req"]
    unfolding request_to_canonical [OF assms(4)] request_pieces_def by (simp add: request_wf_def)
  have al: "length (PresenceAttestation_to_canonical a) \<le> 1001000"
    using assms(5) ra wire_lengths(2) [of 7] wire_lengths(4) [of "pa_cell a"] wire_lengths(3) [of "pa_nonce a"]
      wire_lengths(3) [of "pa_claimant a"] wire_lengths(1) [of "ucast (pa_rtt_bucket a)"] wire_lengths(1) [of "pa_timestamp a"]
      wire_lengths(3) [of "pa_witness a"] wire_lengths(3) [of "pa_signature a"]
    unfolding attestation_to_canonical [OF wf] attestation_pieces_def by simp
  have req: "PresenceRequest_from_canonical (PresenceRequest_to_canonical req) = Ok req"
    by (rule request_complete) (use assms(4) rl in \<open>simp_all add: usize_max_def\<close>)
  have att: "PresenceAttestation_from_canonical (PresenceAttestation_to_canonical a) = Ok a"
    by (rule attestation_complete) (use wf al in \<open>simp_all add: usize_max_def\<close>)
  let ?m = "Presence (PresenceRequest_to_canonical req)" and ?miss = "Missing (DropId_of C (str_bytes ''cell''))"
  let ?att = "Attestation (PresenceAttestation_to_canonical a)"
  have fit: "fits ?m" "fits ?miss" "fits ?att" "message_wf ?miss" "message_wf ?m" "message_wf ?att"
    using rl al length_DropId_of [OF assms(1)] by (simp_all add: small_fits)
  have h: "witness_message C w cell ?m clock =
      (if pr_cell req = cell then (Ok (?att, True), snd (next_reading clock)) else (Ok (?miss, True), clock))"
    using assms(6) by (simp add: req SystemClock_now_unix_def split: prod.split)
  note served = witness_server.request_served [OF fit(1,5), where s = clock, folded witness_respond_def]
  have "session (witness_respond C w cell) clock (\<lambda>conn. request_presence conn req) answer clock'
      \<longleftrightarrow> (if pr_cell req = cell then answer = Ok (Some a) \<and> clock' = snd (next_reading clock)
         else answer = Ok None \<and> clock' = clock)"
    using served [where cell = cell and reply = ?att, OF _ fit(3,6)] served [where cell = cell and reply = ?miss, OF _ fit(2,4)]
      att h by (cases "pr_cell req = cell") (auto simp: request_presence_def session_on_reply simp del: witness_message.simps)
  then show ?thesis using assms(2,3,6) by simp
qed

lemma presence_over_the_wire_witness:
  "let w = \<lparr>signing = replicate 32 4, ecdh = replicate 32 0\<rparr>;
       req = \<lparr>pr_cell = ''8f'', pr_nonce = replicate 16 1, pr_claimant = replicate 32 2, pr_expiry = 99\<rparr>
   in session (witness_respond toy_crypto w ''8f'') [Some 77] (\<lambda>conn. request_presence conn req)
        (Ok (Some (PresenceAttestation_sign toy_crypto w req 0 77))) []
      \<and> session (witness_respond toy_crypto w ''90'') [Some 77] (\<lambda>conn. request_presence conn req) (Ok None) [Some 77]"
proof -
  let ?w = "\<lparr>signing = replicate 32 4, ecdh = replicate 32 0\<rparr> :: Identity"
  let ?req = "\<lparr>pr_cell = ''8f'', pr_nonce = replicate 16 1, pr_claimant = replicate 32 2, pr_expiry = 99\<rparr> :: PresenceRequest"
  have "identity_wf ?w" "request_wf ?req" "length (pr_cell ?req) \<le> 1000000"
    by (simp_all add: identity_wf_def request_wf_def str_ok_def str_bytes_def byte_of_def usize_max_def)
  note p = presence_over_the_wire [OF toy_sha256_laws toy_ed25519_laws this refl, where clock = "[Some 77]"]
  from p [where cell = "''8f''"] p [where cell = "''90''"] show ?thesis by (simp add: Let_def next_reading_def)
qed

end
