(* ===== verification/Text_Ops.thy ===== *)
theory Text_Ops
  imports Prelude
begin

text \<open>
  What the sources use of Rust's \<open>str\<close>: \<open>lines\<close>, \<open>split_whitespace\<close>, \<open>trim\<close>, \<open>starts_with\<close>,
  \<open>contains(char::is_whitespace)\<close>, \<open>eq_ignore_ascii_case\<close> and the decimal form of an integer. A
  string is the list of its UTF-8 bytes, so the Unicode white space characters are the byte
  sequences of their encodings. The crate \<open>hex\<close> is a pair of functions with three documented
  laws; \<open>hex_impl\<close> is a concrete pair that meets them.
\<close>

section \<open>White space\<close>

text \<open>
  The bytes of the white space characters: one byte for those of ASCII, two for U+0085 and
  U+00A0, three for U+1680, U+2000 to U+200A, U+2028, U+2029, U+202F, U+205F and U+3000.
\<close>

definition ascii_ws :: "nat \<Rightarrow> bool" where
  "ascii_ws a \<longleftrightarrow> (9 \<le> a \<and> a \<le> 13) \<or> a = 32"

definition two_ws :: "nat \<Rightarrow> nat \<Rightarrow> bool" where
  "two_ws a b \<longleftrightarrow> a = 0xC2 \<and> (b = 0x85 \<or> b = 0xA0)"

definition three_ws :: "nat \<Rightarrow> nat \<Rightarrow> nat \<Rightarrow> bool" where
  "three_ws a b c \<longleftrightarrow> (a = 0xE1 \<and> b = 0x9A \<and> c = 0x80)
    \<or> (a = 0xE2 \<and> b = 0x80 \<and> (0x80 \<le> c \<and> c \<le> 0x8A \<or> c = 0xA8 \<or> c = 0xA9 \<or> c = 0xAF))
    \<or> (a = 0xE2 \<and> b = 0x81 \<and> c = 0x9F)
    \<or> (a = 0xE3 \<and> b = 0x80 \<and> c = 0x80)"

text \<open>The length of the white space character a string starts with, 0 if it starts with none.\<close>

fun ws_len :: "string \<Rightarrow> nat" where
  "ws_len [] = 0"
| "ws_len [a] = (if ascii_ws (of_char a) then 1 else 0)"
| "ws_len [a, b] = (if ascii_ws (of_char a) then 1 else if two_ws (of_char a) (of_char b) then 2 else 0)"
| "ws_len (a # b # c # s) =
    (if ascii_ws (of_char a) then 1 else if two_ws (of_char a) (of_char b) then 2
     else if three_ws (of_char a) (of_char b) (of_char c) then 3 else 0)"

lemma ws_not_ascii:
  "two_ws a b \<Longrightarrow> 0x80 \<le> a \<and> 0x80 \<le> b"
  "three_ws a b c \<Longrightarrow> 0x80 \<le> a \<and> 0x80 \<le> b \<and> 0x80 \<le> c"
  by (auto simp: two_ws_def three_ws_def)

lemma ws_len_le: "ws_len s \<le> length s"
  by (induction s rule: ws_len.induct) simp_all

lemma ws_len_less [termination_simp]: "0 < ws_len s \<Longrightarrow> length s - ws_len s < length s"
  using ws_len_le [of s] by simp

lemma ws_len_ascii:
  "of_char c < (0x80 :: nat) \<Longrightarrow> ws_len (c # s) = (if ascii_ws (of_char c) then 1 else 0)"
  by (cases "c # s" rule: ws_len.cases) (auto dest: ws_not_ascii)

lemma ws_len_first: "ascii_ws (of_char c) \<Longrightarrow> ws_len (c # s) = 1"
  by (cases "c # s" rule: ws_len.cases) auto

text \<open>A white space character does not reach across an ASCII byte.\<close>

lemma ws_len_append:
  assumes "ws_len (a # s) = 0" and "of_char c < (0x80 :: nat)"
  shows "ws_len (a # s @ c # rest) = 0"
proof (cases "a # s" rule: ws_len.cases)
  case (2 x)
  then show ?thesis using assms by (cases rest) (auto dest: ws_not_ascii split: if_splits)
next
  case (3 x y)
  then show ?thesis using assms by (auto dest: ws_not_ascii split: if_splits)
next
  case (4 x y z t)
  then show ?thesis using assms by (auto split: if_splits)
qed simp

fun contains_whitespace :: "string \<Rightarrow> bool" where
  "contains_whitespace [] = False"
| "contains_whitespace (c # s) = (ws_len (c # s) > 0 \<or> contains_whitespace s)"

fun trim_start :: "string \<Rightarrow> string" where
  "trim_start s = (if ws_len s > 0 then trim_start (drop (ws_len s) s) else s)"

declare trim_start.simps [simp del]

fun trim_end :: "string \<Rightarrow> string" where
  "trim_end [] = []"
| "trim_end (c # s) = (if trim_start (c # s) = [] then [] else c # trim_end s)"

definition trim :: "string \<Rightarrow> string" where
  "trim s = trim_end (trim_start s)"

fun words_from :: "string \<Rightarrow> string \<Rightarrow> string list" where
  "words_from word s =
    (if s = [] then (if word = [] then [] else [word])
     else if ws_len s > 0
       then (if word = [] then [] else [word]) @ words_from [] (drop (ws_len s) s)
     else words_from (word @ [hd s]) (tl s))"

declare words_from.simps [simp del]

definition split_whitespace :: "string \<Rightarrow> string list" where
  "split_whitespace s = words_from [] s"

fun lines_from :: "string \<Rightarrow> string \<Rightarrow> string list" where
  "lines_from line [] = (if line = [] then [] else [line])"
| "lines_from line (c # s) =
    (if c = CHR 0x0A
     then (if line \<noteq> [] \<and> last line = CHR 0x0D then butlast line else line) # lines_from [] s
     else lines_from (line @ [c]) s)"

definition lines :: "string \<Rightarrow> string list" where
  "lines s = lines_from [] s"

definition starts_with :: "string \<Rightarrow> string \<Rightarrow> bool" where
  "starts_with s pre \<longleftrightarrow> take (length pre) s = pre"

definition nth_or_default :: "string list \<Rightarrow> nat \<Rightarrow> string" where
  "nth_or_default xs n = (if n < length xs then xs ! n else [])"

definition ascii_lower :: "char \<Rightarrow> nat" where
  "ascii_lower c = (let n = of_char c in if 65 \<le> n \<and> n \<le> 90 then n + 32 else n)"

definition eq_ignore_ascii_case :: "string \<Rightarrow> string \<Rightarrow> bool" where
  "eq_ignore_ascii_case a b \<longleftrightarrow> map ascii_lower a = map ascii_lower b"

section \<open>Words and lines\<close>

lemma words_from_word:
  assumes "\<not> contains_whitespace w" and "of_char c < (0x80 :: nat)" "ws_len (c # rest) = 1"
  shows "words_from acc (w @ c # rest) = (if acc @ w = [] then [] else [acc @ w]) @ words_from [] rest"
  using assms(1)
proof (induction w arbitrary: acc)
  case Nil
  show ?case using assms(3) by (simp add: words_from.simps [of acc])
next
  case (Cons a w)
  then have "ws_len (a # w @ c # rest) = 0" by (intro ws_len_append assms(2)) simp
  then show ?case using Cons by (simp add: words_from.simps [of acc])
qed

lemma words_from_last:
  "\<not> contains_whitespace w \<Longrightarrow> words_from acc w = (if acc @ w = [] then [] else [acc @ w])"
proof (induction w arbitrary: acc)
  case (Cons a w)
  then show ?case by (simp add: words_from.simps [of acc])
qed (simp add: words_from.simps)

lemma lines_from_append:
  assumes "CHR 0x0A \<notin> set l"
  shows "lines_from acc (l @ CHR 0x0A # s) =
    (if acc @ l \<noteq> [] \<and> last (acc @ l) = CHR 0x0D then butlast (acc @ l) else acc @ l) # lines_from [] s"
  using assms by (induction l arbitrary: acc) auto

lemma lines_Cons:
  "CHR 0x0A \<notin> set l \<Longrightarrow> CHR 0x0D \<notin> set l \<Longrightarrow> lines (l @ CHR 0x0A # s) = l # lines s"
  by (cases "l = []") (auto simp: lines_def lines_from_append dest: last_in_set)

lemma lines_from_complete:
  "lines_from acc (s @ CHR 0x0A # t) = lines_from acc (s @ [CHR 0x0A]) @ lines_from [] t"
  by (induction s arbitrary: acc) auto

lemma lines_append:
  "s = [] \<or> last s = CHR 0x0A \<Longrightarrow> lines (s @ t) = lines s @ lines t"
proof (cases s rule: rev_cases)
  case (snoc u c)
  moreover assume "s = [] \<or> last s = CHR 0x0A"
  ultimately show ?thesis using lines_from_complete [of "[]" u t] by (simp add: lines_def)
qed (simp add: lines_def)

lemma starts_with_append [simp]: "starts_with (p @ s) p"
  by (simp add: starts_with_def)

lemma starts_with_iff: "starts_with s p \<longleftrightarrow> (\<exists>t. s = p @ t)"
  by (auto simp: starts_with_def) (metis append_take_drop_id)

lemma no_whitespace_chars:
  "\<not> contains_whitespace w \<Longrightarrow> c \<in> set w \<Longrightarrow> \<not> ascii_ws (of_char c)"
  by (induction w) (auto simp: ws_len_first)

lemma ascii_no_whitespace:
  assumes "\<And>c. c \<in> set w \<Longrightarrow> 33 \<le> (of_char c :: nat) \<and> (of_char c :: nat) < 0x80"
  shows "\<not> contains_whitespace w"
  using assms
proof (induction w)
  case (Cons a w)
  have "33 \<le> (of_char a :: nat) \<and> (of_char a :: nat) < 0x80" using Cons.prems by simp
  then have "ws_len (a # w) = 0" by (simp add: ws_len_ascii ascii_ws_def)
  with Cons show ?case by simp
qed simp

lemma trim_id:
  assumes "\<not> contains_whitespace w"
  shows "trim w = w"
proof -
  have start: "trim_start v = v" if "\<not> contains_whitespace v" for v
    using that by (cases v) (simp_all add: trim_start.simps)
  have "trim_end v = v" if "\<not> contains_whitespace v" for v
    using that by (induction v) (simp_all add: start)
  then show ?thesis using assms start by (simp add: trim_def)
qed

section \<open>Decimal numbers\<close>

definition digit_char :: "nat \<Rightarrow> char" where
  "digit_char d = char_of (48 + d)"

fun decimal :: "nat \<Rightarrow> string" where
  "decimal n = (if n < 10 then [digit_char n] else decimal (n div 10) @ [digit_char (n mod 10)])"

declare decimal.simps [simp del]

lemma of_digit_char: "d < 10 \<Longrightarrow> of_char (digit_char d) = 48 + d"
  by (simp add: digit_char_def take_bit_eq_mod)

lemma decimal_value: "foldl (\<lambda>v c. 10 * v + (of_char c - 48)) 0 (decimal n) = n"
proof (induction n rule: decimal.induct)
  case (1 n)
  then show ?case by (subst decimal.simps) (simp add: of_digit_char)
qed

lemma decimal_inject [simp]: "decimal a = decimal b \<longleftrightarrow> a = b"
  using decimal_value by metis

section \<open>Hexadecimal\<close>

record hex_codec =
  hex_encode :: "bytes \<Rightarrow> string"
  hex_decode :: "string \<Rightarrow> bytes option"

definition hex_digits :: string where "hex_digits = ''0123456789abcdef''"

definition hex_laws :: "hex_codec \<Rightarrow> bool" where
  "hex_laws H \<longleftrightarrow> (\<forall>bs. hex_decode H (hex_encode H bs) = Some bs)
    \<and> (\<forall>bs. length (hex_encode H bs) = 2 * length bs)
    \<and> (\<forall>bs. set (hex_encode H bs) \<subseteq> set hex_digits)"

definition hex_char :: "nat \<Rightarrow> char" where
  "hex_char n = hex_digits ! n"

definition hex_value :: "char \<Rightarrow> nat option" where
  "hex_value c = (let n = of_char c in
     if 48 \<le> n \<and> n \<le> 57 then Some (n - 48)
     else if 97 \<le> n \<and> n \<le> 102 then Some (n - 87)
     else if 65 \<le> n \<and> n \<le> 70 then Some (n - 55) else None)"

fun decode_pairs :: "string \<Rightarrow> bytes option" where
  "decode_pairs [] = Some []"
| "decode_pairs [_] = None"
| "decode_pairs (a # b # s) =
    (case (hex_value a, hex_value b, decode_pairs s) of
       (Some x, Some y, Some bs) \<Rightarrow> Some (of_nat (16 * x + y) # bs)
     | _ \<Rightarrow> None)"

definition hex_impl :: hex_codec where
  "hex_impl = \<lparr>hex_encode = \<lambda>bs. concat (map (\<lambda>b. [hex_char (unat b div 16), hex_char (unat b mod 16)]) bs),
    hex_decode = decode_pairs\<rparr>"

lemma hex_value_char [simp]: "n < 16 \<Longrightarrow> hex_value (hex_char n) = Some n"
proof -
  have "\<forall>n \<in> set [0..<16]. hex_value (hex_char n) = Some n" by code_simp
  then show "n < 16 \<Longrightarrow> ?thesis" by simp
qed

lemma hex_char_digit: "n < 16 \<Longrightarrow> hex_char n \<in> set hex_digits"
  unfolding hex_char_def by (rule nth_mem) (simp add: hex_digits_def)

lemma hex_impl_laws: "hex_laws hex_impl"
proof -
  have b: "unat (b :: u8) div 16 < 16" for b using unat_bound [of b] by simp
  have "decode_pairs (concat (map (\<lambda>b. [hex_char (unat b div 16), hex_char (unat b mod 16)]) bs)) = Some bs" for bs :: bytes
    by (induction bs) (simp_all add: b)
  moreover have "length (concat (map (\<lambda>b. [hex_char (unat b div 16), hex_char (unat b mod 16)]) bs)) = 2 * length bs" for bs :: bytes
    by (induction bs) simp_all
  moreover have "set (concat (map (\<lambda>b. [hex_char (unat b div 16), hex_char (unat b mod 16)]) bs)) \<subseteq> set hex_digits" for bs :: bytes
    by (auto intro: hex_char_digit b)
  ultimately show ?thesis unfolding hex_laws_def hex_impl_def by simp
qed

lemma hex_inject: "hex_laws H \<Longrightarrow> hex_encode H a = hex_encode H b \<longleftrightarrow> a = b"
  unfolding hex_laws_def by (metis option.inject)

lemma hex_Nil: "hex_laws H \<Longrightarrow> hex_encode H bs = [] \<longleftrightarrow> bs = []"
  unfolding hex_laws_def by (metis length_0_conv mult_is_0 zero_neq_numeral)

lemma hex_ascii: "hex_laws H \<Longrightarrow> c \<in> set (hex_encode H bs) \<Longrightarrow> 48 \<le> (of_char c :: nat) \<and> (of_char c :: nat) < 0x80"
  unfolding hex_laws_def hex_digits_def by fastforce

lemma hex_no_whitespace: "hex_laws H \<Longrightarrow> \<not> contains_whitespace (hex_encode H bs)"
  using hex_ascii by (intro ascii_no_whitespace) fastforce

end
