(* ===== verification/Store_Dir.thy ===== *)
theory Store_Dir
  imports Text_Ops Hybrid Drop_Types Sth "HOL-Library.AList"
begin

text \<open>
  The data directory of \<open>crates/store/src/lib.rs\<close>: the disk below the store's root, key files,
  the contact list and the append-only log file. A disk holds files and directories under
  paths relative to the root; writing needs the parent directory, and creating a directory
  fails below a file. Other I/O failures (permissions, a full disk) are not represented.

  An operation that draws random bytes or reads the clock is a step on a \<open>World\<close>; its result
  is \<open>None\<close> when the operation never returns, which only mining a proof of work can cause.
\<close>

section \<open>Disks\<close>

type_synonym path = "string list"

record Disk =
  dk_files :: "(path \<times> bytes) list"
  dk_dirs :: "path list"

definition disk_read :: "Disk \<Rightarrow> path \<Rightarrow> bytes option" where
  "disk_read d p = map_of (dk_files d) p"

definition disk_read_to_string :: "Disk \<Rightarrow> path \<Rightarrow> string option" where
  "disk_read_to_string d p =
    (case disk_read d p of Some bs \<Rightarrow> if utf8_valid bs then Some (bytes_str bs) else None | None \<Rightarrow> None)"

definition disk_exists :: "Disk \<Rightarrow> path \<Rightarrow> bool" where
  "disk_exists d p \<longleftrightarrow> disk_read d p \<noteq> None \<or> p \<in> set (dk_dirs d) \<or> p = []"

datatype store_error =
    NoIdentity
  | NoHybrid
  | NoMlDsa
  | StoreNotFound string
  | StoreInvalid string
  | StoreCrypto crypto_error
  | StoreCore core_error
  | StoreIo
  | StoreLog log_error

definition disk_write :: "path \<Rightarrow> bytes \<Rightarrow> Disk \<Rightarrow> (Disk, store_error) res" where
  "disk_write p bs d =
    (if p \<noteq> [] \<and> (butlast p = [] \<or> butlast p \<in> set (dk_dirs d)) \<and> p \<notin> set (dk_dirs d)
     then Ok (d\<lparr>dk_files := AList.update p bs (dk_files d)\<rparr>) else Err StoreIo)"

definition disk_append :: "path \<Rightarrow> bytes \<Rightarrow> Disk \<Rightarrow> (Disk, store_error) res" where
  "disk_append p bs d = disk_write p (unwrap_or [] (disk_read d p) @ bs) d"

definition disk_create_dir_all :: "path \<Rightarrow> Disk \<Rightarrow> (Disk, store_error) res" where
  "disk_create_dir_all p d =
    (let prefixes = map (\<lambda>n. take n p) [1..<Suc (length p)] in
     if \<exists>q \<in> set prefixes. disk_read d q \<noteq> None then Err StoreIo
     else Ok (d\<lparr>dk_dirs := dk_dirs d @ filter (\<lambda>q. q \<notin> set (dk_dirs d)) prefixes\<rparr>))"

definition newline :: string where "newline = [CHR 0x0A]"

section \<open>Steps on the world\<close>

record World =
  w_disk :: Disk
  w_rng :: rng
  w_clock :: "u64 option list"

type_synonym ('a, 'e, 's) act = "'s \<Rightarrow> (('a, 'e) res \<times> 's) option"
type_synonym ('a, 'e) step = "('a, 'e, World) act"
type_synonym 'a action = "('a, store_error) step"

definition act_then :: "('a, 'e, 's) act \<Rightarrow> ('a \<Rightarrow> ('b, 'e, 's) act) \<Rightarrow> ('b, 'e, 's) act" where
  "act_then m f w =
    (case m w of
       None \<Rightarrow> None
     | Some (Ok x, w) \<Rightarrow> f x w
     | Some (Err e, w) \<Rightarrow> Some (Err e, w)
     | Some (Panic, w) \<Rightarrow> Some (Panic, w))"

definition act_res :: "('a, 'e) res \<Rightarrow> ('a, 'e, 's) act" where
  "act_res r w = Some (r, w)"

definition act_read :: "(Disk \<Rightarrow> ('a, store_error) res) \<Rightarrow> 'a action" where
  "act_read f w = Some (f (w_disk w), w)"

definition act_disk :: "(Disk \<Rightarrow> (Disk, store_error) res) \<Rightarrow> unit action" where
  "act_disk f w =
    (case f (w_disk w) of
       Ok d \<Rightarrow> Some (Ok (), w\<lparr>w_disk := d\<rparr>)
     | Err e \<Rightarrow> Some (Err e, w)
     | Panic \<Rightarrow> Some (Panic, w))"

definition act_rng :: "(rng \<Rightarrow> 'a \<times> rng) \<Rightarrow> 'a action" where
  "act_rng f w = (let (x, r) = f (w_rng w) in Some (Ok x, w\<lparr>w_rng := r\<rparr>))"

definition act_rng_res :: "(rng \<Rightarrow> ('a \<times> rng, store_error) res) \<Rightarrow> 'a action" where
  "act_rng_res f w =
    (case f (w_rng w) of
       Ok (x, r) \<Rightarrow> Some (Ok x, w\<lparr>w_rng := r\<rparr>)
     | Err e \<Rightarrow> Some (Err e, w)
     | Panic \<Rightarrow> Some (Panic, w))"

text \<open>\<open>now_unix\<close>: the next reading of the clock, 0 before the epoch.\<close>

definition now_unix :: "u64 action" where
  "now_unix w =
    (case w_clock w of
       [] \<Rightarrow> Some (Ok 0, w)
     | t # clock \<Rightarrow> Some (Ok (unwrap_or 0 t), w\<lparr>w_clock := clock\<rparr>))"

lemmas act_defs = act_then_def act_res_def act_read_def act_disk_def act_rng_def act_rng_res_def

section \<open>Paths\<close>

definition drop_path :: "hex_codec \<Rightarrow> DropId \<Rightarrow> path" where
  "drop_path H i = [''drops'', DropId_to_hex (hex_encode H) i @ ''.signed'']"

definition chunk_dir :: "hex_codec \<Rightarrow> DropId \<Rightarrow> path" where
  "chunk_dir H i = [''chunks'', DropId_to_hex (hex_encode H) i]"

definition identity_path :: path where "identity_path = [''identity.txt'']"
definition hybrid_path :: path where "hybrid_path = [''hybrid.txt'']"
definition mldsa_path :: path where "mldsa_path = [''mldsa.txt'']"
definition contacts_path :: path where "contacts_path = [''contacts.txt'']"
definition log_dir :: path where "log_dir = [''log'']"
definition entries_path :: path where "entries_path = log_dir @ [''entries.bin'']"

lemmas path_defs = drop_path_def chunk_dir_def identity_path_def hybrid_path_def mldsa_path_def
  contacts_path_def log_dir_def entries_path_def

definition has_identity :: "Disk \<Rightarrow> bool" where
  "has_identity d \<longleftrightarrow> disk_exists d identity_path"

section \<open>Keys\<close>

definition hex32 :: "hex_codec \<Rightarrow> string \<Rightarrow> (bytes, store_error) res" where
  "hex32 H text =
    and_then (ok_or (StoreInvalid ''hex'') (hex_decode H (trim text))) (\<lambda>bs.
    if length bs \<noteq> 32 then Err (StoreInvalid ''expected 32 bytes'') else Ok bs)"

definition identity_text :: "hex_codec \<Rightarrow> Identity \<Rightarrow> string" where
  "identity_text H i =
     hex_encode H (signing_secret_bytes i) @ newline @ hex_encode H (ecdh_secret_bytes i) @ newline"

definition parse_identity :: "hex_codec \<Rightarrow> string \<Rightarrow> (Identity, store_error) res" where
  "parse_identity H text =
    (let ls = lines text in
     and_then (hex32 H (nth_or_default ls 0)) (\<lambda>signing.
     and_then (hex32 H (nth_or_default ls 1)) (\<lambda>ecdh.
     Ok (Identity_from_secret_bytes signing ecdh))))"

definition save_identity :: "hex_codec \<Rightarrow> Identity \<Rightarrow> Disk \<Rightarrow> (Disk, store_error) res" where
  "save_identity H i d = disk_write identity_path (str_bytes (identity_text H i)) d"

definition Store_identity :: "hex_codec \<Rightarrow> Disk \<Rightarrow> (Identity, store_error) res" where
  "Store_identity H d =
    and_then (ok_or NoIdentity (disk_read_to_string d identity_path)) (parse_identity H)"

definition save_hybrid :: "hex_codec \<Rightarrow> HybridKeypair \<Rightarrow> Disk \<Rightarrow> (Disk, store_error) res" where
  "save_hybrid H k d = disk_write hybrid_path (str_bytes (hex_encode H (HybridKeypair_to_secret_bytes k))) d"

definition Store_hybrid :: "crypto \<Rightarrow> hex_codec \<Rightarrow> Disk \<Rightarrow> (HybridKeypair, store_error) res" where
  "Store_hybrid C H d =
    and_then (ok_or NoHybrid (disk_read_to_string d hybrid_path)) (\<lambda>text.
    and_then (ok_or (StoreInvalid ''hybrid hex'') (hex_decode H (trim text))) (\<lambda>bs.
    if length bs \<noteq> 96 then Err (StoreInvalid ''hybrid length'')
    else map_err StoreCrypto (HybridKeypair_from_secret_bytes C bs)))"

definition hybrid_or_create :: "crypto \<Rightarrow> hex_codec \<Rightarrow> HybridKeypair action" where
  "hybrid_or_create C H w =
    (if disk_exists (w_disk w) hybrid_path then act_read (Store_hybrid C H) w
     else act_then (act_rng (HybridKeypair_generate C)) (\<lambda>k.
       act_then (act_disk (save_hybrid H k)) (\<lambda>_. act_res (Ok k))) w)"

definition hybrid_public_bytes :: "crypto \<Rightarrow> hex_codec \<Rightarrow> bytes action" where
  "hybrid_public_bytes C H =
    act_then (hybrid_or_create C H) (\<lambda>k.
    let public = HybridKeypair_public C k in act_res (Ok (hp_x25519 public @ hp_kem public)))"

definition save_mldsa :: "hex_codec \<Rightarrow> MlDsaKeypair \<Rightarrow> Disk \<Rightarrow> (Disk, store_error) res" where
  "save_mldsa H k d = disk_write mldsa_path (str_bytes (hex_encode H (MlDsaKeypair_to_seed k))) d"

definition Store_mldsa :: "crypto \<Rightarrow> hex_codec \<Rightarrow> Disk \<Rightarrow> (MlDsaKeypair, store_error) res" where
  "Store_mldsa C H d =
    and_then (ok_or NoMlDsa (disk_read_to_string d mldsa_path)) (\<lambda>text.
    and_then (ok_or (StoreInvalid ''mldsa hex'') (hex_decode H (trim text))) (\<lambda>bs.
    if length bs \<noteq> 32 then Err (StoreInvalid ''mldsa seed length'')
    else map_err StoreCrypto (MlDsaKeypair_from_seed C bs)))"

definition mldsa_or_create :: "crypto \<Rightarrow> hex_codec \<Rightarrow> MlDsaKeypair action" where
  "mldsa_or_create C H w =
    (if disk_exists (w_disk w) mldsa_path then act_read (Store_mldsa C H) w
     else act_then (act_rng MlDsaKeypair_generate) (\<lambda>k.
       act_then (act_disk (save_mldsa H k)) (\<lambda>_. act_res (Ok k))) w)"

definition keygen :: "crypto \<Rightarrow> hex_codec \<Rightarrow> Identity action" where
  "keygen C H w =
    (if has_identity (w_disk w) then Some (Err (StoreInvalid ''identity already exists''), w)
     else act_then (act_rng Identity_generate) (\<lambda>identity.
       act_then (act_disk (save_identity H identity)) (\<lambda>_.
       act_then (act_rng (HybridKeypair_generate C)) (\<lambda>hybrid.
       act_then (act_disk (save_hybrid H hybrid)) (\<lambda>_.
       act_then (act_rng MlDsaKeypair_generate) (\<lambda>mldsa.
       act_then (act_disk (save_mldsa H mldsa)) (\<lambda>_.
       act_res (Ok identity))))))) w)"

section \<open>Contacts\<close>

record Contact =
  ct_name :: string
  ct_signing :: bytes
  ct_ecdh :: bytes
  ct_hybrid :: "bytes option"

text \<open>One line of the contact file: nothing if it has fewer than three words.\<close>

definition parse_contact :: "hex_codec \<Rightarrow> string \<Rightarrow> (Contact option, store_error) res" where
  "parse_contact H line =
    (case split_whitespace line of
       name # sg # ec # rest \<Rightarrow>
         and_then
           (case rest of
              [] \<Rightarrow> Ok None
            | value # _ \<Rightarrow>
                if value = ''-'' then Ok None
                else and_then (ok_or (StoreInvalid ''contact hybrid'') (hex_decode H value)) (\<lambda>bs. Ok (Some bs)))
           (\<lambda>hybrid.
         and_then (hex32 H sg) (\<lambda>signing.
         and_then (hex32 H ec) (\<lambda>ecdh.
         Ok (Some \<lparr>ct_name = name, ct_signing = signing, ct_ecdh = ecdh, ct_hybrid = hybrid\<rparr>))))
     | _ \<Rightarrow> Ok None)"

fun parse_contacts :: "hex_codec \<Rightarrow> string list \<Rightarrow> (Contact list, store_error) res" where
  "parse_contacts H [] = Ok []"
| "parse_contacts H (line # ls) =
    and_then (parse_contact H line) (\<lambda>c.
    and_then (parse_contacts H ls) (\<lambda>cs.
    Ok (case c of None \<Rightarrow> cs | Some x \<Rightarrow> x # cs)))"

definition Store_contacts :: "hex_codec \<Rightarrow> Disk \<Rightarrow> (Contact list, store_error) res" where
  "Store_contacts H d = parse_contacts H (lines (unwrap_or [] (disk_read_to_string d contacts_path)))"

definition contact_prefix :: "hex_codec \<Rightarrow> string \<Rightarrow> bytes \<Rightarrow> bytes \<Rightarrow> string" where
  "contact_prefix H name sg ec =
     name @ '' '' @ hex_encode H sg @ '' '' @ hex_encode H ec @ '' ''"

definition contact_line :: "hex_codec \<Rightarrow> string \<Rightarrow> bytes \<Rightarrow> bytes \<Rightarrow> bytes option \<Rightarrow> string" where
  "contact_line H name sg ec hybrid =
     contact_prefix H name sg ec
       @ (case hybrid of Some bs \<Rightarrow> hex_encode H bs | None \<Rightarrow> ''-'') @ newline"

definition add_contact ::
    "hex_codec \<Rightarrow> string \<Rightarrow> string \<Rightarrow> string \<Rightarrow> string option \<Rightarrow> Disk \<Rightarrow> (Disk, store_error) res" where
  "add_contact H name signing_hex ecdh_hex hybrid d =
    (if name = [] \<or> contains_whitespace name
     then Err (StoreInvalid ''contact name must be non-empty and have no whitespace'')
     else and_then (hex32 H signing_hex) (\<lambda>sg.
       and_then (hex32 H ecdh_hex) (\<lambda>ec.
       and_then
         (case hybrid of
            Some value \<Rightarrow> and_then (ok_or (StoreInvalid ''hybrid hex'') (hex_decode H value)) (\<lambda>bs. Ok (Some bs))
          | None \<Rightarrow> Ok None) (\<lambda>hybrid.
       let existing = unwrap_or [] (disk_read_to_string d contacts_path);
           pre = contact_prefix H name sg ec
       in if \<exists>line \<in> set (lines existing). starts_with line pre
          then Err (StoreInvalid (''contact `'' @ name @ ''` already has this device''))
          else disk_write contacts_path (str_bytes (existing @ contact_line H name sg ec hybrid)) d))))"

section \<open>The log file\<close>

definition append_log_entry :: "bytes \<Rightarrow> Disk \<Rightarrow> (Disk, store_error) res" where
  "append_log_entry raw d =
    and_then (disk_create_dir_all log_dir d) (\<lambda>d.
    and_then (disk_append entries_path [] d) (\<lambda>d.
    and_then (ok_or (StoreInvalid ''entry length'') (try_u32_usize (length raw))) (\<lambda>len.
    and_then (disk_append entries_path (u32_be len) d) (\<lambda>d.
    disk_append entries_path raw d))))"

text \<open>The loop of \<open>log_entries\<close> on the bytes behind the cursor.\<close>

function split_entries :: "bytes \<Rightarrow> bytes list" where
  "split_entries bs =
    (if length bs < 4 then []
     else let len = unat (u32_of_be (take 4 bs)); rest = drop 4 bs in
       if len > length rest then [] else take len rest # split_entries (drop len rest))"
  by pat_completeness auto

termination
  by (relation "measure length") auto

declare split_entries.simps [simp del]

definition log_entries :: "Disk \<Rightarrow> bytes list" where
  "log_entries d = (case disk_read d entries_path of Some bs \<Rightarrow> split_entries bs | None \<Rightarrow> [])"

definition log_key_path :: path where "log_key_path = log_dir @ [''key.txt'']"

definition log_identity :: "hex_codec \<Rightarrow> Identity action" where
  "log_identity H w =
    (case disk_read_to_string (w_disk w) log_key_path of
       Some text \<Rightarrow> act_res (parse_identity H text) w
     | None \<Rightarrow>
         act_then (act_rng Identity_generate) (\<lambda>identity.
         act_then (act_disk (disk_create_dir_all log_dir)) (\<lambda>_.
         act_then (act_disk (disk_write log_key_path (str_bytes (identity_text H identity)))) (\<lambda>_.
         act_res (Ok identity)))) w)"

section \<open>Reading back what was written\<close>

lemma utf8_append: "utf8_valid a \<Longrightarrow> utf8_valid b \<Longrightarrow> utf8_valid (a @ b)"
proof (induction a rule: utf8_valid.induct)
  case (2 a bs)
  consider "a \<le> 0x7F" | "\<not> a \<le> 0x7F" "0xC2 \<le> a \<and> a \<le> 0xDF"
    | "\<not> a \<le> 0x7F" "\<not> (0xC2 \<le> a \<and> a \<le> 0xDF)" "0xE0 \<le> a \<and> a \<le> 0xEF"
    | "\<not> a \<le> 0x7F" "\<not> (0xC2 \<le> a \<and> a \<le> 0xDF)" "\<not> (0xE0 \<le> a \<and> a \<le> 0xEF)" "0xF0 \<le> a \<and> a \<le> 0xF4"
    using 2(5) by (auto split: if_splits)
  then show ?case
  proof cases
    case 1
    then show ?thesis using 2 by simp
  next
    case c: 2
    then obtain x r where "bs = x # r" using 2(5) by (cases bs) auto
    then show ?thesis using c 2(2) [OF c] 2(5,6) by (simp del: utf8_valid.simps add: utf8_valid.simps(2) [of a])
  next
    case c: 3
    then obtain x y r where "bs = x # y # r" using 2(5) by (auto split: list.splits)
    then show ?thesis using c 2(3) [OF c] 2(5,6)
      by (simp del: utf8_valid.simps add: utf8_valid.simps(2) [of a] if_not_P [OF c(2)])
  next
    case c: 4
    then obtain x y z r where "bs = x # y # z # r" using 2(5) by (auto split: list.splits)
    then show ?thesis using c 2(4) [OF c] 2(5,6)
      by (simp del: utf8_valid.simps add: utf8_valid.simps(2) [of a] if_not_P [OF c(2)] if_not_P [OF c(3)])
  qed
qed simp

lemma str_ok_append: "str_ok a \<Longrightarrow> str_ok b \<Longrightarrow> str_ok (a @ b)"
  by (simp add: str_ok_def str_bytes_def utf8_append)

lemma str_ok_ascii: "(\<And>c. c \<in> set s \<Longrightarrow> (of_char c :: nat) < 0x80) \<Longrightarrow> str_ok s"
proof (induction s)
  case (Cons c s)
  then have "(of_char c :: nat) < 0x80" by simp
  then have "byte_of c \<le> 0x7F" by (simp add: byte_of_def word_le_nat_alt unat_of_nat)
  with Cons show ?case by (simp add: str_ok_def str_bytes_def)
qed (simp add: str_ok_def str_bytes_def)

lemma str_ok_hex: "hex_laws H \<Longrightarrow> str_ok (hex_encode H bs)"
  using hex_ascii by (intro str_ok_ascii) blast

lemma str_ok_newline [simp]: "str_ok newline"
  by (rule str_ok_ascii) (simp add: newline_def)

lemma disk_read_write:
  "disk_write p bs d = Ok d' \<Longrightarrow> disk_read d' q = (if q = p then Some bs else disk_read d q)"
  by (auto simp: disk_write_def disk_read_def update_conv' split: if_splits)

lemma disk_write_dirs: "disk_write p bs d = Ok d' \<Longrightarrow> dk_dirs d' = dk_dirs d"
  by (auto simp: disk_write_def split: if_splits)

lemma read_text_written:
  "disk_write p (str_bytes s) d = Ok d' \<Longrightarrow> str_ok s \<Longrightarrow> disk_read_to_string d' p = Some s"
  by (simp add: disk_read_to_string_def disk_read_write str_ok_def)

lemma read_text_other:
  "disk_write p bs d = Ok d' \<Longrightarrow> q \<noteq> p \<Longrightarrow> disk_read_to_string d' q = disk_read_to_string d q"
  by (simp add: disk_read_to_string_def disk_read_write)

lemma hex32_encode: "hex_laws H \<Longrightarrow> length bs = 32 \<Longrightarrow> hex32 H (hex_encode H bs) = Ok bs"
  using hex_no_whitespace [of H bs] by (simp add: hex32_def trim_id hex_laws_def del: and_then_eq_Ok)

lemma hex_no_newline:
  "hex_laws H \<Longrightarrow> CHR 0x0A \<notin> set (hex_encode H bs)" "hex_laws H \<Longrightarrow> CHR 0x0D \<notin> set (hex_encode H bs)"
  using hex_ascii [of H "CHR 0x0A" bs] hex_ascii [of H "CHR 0x0D" bs] by auto

lemma parse_identity_text:
  assumes "hex_laws H" "identity_wf i"
  shows "parse_identity H (identity_text H i) = Ok i"
proof -
  have "lines (identity_text H i) = [hex_encode H (signing i), hex_encode H (ecdh i)]"
    using assms(1) hex_no_newline [OF assms(1)]
    by (simp add: identity_text_def newline_def signing_secret_bytes_def ecdh_secret_bytes_def lines_Cons)
      (simp add: lines_def)
  then show ?thesis
    using assms by (cases i) (simp add: parse_identity_def nth_or_default_def hex32_encode identity_wf_def
        Identity_from_secret_bytes_def)
qed

lemma str_ok_identity_text: "hex_laws H \<Longrightarrow> str_ok (identity_text H i)"
  by (simp add: identity_text_def str_ok_append str_ok_hex)

section \<open>The layout of a data directory\<close>

text \<open>
  Files are the four text files at the top, envelopes below \<open>drops\<close>, chunks below
  \<open>chunks/<id>\<close>, and the files of the log, of the hunts and of the external anchors;
  directories are the ones these need. Every write of the store keeps this shape, and on a
  directory of this shape none of its writes fails.
\<close>

definition top_dirs :: "string set" where
  "top_dirs = {''drops'', ''chunks'', ''log'', ''hunts'', ''anchors''}"

definition file_path_ok :: "path \<Rightarrow> bool" where
  "file_path_ok p =
    (case p of
       [a] \<Rightarrow> a \<notin> top_dirs
     | [a, b] \<Rightarrow> a \<in> top_dirs \<and> a \<noteq> ''chunks''
     | [a, b, c] \<Rightarrow> a = ''chunks''
     | _ \<Rightarrow> False)"

definition dir_path_ok :: "path \<Rightarrow> bool" where
  "dir_path_ok p =
    (case p of
       [a] \<Rightarrow> a \<in> top_dirs
     | [a, b] \<Rightarrow> a = ''chunks''
     | _ \<Rightarrow> False)"

definition layout_ok :: "Disk \<Rightarrow> bool" where
  "layout_ok d \<longleftrightarrow> (\<forall>p. disk_read d p \<noteq> None \<longrightarrow> file_path_ok p) \<and> (\<forall>p \<in> set (dk_dirs d). dir_path_ok p)"

lemma file_not_dir: "file_path_ok p \<Longrightarrow> \<not> dir_path_ok p"
  by (auto simp: file_path_ok_def dir_path_ok_def top_dirs_def split: list.splits)

lemma write_in_layout:
  assumes "layout_ok d" "file_path_ok p" "butlast p = [] \<or> butlast p \<in> set (dk_dirs d)"
  obtains d' where "disk_write p bs d = Ok d'" "layout_ok d'" "dk_dirs d' = dk_dirs d"
    "\<And>q. disk_read d' q = (if q = p then Some bs else disk_read d q)"
proof -
  have "p \<noteq> []" using assms(2) by (auto simp: file_path_ok_def)
  moreover have "p \<notin> set (dk_dirs d)" using assms(1,2) file_not_dir by (auto simp: layout_ok_def)
  ultimately obtain d' where d: "disk_write p bs d = Ok d'" using assms(3) by (auto simp: disk_write_def)
  note r = disk_read_write [OF d] disk_write_dirs [OF d]
  have "layout_ok d'" using assms(1,2) r by (auto simp: layout_ok_def)
  then show ?thesis using d r that by blast
qed

lemma mkdir_in_layout:
  assumes "layout_ok d" "dir_path_ok p"
  obtains d' where "disk_create_dir_all p d = Ok d'" "layout_ok d'" "p \<in> set (dk_dirs d')"
    "set (dk_dirs d) \<subseteq> set (dk_dirs d')" "\<And>q. disk_read d' q = disk_read d q"
proof -
  let ?pre = "map (\<lambda>n. take n p) [1..<Suc (length p)]"
  have pre: "dir_path_ok q" if "q \<in> set ?pre" for q
    using that assms(2) by (cases p rule: list.exhaust; cases "tl p") (auto simp: dir_path_ok_def top_dirs_def less_Suc_eq split: list.splits)
  have none: "\<not> (\<exists>q \<in> set ?pre. disk_read d q \<noteq> None)"
    using pre assms(1) file_not_dir unfolding layout_ok_def by blast
  define d' where "d' = d\<lparr>dk_dirs := dk_dirs d @ filter (\<lambda>q. q \<notin> set (dk_dirs d)) ?pre\<rparr>"
  have d: "disk_create_dir_all p d = Ok d'"
    using none unfolding disk_create_dir_all_def d'_def Let_def by (simp only: if_False)
  have rd: "disk_read d' q = disk_read d q" for q by (simp add: d'_def disk_read_def)
  have dirs: "set (dk_dirs d') = set (dk_dirs d) \<union> set ?pre" by (auto simp: d'_def)
  have "layout_ok d'" using assms(1) pre unfolding layout_ok_def rd dirs by blast
  moreover have "p \<in> set ?pre"
    using assms(2) by (cases p) (auto simp: dir_path_ok_def top_dirs_def image_iff intro: bexI [of _ "length p"])
  ultimately show ?thesis using dirs rd by (intro that [OF d]) blast+
qed

lemma layout_paths [simp]:
  "file_path_ok identity_path" "file_path_ok hybrid_path" "file_path_ok mldsa_path" "file_path_ok contacts_path"
  "file_path_ok entries_path" "file_path_ok log_key_path" "file_path_ok (drop_path H i)"
  "file_path_ok (chunk_dir H i @ [f])" "dir_path_ok log_dir" "dir_path_ok (chunk_dir H i)" "dir_path_ok [''drops'']"
  by (simp_all add: file_path_ok_def dir_path_ok_def top_dirs_def path_defs log_key_path_def)

lemma top_paths [simp]:
  "butlast identity_path = []" "butlast hybrid_path = []" "butlast mldsa_path = []" "butlast contacts_path = []"
  by (simp_all add: path_defs)

section \<open>Key files\<close>

lemma identity_wf_generate: "identity_wf (fst (Identity_generate r))"
  by (simp add: Identity_generate_def identity_wf_def case_prod_beta)

lemma trim_hex: "hex_laws H \<Longrightarrow> trim (hex_encode H bs) = hex_encode H bs"
  by (simp add: trim_id hex_no_whitespace)

lemma key_files_read_back:
  assumes "hex_laws H"
  shows "save_identity H i d = Ok d' \<Longrightarrow> identity_wf i \<Longrightarrow> Store_identity H d' = Ok i"
    and "save_hybrid H k d = Ok d' \<Longrightarrow> hybrid_wf C k \<Longrightarrow> mlkem_laws C \<Longrightarrow> Store_hybrid C H d' = Ok k"
    and "save_mldsa H m d = Ok d' \<Longrightarrow> length (mldsa_inner m) = 32 \<Longrightarrow> mldsa_laws C \<Longrightarrow> Store_mldsa C H d' = Ok m"
proof -
  have dec: "hex_decode H (hex_encode H bs) = Some bs" for bs using assms by (simp add: hex_laws_def)
  show "save_identity H i d = Ok d' \<Longrightarrow> identity_wf i \<Longrightarrow> Store_identity H d' = Ok i"
    using read_text_written [OF _ str_ok_identity_text [OF assms]] parse_identity_text [OF assms]
    by (simp add: save_identity_def Store_identity_def)
  show "Store_hybrid C H d' = Ok k" if "save_hybrid H k d = Ok d'" "hybrid_wf C k" "mlkem_laws C"
  proof -
    have "length (HybridKeypair_to_secret_bytes k) = 96"
      using that(2) by (simp add: HybridKeypair_to_secret_bytes_def hybrid_wf_def)
    then show ?thesis
      using that read_text_written [OF _ str_ok_hex [OF assms]] from_to_secret_bytes [OF that(3,2)]
      by (simp add: save_hybrid_def Store_hybrid_def trim_hex [OF assms] dec del: and_then_eq_Ok Ok_eq_and_then)
  qed
  show "Store_mldsa C H d' = Ok m" if "save_mldsa H m d = Ok d'" "length (mldsa_inner m) = 32" "mldsa_laws C"
    using that read_text_written [OF _ str_ok_hex [OF assms]]
    by (cases m) (simp add: save_mldsa_def Store_mldsa_def trim_hex [OF assms] dec MlDsaKeypair_to_seed_def
        MlDsaKeypair_from_seed_def mldsa_laws_def del: and_then_eq_Ok Ok_eq_and_then)
qed

lemma key_files_kept:
  assumes "disk_write p bs d = Ok d'"
  shows "p \<noteq> identity_path \<Longrightarrow> Store_identity H d' = Store_identity H d"
    and "p \<noteq> hybrid_path \<Longrightarrow> Store_hybrid C H d' = Store_hybrid C H d"
    and "p \<noteq> mldsa_path \<Longrightarrow> Store_mldsa C H d' = Store_mldsa C H d"
  using read_text_other [OF assms] by (simp_all add: Store_identity_def Store_hybrid_def Store_mldsa_def)

lemma keygen_persists:
  assumes "hex_laws H" "mlkem_laws C" "mldsa_laws C" "layout_ok (w_disk w)" "\<not> has_identity (w_disk w)"
    and "i = fst (Identity_generate (w_rng w))" "k = fst (HybridKeypair_generate C (snd (Identity_generate (w_rng w))))"
  shows "\<exists>m w'. keygen C H w = Some (Ok i, w') \<and> identity_wf i \<and> layout_ok (w_disk w')
    \<and> Store_identity H (w_disk w') = Ok i \<and> Store_hybrid C H (w_disk w') = Ok k \<and> Store_mldsa C H (w_disk w') = Ok m
    \<and> (\<forall>q. q \<notin> {identity_path, hybrid_path, mldsa_path} \<longrightarrow> disk_read (w_disk w') q = disk_read (w_disk w) q)
    \<and> dk_dirs (w_disk w') = dk_dirs (w_disk w)
    \<and> keygen C H w' = Some (Err (StoreInvalid ''identity already exists''), w')"
proof -
  define r1 where "r1 = snd (Identity_generate (w_rng w))"
  define r2 where "r2 = snd (HybridKeypair_generate C r1)"
  define m r3 where "m = fst (MlDsaKeypair_generate r2)" and "r3 = snd (MlDsaKeypair_generate r2)"
  note rs = assms(6,7) r1_def r2_def m_def r3_def
  have wf: "identity_wf i" "hybrid_wf C k" "length (mldsa_inner m) = 32"
    by (simp_all add: rs identity_wf_generate hybrid_wf_generate MlDsaKeypair_generate_def case_prod_beta)
  obtain d1 where d1: "save_identity H i (w_disk w) = Ok d1" "layout_ok d1"
    using write_in_layout [OF assms(4) layout_paths(1)] by (metis save_identity_def top_paths(1))
  obtain d2 where d2: "save_hybrid H k d1 = Ok d2" "layout_ok d2"
    using write_in_layout [OF d1(2) layout_paths(2)] by (metis save_hybrid_def top_paths(2))
  obtain d3 where d3: "save_mldsa H m d2 = Ok d3" "layout_ok d3"
    using write_in_layout [OF d2(2) layout_paths(3)] by (metis save_mldsa_def top_paths(3))
  have run: "keygen C H w = Some (Ok i, w\<lparr>w_disk := d3, w_rng := r3\<rparr>)"
    using assms(5) d1(1) d2(1) d3(1) by (simp add: keygen_def act_defs rs case_prod_beta)
  have p: "hybrid_path \<noteq> identity_path" "mldsa_path \<noteq> identity_path" "mldsa_path \<noteq> hybrid_path"
    by (simp_all add: path_defs)
  note keep = key_files_kept [OF d2(1) [unfolded save_hybrid_def]] key_files_kept [OF d3(1) [unfolded save_mldsa_def]]
  have "Store_identity H d3 = Ok i" "Store_hybrid C H d3 = Ok k" "Store_mldsa C H d3 = Ok m"
    using key_files_read_back(1) [OF assms(1) d1(1) wf(1)] key_files_read_back(2) [OF assms(1) d2(1) wf(2) assms(2)]
      key_files_read_back(3) [OF assms(1) d3(1) wf(3) assms(3)] keep p by simp_all
  moreover note reads = disk_read_write [OF d1(1) [unfolded save_identity_def]] disk_read_write [OF d2(1) [unfolded save_hybrid_def]]
    disk_read_write [OF d3(1) [unfolded save_mldsa_def]]
  moreover have "has_identity d3" using reads p by (simp add: has_identity_def disk_exists_def)
  moreover have "dk_dirs d3 = dk_dirs (w_disk w)"
    using disk_write_dirs d1(1) d2(1) d3(1) unfolding save_identity_def save_hybrid_def save_mldsa_def by metis
  ultimately show ?thesis using run wf(1) d3(2) by (auto simp: keygen_def)
qed

section \<open>The contact file\<close>

definition contact_wf :: "Contact \<Rightarrow> bool" where
  "contact_wf c \<longleftrightarrow> ct_name c \<noteq> [] \<and> \<not> contains_whitespace (ct_name c) \<and> str_ok (ct_name c)
    \<and> length (ct_signing c) = 32 \<and> length (ct_ecdh c) = 32 \<and> ct_hybrid c \<noteq> Some []"

definition hybrid_word :: "hex_codec \<Rightarrow> Contact \<Rightarrow> string" where
  "hybrid_word H c = (case ct_hybrid c of Some bs \<Rightarrow> hex_encode H bs | None \<Rightarrow> ''-'')"

definition line_of :: "hex_codec \<Rightarrow> Contact \<Rightarrow> string" where
  "line_of H c = contact_prefix H (ct_name c) (ct_signing c) (ct_ecdh c) @ hybrid_word H c"

definition contacts_text :: "hex_codec \<Rightarrow> Contact list \<Rightarrow> string" where
  "contacts_text H cs = concat (map (\<lambda>c. line_of H c @ newline) cs)"

lemma hybrid_word_ok:
  assumes "hex_laws H"
  shows "\<not> contains_whitespace (hybrid_word H c)" "str_ok (hybrid_word H c)"
    "ct_hybrid c \<noteq> Some [] \<Longrightarrow> hybrid_word H c \<noteq> []"
proof -
  show "\<not> contains_whitespace (hybrid_word H c)"
    using hex_no_whitespace [OF assms] by (auto simp: hybrid_word_def ascii_ws_def split: option.split)
  have "str_ok ''-''" by (rule str_ok_ascii) simp
  then show "str_ok (hybrid_word H c)" using str_ok_hex [OF assms] by (simp add: hybrid_word_def split: option.split)
  show "ct_hybrid c \<noteq> Some [] \<Longrightarrow> hybrid_word H c \<noteq> []"
    by (auto simp: hybrid_word_def hex_Nil [OF assms] split: option.splits)
qed

lemma line_of_words:
  assumes "hex_laws H" "contact_wf c"
  shows "split_whitespace (line_of H c) =
    [ct_name c, hex_encode H (ct_signing c), hex_encode H (ct_ecdh c), hybrid_word H c]"
proof -
  have sp: "ws_len (CHR '' '' # r) = 1" for r by (rule ws_len_first) (simp add: ascii_ws_def)
  have ne: "hex_encode H bs \<noteq> []" if "length bs = 32" for bs
    using that by (auto simp: hex_Nil [OF assms(1)])
  note w = words_from_word [where c = "CHR '' ''", OF _ _ sp]
  show ?thesis
    using assms(2) hybrid_word_ok [OF assms(1)] hex_no_whitespace [OF assms(1)] ne
    by (simp add: split_whitespace_def line_of_def contact_prefix_def contact_wf_def w words_from_last)
qed

lemma parse_line_of:
  assumes "hex_laws H" "contact_wf c"
  shows "parse_contact H (line_of H c) = Ok (Some c)"
proof -
  have "hex_encode H bs \<noteq> ''-''" for bs
    using hex_ascii [OF assms(1), of "CHR ''-''" bs] by auto
  moreover have "hex_decode H (hex_encode H bs) = Some bs" for bs using assms(1) by (simp add: hex_laws_def)
  ultimately have "parse_contact H (line_of H c) = Ok (Some \<lparr>ct_name = ct_name c, ct_signing = ct_signing c,
      ct_ecdh = ct_ecdh c, ct_hybrid = ct_hybrid c\<rparr>)"
    using assms(2) hex32_encode [OF assms(1)]
    by (cases "ct_hybrid c") (simp_all add: parse_contact_def line_of_words [OF assms] contact_wf_def hybrid_word_def
        del: and_then_eq_Ok Ok_eq_and_then)
  then show ?thesis by (cases c) simp
qed

lemma line_of_chars:
  assumes "hex_laws H" "contact_wf c"
  shows "CHR 0x0A \<notin> set (line_of H c)" "CHR 0x0D \<notin> set (line_of H c)"
proof -
  have "x \<notin> set w" if "\<not> contains_whitespace w" "ascii_ws (of_char x)" for x w
    using no_whitespace_chars [OF that(1)] that(2) by blast
  moreover have "ascii_ws (of_char (CHR 0x0A))" "ascii_ws (of_char (CHR 0x0D))" by (simp_all add: ascii_ws_def)
  ultimately show "CHR 0x0A \<notin> set (line_of H c)" "CHR 0x0D \<notin> set (line_of H c)"
    using assms(2) hex_no_whitespace [OF assms(1)] hybrid_word_ok(1) [OF assms(1)]
    by (auto simp: line_of_def contact_prefix_def contact_wf_def)
qed

lemma contacts_text_lines:
  "hex_laws H \<Longrightarrow> \<forall>c \<in> set cs. contact_wf c \<Longrightarrow> lines (contacts_text H cs) = map (line_of H) cs"
  by (induction cs) (auto simp: contacts_text_def newline_def lines_Cons line_of_chars lines_def [of "[]"])

lemma parse_contacts_text:
  assumes "hex_laws H" "\<forall>c \<in> set cs. contact_wf c"
  shows "parse_contacts H (lines (contacts_text H cs)) = Ok cs"
proof -
  have "parse_contacts H (map (line_of H) cs) = Ok cs"
    using assms(2) by (induction cs) (auto simp: parse_line_of [OF assms(1)])
  then show ?thesis using contacts_text_lines [OF assms] by simp
qed

lemma str_ok_contacts_text: "hex_laws H \<Longrightarrow> \<forall>c \<in> set cs. contact_wf c \<Longrightarrow> str_ok (contacts_text H cs)"
proof (induction cs)
  case (Cons c cs)
  have "str_ok '' ''" by (rule str_ok_ascii) simp
  then have "str_ok (line_of H c)"
    using Cons.prems hybrid_word_ok(2) str_ok_hex
    by (auto simp: line_of_def contact_prefix_def contact_wf_def intro!: str_ok_append simp del: append_Cons append_Nil)
  then show ?case using Cons by (simp add: contacts_text_def str_ok_append)
qed (simp add: contacts_text_def str_ok_def str_bytes_def)

lemma split_at_space:
  "CHR '' '' \<notin> set a \<Longrightarrow> CHR '' '' \<notin> set b \<Longrightarrow> a @ CHR '' '' # x = b @ CHR '' '' # y \<longleftrightarrow> a = b \<and> x = y"
proof (induction a arbitrary: b)
  case Nil
  then show ?case by (cases b) auto
next
  case (Cons c a)
  then show ?case by (cases b) auto
qed

lemma same_device:
  assumes "hex_laws H" "contact_wf x" "contact_wf c"
  shows "starts_with (line_of H x) (contact_prefix H (ct_name c) (ct_signing c) (ct_ecdh c))
    \<longleftrightarrow> ct_name x = ct_name c \<and> ct_signing x = ct_signing c \<and> ct_ecdh x = ct_ecdh c"
proof -
  have "CHR '' '' \<notin> set w" if "\<not> contains_whitespace w" for w
    using no_whitespace_chars [OF that, of "CHR '' ''"] by (auto simp: ascii_ws_def)
  then have "CHR '' '' \<notin> set (ct_name x)" "CHR '' '' \<notin> set (ct_name c)" "CHR '' '' \<notin> set (hex_encode H bs)" for bs
    using assms hex_no_whitespace [OF assms(1)] by (simp_all add: contact_wf_def)
  then show ?thesis
    by (auto simp: starts_with_iff line_of_def contact_prefix_def split_at_space hex_inject [OF assms(1)])
qed

text \<open>What the disk says of the contacts: a file that holds exactly these lines, or none.\<close>

definition contacts_hold :: "hex_codec \<Rightarrow> Contact list \<Rightarrow> Disk \<Rightarrow> bool" where
  "contacts_hold H cs d \<longleftrightarrow> (\<forall>c \<in> set cs. contact_wf c)
    \<and> unwrap_or [] (disk_read_to_string d contacts_path) = contacts_text H cs"

section \<open>The log file\<close>

definition log_bytes :: "bytes list \<Rightarrow> bytes" where
  "log_bytes es = concat (map (\<lambda>e. u32_be (of_nat (length e)) @ e) es)"

lemma split_entries_Nil: "split_entries [] = []"
  by (simp add: split_entries.simps)

lemma split_entries_entry:
  "length e \<le> u32_max \<Longrightarrow> split_entries (u32_be (of_nat (length e)) @ e @ rest) = e # split_entries rest"
  by (subst split_entries.simps) (simp add: Let_def u32_max_def unat_of_nat)

lemma split_log_bytes:
  "\<forall>e \<in> set es. length e \<le> u32_max \<Longrightarrow> split_entries (log_bytes es @ rest) = es @ split_entries rest"
  by (induction es) (simp_all add: log_bytes_def split_entries_entry)

lemma split_torn:
  assumes "length e \<le> u32_max" "k < length (log_bytes [e])"
  shows "split_entries (take k (log_bytes [e])) = []"
proof -
  have l: "k < 4 + length e" using assms(2) by (simp add: log_bytes_def)
  have u: "unat (of_nat (length e) :: u32) = length e" using assms(1) by (simp add: u32_max_def unat_of_nat)
  have t: "take k (log_bytes [e]) = take k (u32_be (of_nat (length e))) @ take (k - 4) e" by (simp add: log_bytes_def)
  show ?thesis
  proof (cases "k < 4")
    case True
    then show ?thesis unfolding t by (subst split_entries.simps) simp
  next
    case False
    then have "take k (log_bytes [e]) = u32_be (of_nat (length e)) @ take (k - 4) e" unfolding t by simp
    moreover have "length (take (k - 4) e) < length e" using l False by simp
    ultimately show ?thesis using u by (simp add: split_entries.simps [of "u32_be x @ y" for x y] Let_def)
  qed
qed

definition log_holds :: "bytes list \<Rightarrow> Disk \<Rightarrow> bool" where
  "log_holds es d \<longleftrightarrow> (\<forall>e \<in> set es. length e \<le> u32_max) \<and> unwrap_or [] (disk_read d entries_path) = log_bytes es"

lemma log_entries_hold: "log_holds es d \<Longrightarrow> log_entries d = es"
proof -
  assume a: "log_holds es d"
  have "log_entries d = split_entries (unwrap_or [] (disk_read d entries_path))"
    by (cases "disk_read d entries_path") (simp_all add: log_entries_def split_entries_Nil)
  then show ?thesis using a split_log_bytes [of es "[]"] by (simp add: log_holds_def split_entries_Nil)
qed

lemma append_in_layout:
  assumes "layout_ok d" "file_path_ok p" "butlast p \<in> set (dk_dirs d)"
  obtains d' where "disk_append p bs d = Ok d'" "layout_ok d'" "dk_dirs d' = dk_dirs d"
    "\<And>q. disk_read d' q = (if q = p then Some (unwrap_or [] (disk_read d p) @ bs) else disk_read d q)"
  using write_in_layout [OF assms(1,2)] assms(3) by (metis disk_append_def)

lemma append_log_entry_ok:
  assumes "layout_ok d" "log_holds es d" "length raw \<le> u32_max"
  obtains d' where "append_log_entry raw d = Ok d'" "layout_ok d'" "log_holds (es @ [raw]) d'"
    "set (dk_dirs d) \<subseteq> set (dk_dirs d')" "\<And>q. q \<noteq> entries_path \<Longrightarrow> disk_read d' q = disk_read d q"
proof -
  obtain d1 where d1: "disk_create_dir_all log_dir d = Ok d1" "layout_ok d1" "log_dir \<in> set (dk_dirs d1)"
    "set (dk_dirs d) \<subseteq> set (dk_dirs d1)" "\<And>q. disk_read d1 q = disk_read d q"
    using mkdir_in_layout [OF assms(1) layout_paths(9)] by blast
  have p: "butlast entries_path = log_dir" by (simp add: entries_path_def)
  obtain d2 where d2: "disk_append entries_path [] d1 = Ok d2" "layout_ok d2" "dk_dirs d2 = dk_dirs d1"
    "\<And>q. disk_read d2 q = (if q = entries_path then Some (unwrap_or [] (disk_read d1 entries_path) @ []) else disk_read d1 q)"
    using append_in_layout [OF d1(2) layout_paths(5)] d1(3) p by metis
  obtain d3 where d3: "disk_append entries_path (u32_be (of_nat (length raw))) d2 = Ok d3" "layout_ok d3" "dk_dirs d3 = dk_dirs d2"
    "\<And>q. disk_read d3 q = (if q = entries_path then Some (unwrap_or [] (disk_read d2 entries_path) @ u32_be (of_nat (length raw))) else disk_read d2 q)"
    using append_in_layout [OF d2(2) layout_paths(5)] d1(3) d2(3) p by metis
  obtain d4 where d4: "disk_append entries_path raw d3 = Ok d4" "layout_ok d4" "dk_dirs d4 = dk_dirs d3"
    "\<And>q. disk_read d4 q = (if q = entries_path then Some (unwrap_or [] (disk_read d3 entries_path) @ raw) else disk_read d3 q)"
    using append_in_layout [OF d3(2) layout_paths(5)] d1(3) d2(3) d3(3) p by metis
  have "append_log_entry raw d = Ok d4"
    using d1(1) d2(1) d3(1) d4(1) assms(3) by (simp add: append_log_entry_def try_u32_usize_def)
  moreover have "log_holds (es @ [raw]) d4"
    using assms(2,3) d1(5) by (simp add: log_holds_def d2(4) d3(4) d4(4) log_bytes_def)
  ultimately show ?thesis
    using d1(4,5) d2(3,4) d3(3,4) d4(2-4) by (intro that [of d4]) simp_all
qed

section \<open>Properties\<close>

text \<open>
  The contact list is exact. On a directory whose contact file lists some contacts,
  \<open>contacts\<close> returns them in order, and adding a device with a proper name succeeds exactly
  when no contact of that name has the same two keys; then \<open>contacts\<close> returns the old list
  with the new device at its end, and the file is again of that form.
\<close>

lemma contacts_exact:
  assumes "hex_laws H" and "layout_ok d" and "contacts_hold H cs d" and "contact_wf c"
    and "same = (\<lambda>x. ct_name x = ct_name c \<and> ct_signing x = ct_signing c \<and> ct_ecdh x = ct_ecdh c)"
    and "r = add_contact H (ct_name c) (hex_encode H (ct_signing c)) (hex_encode H (ct_ecdh c))
      (map_option (hex_encode H) (ct_hybrid c)) d"
  shows "Store_contacts H d = Ok cs
    \<and> (if \<exists>x \<in> set cs. same x then \<exists>msg. r = Err (StoreInvalid msg)
       else \<exists>d'. r = Ok d' \<and> layout_ok d' \<and> contacts_hold H (cs @ [c]) d' \<and> Store_contacts H d' = Ok (cs @ [c]))"
proof -
  have wf: "\<forall>x \<in> set cs. contact_wf x" and held: "unwrap_or [] (disk_read_to_string d contacts_path) = contacts_text H cs"
    using assms(3) by (simp_all add: contacts_hold_def)
  have "(\<exists>l \<in> set (lines (contacts_text H cs)). starts_with l (contact_prefix H (ct_name c) (ct_signing c) (ct_ecdh c)))
      \<longleftrightarrow> (\<exists>x \<in> set cs. same x)"
    using wf same_device [OF assms(1) _ assms(4)] by (simp add: contacts_text_lines [OF assms(1) wf] assms(5))
  moreover have "(case map_option (hex_encode H) (ct_hybrid c) of
      Some value \<Rightarrow> and_then (ok_or (StoreInvalid ''hybrid hex'') (hex_decode H value)) (\<lambda>bs. Ok (Some bs))
    | None \<Rightarrow> Ok None) = Ok (ct_hybrid c)"
    using assms(1) by (cases "ct_hybrid c") (simp_all add: hex_laws_def)
  moreover have "contacts_text H cs @ contact_line H (ct_name c) (ct_signing c) (ct_ecdh c) (ct_hybrid c)
      = contacts_text H (cs @ [c])"
    by (simp add: contacts_text_def contact_line_def line_of_def hybrid_word_def)
  ultimately have r: "r = (if \<exists>x \<in> set cs. same x
      then Err (StoreInvalid (''contact `'' @ ct_name c @ ''` already has this device''))
      else disk_write contacts_path (str_bytes (contacts_text H (cs @ [c]))) d)"
    using assms(4) hex32_encode [OF assms(1)] unfolding assms(6)
    by (simp add: add_contact_def contact_wf_def held Let_def)
  have wf': "\<forall>x \<in> set (cs @ [c]). contact_wf x" using wf assms(4) by simp
  obtain d' where d': "disk_write contacts_path (str_bytes (contacts_text H (cs @ [c]))) d = Ok d'" "layout_ok d'"
    using write_in_layout [OF assms(2) layout_paths(4)] by (metis top_paths(4))
  have "contacts_hold H (cs @ [c]) d'"
    using wf' read_text_written [OF d'(1) str_ok_contacts_text [OF assms(1) wf']] by (simp add: contacts_hold_def)
  moreover have "Store_contacts H d = Ok cs" "contacts_hold H (cs @ [c]) d' \<Longrightarrow> Store_contacts H d' = Ok (cs @ [c])"
    using parse_contacts_text [OF assms(1) wf] parse_contacts_text [OF assms(1) wf']
    by (simp_all add: Store_contacts_def held contacts_hold_def)
  ultimately show ?thesis using r d' by auto
qed

lemma contacts_exact_witness:
  "let c = \<lparr>ct_name = ''me'', ct_signing = replicate 32 1, ct_ecdh = replicate 32 2, ct_hybrid = None\<rparr>
   in \<exists>d'. add_contact hex_impl ''me'' (hex_encode hex_impl (replicate 32 1)) (hex_encode hex_impl (replicate 32 2)) None
        \<lparr>dk_files = [], dk_dirs = []\<rparr> = Ok d' \<and> Store_contacts hex_impl d' = Ok [c]"
proof -
  let ?c = "\<lparr>ct_name = ''me'', ct_signing = replicate 32 1, ct_ecdh = replicate 32 2, ct_hybrid = None\<rparr> :: Contact"
  let ?d = "\<lparr>dk_files = [], dk_dirs = []\<rparr> :: Disk"
  have "contact_wf ?c"
    by (simp add: contact_wf_def ascii_ws_def two_ws_def str_ok_def str_bytes_def byte_of_def)
  moreover have "layout_ok ?d" "contacts_hold hex_impl [] ?d"
    by (simp_all add: layout_ok_def contacts_hold_def contacts_text_def disk_read_to_string_def disk_read_def)
  ultimately show ?thesis
    using contacts_exact [OF hex_impl_laws, of ?d "[]" ?c] by (auto simp: Let_def)
qed

text \<open>
  C31. The log is append-only and survives a torn write. An entry of at most \<open>2\<^sup>3\<^sup>2 - 1\<close> bytes is
  appended behind the entries that were there, and no other file changes; a longer one is
  an error and \<open>log_entries\<close> still returns the old entries. If the process dies while an
  entry is being written, at any byte, exactly the complete entries are read back.
\<close>

theorem log_append_only:
  assumes "layout_ok d" and "log_holds es d"
  shows "log_entries d = es
    \<and> (if length raw \<le> u32_max
       then \<exists>d'. append_log_entry raw d = Ok d' \<and> log_holds (es @ [raw]) d' \<and> log_entries d' = es @ [raw]
         \<and> (\<forall>q. q \<noteq> entries_path \<longrightarrow> disk_read d' q = disk_read d q)
       else append_log_entry raw d = Err (StoreInvalid ''entry length''))
    \<and> (\<forall>k d'. length raw \<le> u32_max \<and> k < length (u32_be (of_nat (length raw)) @ raw)
        \<and> disk_read d' entries_path = Some (log_bytes es @ take k (u32_be (of_nat (length raw)) @ raw))
        \<longrightarrow> log_entries d' = es)"
proof -
  have es: "\<forall>e \<in> set es. length e \<le> u32_max" using assms(2) by (simp add: log_holds_def)
  have torn: "log_entries d' = es" if "length raw \<le> u32_max" "k < length (u32_be (of_nat (length raw)) @ raw)"
    "disk_read d' entries_path = Some (log_bytes es @ take k (u32_be (of_nat (length raw)) @ raw))" for k d'
    using that split_torn [OF that(1), of k] split_log_bytes [OF es]
    by (simp add: log_entries_def) (simp add: log_bytes_def)
  have long: "append_log_entry raw d = Err (StoreInvalid ''entry length'')" if "\<not> length raw \<le> u32_max"
  proof -
    obtain d1 where d1: "disk_create_dir_all log_dir d = Ok d1" "layout_ok d1" "log_dir \<in> set (dk_dirs d1)"
      using mkdir_in_layout [OF assms(1) layout_paths(9)] by blast
    obtain d2 where "disk_append entries_path [] d1 = Ok d2"
      using append_in_layout [OF d1(2) layout_paths(5)] d1(3) by (metis butlast_snoc entries_path_def)
    then show ?thesis using that d1(1) by (simp add: append_log_entry_def try_u32_usize_def)
  qed
  show ?thesis
  proof (cases "length raw \<le> u32_max")
    case True
    obtain d' where "append_log_entry raw d = Ok d'" "log_holds (es @ [raw]) d'"
      "\<And>q. q \<noteq> entries_path \<Longrightarrow> disk_read d' q = disk_read d q"
      by (rule append_log_entry_ok [OF assms True]) blast
    then show ?thesis using True log_entries_hold torn assms(2) by auto
  next
    case False
    then show ?thesis using long log_entries_hold [OF assms(2)] by simp
  qed
qed

theorem log_append_only_witness:
  "\<exists>d'. append_log_entry [7, 8] \<lparr>dk_files = [], dk_dirs = []\<rparr> = Ok d' \<and> log_entries d' = [[7, 8]]
    \<and> log_entries \<lparr>dk_files = [(entries_path, u32_be 2 @ [7])], dk_dirs = []\<rparr> = []"
proof -
  let ?d = "\<lparr>dk_files = [], dk_dirs = []\<rparr> :: Disk" and ?t = "\<lparr>dk_files = [(entries_path, u32_be 2 @ [7])], dk_dirs = []\<rparr>"
  have "layout_ok ?d" "log_holds [] ?d"
    by (simp_all add: layout_ok_def log_holds_def log_bytes_def disk_read_def)
  note p = log_append_only [OF this, of "[7, 8]"]
  from p have "\<forall>k d'. length [7 :: u8, 8] \<le> u32_max \<and> k < length (u32_be (of_nat (length [7 :: u8, 8])) @ [7, 8])
      \<and> disk_read d' entries_path = Some (log_bytes [] @ take k (u32_be (of_nat (length [7 :: u8, 8])) @ [7, 8]))
      \<longrightarrow> log_entries d' = []" by blast
  from this [rule_format, of 5 ?t] have "log_entries ?t = []"
    by (simp add: u32_max_def log_bytes_def disk_read_def)
  then show ?thesis using p by (auto simp: u32_max_def)
qed

end
