(* ===== verification/Address.thy ===== *)
theory Address
  imports Errors
begin

text \<open>
  Geospatial addresses, \<open>crates/core/src/address.rs\<close>. The crate \<open>h3o\<close> is a record of its
  functions, over the types of coordinates, positions, resolutions and cell indices; a
  \<open>CellId\<close> wraps a cell index and nothing else. \<open>h3_laws\<close> states the two documented facts the
  callers rely on: a cell prints to a text that parses back, and a disk contains its centre.
\<close>

record ('f, 'l, 'r, 'c) h3 =
  latlng_new :: "'f \<Rightarrow> 'f \<Rightarrow> ('l, string) res"
  resolution_try_from :: "u8 \<Rightarrow> ('r, string) res"
  latlng_to_cell :: "'l \<Rightarrow> 'r \<Rightarrow> 'c"
  cell_parse :: "string \<Rightarrow> ('c, string) res"
  cell_to_string :: "'c \<Rightarrow> string"
  cell_resolution :: "'c \<Rightarrow> u8"
  grid_disk :: "'c \<Rightarrow> u32 \<Rightarrow> 'c list"

definition h3_laws :: "('f, 'l, 'r, 'c) h3 \<Rightarrow> bool" where
  "h3_laws A \<longleftrightarrow>
    (\<forall>c. cell_parse A (cell_to_string A c) = Ok c \<and> str_ok (cell_to_string A c) \<and> length (cell_to_string A c) \<le> 16)
    \<and> (\<forall>c k. c \<in> set (grid_disk A c k))"

datatype 'c CellId = CellId (cell_index: 'c)

definition CellId_from_lat_lng :: "('f, 'l, 'r, 'c) h3 \<Rightarrow> 'f \<Rightarrow> 'f \<Rightarrow> u8 \<Rightarrow> ('c CellId, core_error) res" where
  "CellId_from_lat_lng A lat lng resolution =
    and_then (map_err Cell (latlng_new A lat lng)) (\<lambda>latlng.
    and_then (map_err Cell (resolution_try_from A resolution)) (\<lambda>resolution.
    Ok (CellId (latlng_to_cell A latlng resolution))))"

definition CellId_parse_hex :: "('f, 'l, 'r, 'c) h3 \<Rightarrow> string \<Rightarrow> ('c CellId, core_error) res" where
  "CellId_parse_hex A text = and_then (map_err Cell (cell_parse A text)) (\<lambda>index. Ok (CellId index))"

definition CellId_to_hex :: "('f, 'l, 'r, 'c) h3 \<Rightarrow> 'c CellId \<Rightarrow> string" where
  "CellId_to_hex A cell = cell_to_string A (cell_index cell)"

definition CellId_resolution :: "('f, 'l, 'r, 'c) h3 \<Rightarrow> 'c CellId \<Rightarrow> u8" where
  "CellId_resolution A cell = cell_resolution A (cell_index cell)"

definition CellId_ring :: "('f, 'l, 'r, 'c) h3 \<Rightarrow> 'c CellId \<Rightarrow> u32 \<Rightarrow> 'c CellId list" where
  "CellId_ring A cell k = map CellId (grid_disk A (cell_index cell) k)"

lemma CellId_hex_roundtrip: "h3_laws A \<Longrightarrow> CellId_parse_hex A (CellId_to_hex A cell) = Ok cell"
  by (simp add: h3_laws_def CellId_parse_hex_def CellId_to_hex_def)

lemma CellId_ring_centre: "h3_laws A \<Longrightarrow> cell \<in> set (CellId_ring A cell k)"
  by (cases cell) (simp add: h3_laws_def CellId_ring_def)

lemma CellId_text: "h3_laws A \<Longrightarrow> str_ok (CellId_to_hex A cell) \<and> length (CellId_to_hex A cell) \<le> 16"
  by (simp add: h3_laws_def CellId_to_hex_def)

text \<open>A lawful instance: one-dimensional cells numbered by a byte, printed as that byte.\<close>

definition toy_h3 :: "(nat, nat, u8, bool) h3" where
  "toy_h3 = \<lparr>latlng_new = \<lambda>lat lng. Ok (lat + lng),
    resolution_try_from = \<lambda>r. if r \<le> 15 then Ok r else Err ''invalid resolution'',
    latlng_to_cell = \<lambda>l r. even l,
    cell_parse = \<lambda>s. if s = ''1'' then Ok True else if s = ''0'' then Ok False else Err ''invalid cell'',
    cell_to_string = \<lambda>c. if c then ''1'' else ''0'',
    cell_resolution = \<lambda>_. 9,
    grid_disk = \<lambda>c k. if k = 0 then [c] else [c, \<not> c]\<rparr>"

lemma toy_h3_laws: "h3_laws toy_h3"
  by (simp add: h3_laws_def toy_h3_def str_ok_def str_bytes_def byte_of_def)

end
