(* ===== verification/Store_Drops.thy ===== *)
theory Store_Drops
  imports Store_Dir Address Chunk_Stream "HOL-Library.Multiset"
begin

text \<open>
  Creating, opening, listing and verifying drops: the rest of \<open>crates/store/src/lib.rs\<close>. The
  shuffle of the crate \<open>rand\<close> and the functions of \<open>h3o\<close> and \<open>hex\<close> are arguments. The result of
  \<open>create_drop\<close> is \<open>None\<close> when the mining loop finds no nonce and so never returns.
\<close>

section \<open>Creating a drop\<close>

definition hybrid_public_from_bytes :: "bytes \<Rightarrow> (HybridPublic, store_error) res" where
  "hybrid_public_from_bytes bs =
    (if length bs \<noteq> 32 + 1184 then Err (StoreInvalid ''hybrid public key must be 32 + 1184 bytes'')
     else Ok \<lparr>hp_x25519 = take 32 bs, hp_kem = drop 32 bs\<rparr>)"

fun recipients_for ::
    "bool \<Rightarrow> Contact list \<Rightarrow> string list \<Rightarrow> ((bytes \<times> bytes option) list, store_error) res" where
  "recipients_for hybrid_mode contacts [] = Ok []"
| "recipients_for hybrid_mode contacts (name # to) =
    (let matching = filter (\<lambda>c. ct_name c = name) contacts in
     if matching = [] then Err (StoreInvalid (''unknown contact `'' @ name @ ''`''))
     else if hybrid_mode \<and> (\<exists>c \<in> set matching. ct_hybrid c = None)
       then Err (StoreInvalid (''device for `'' @ name @ ''` has no hybrid key''))
     else and_then (recipients_for hybrid_mode contacts to) (\<lambda>rest.
       Ok (map (\<lambda>c. (ct_ecdh c, ct_hybrid c)) matching @ rest)))"

fun wrap_keys ::
    "crypto \<Rightarrow> bool \<Rightarrow> bytes \<Rightarrow> bytes \<Rightarrow> (bytes \<times> bytes option) list \<Rightarrow> rng
      \<Rightarrow> (WrappedKey list \<times> rng, store_error) res" where
  "wrap_keys C hybrid_mode content_key drop_nonce [] rng = Ok ([], rng)"
| "wrap_keys C hybrid_mode content_key drop_nonce ((ec, hybrid) # recipients) rng =
    and_then
      (if hybrid_mode then
         and_then (ok_or (StoreInvalid ''recipient has no hybrid key'') hybrid) (\<lambda>bs.
         and_then (hybrid_public_from_bytes bs) (\<lambda>public.
         and_then (map_err StoreCrypto (hybrid_seal C content_key public rng)) (\<lambda>(sealed, rng).
         Ok (Hybrid sealed, rng))))
       else
         and_then (map_err StoreCrypto (SealedKey_seal C content_key ec rng)) (\<lambda>(sealed, rng).
         Ok (Classical sealed, rng)))
      (\<lambda>(sealed, rng).
    and_then (map_err StoreCrypto (derive_tag C ec drop_nonce)) (\<lambda>tag.
    and_then (wrap_keys C hybrid_mode content_key drop_nonce recipients rng) (\<lambda>(rest, rng).
    Ok (\<lparr>wk_tag = tag, wk_sealed = sealed\<rparr> # rest, rng))))"

definition decoy :: "rng \<Rightarrow> WrappedKey \<times> rng" where
  "decoy rng =
    (let (tag, rng) = fill_bytes 8 rng;
         (e, rng) = fill_bytes 32 rng;
         (nonce, rng) = fill_bytes 24 rng;
         (ciphertext, rng) = fill_bytes 48 rng
     in (\<lparr>wk_tag = tag,
          wk_sealed = Classical \<lparr>ephemeral_public = e, sk_nonce = nonce, sk_ciphertext = ciphertext\<rparr>\<rparr>, rng))"

text \<open>The loop that pads the list of wrapped keys to \<open>MIN_TAGS\<close>: so many decoys are missing.\<close>

fun decoys :: "nat \<Rightarrow> rng \<Rightarrow> WrappedKey list \<times> rng" where
  "decoys 0 rng = ([], rng)"
| "decoys (Suc missing) rng =
    (let (w, rng) = decoy rng; (ws, rng) = decoys missing rng in (w # ws, rng))"

definition saturating_add :: "u64 \<Rightarrow> u64 \<Rightarrow> u64" where
  "saturating_add a b = (if unat a + unat b > u64_max then - 1 else a + b)"

fun write_chunks :: "hex_codec \<Rightarrow> DropId \<Rightarrow> nat \<Rightarrow> bytes list \<Rightarrow> Disk \<Rightarrow> (Disk, store_error) res" where
  "write_chunks H i index [] d = Ok d"
| "write_chunks H i index (chunk # chunks) d =
    and_then (disk_write (chunk_dir H i @ [decimal index @ ''.bin'']) chunk d) (write_chunks H i (Suc index) chunks)"

text \<open>\<open>create_dir_all(...).ok()\<close>: a failure is ignored.\<close>

definition ignore_failure :: "(Disk \<Rightarrow> (Disk, store_error) res) \<Rightarrow> Disk \<Rightarrow> (Disk, store_error) res" where
  "ignore_failure f d = (case f d of Ok d' \<Rightarrow> Ok d' | Err _ \<Rightarrow> Ok d | Panic \<Rightarrow> Panic)"

definition act_mine :: "crypto \<Rightarrow> bytes \<Rightarrow> bytes \<Rightarrow> bytes \<Rightarrow> u64 action" where
  "act_mine C signer root drop_nonce w =
    (case mine C signer root drop_nonce of None \<Rightarrow> None | Some nonce \<Rightarrow> Some (Ok nonce, w))"

record CreatedDrop =
  cd_id :: DropId
  cd_cell :: string
  cd_chunks :: u32
  cd_bytes :: nat
  cd_suite :: u8
  cd_sig_kind :: u8

text \<open>The second half of \<open>create_drop\<close>: signing the body and writing everything to disk.\<close>

definition publish_drop ::
    "crypto \<Rightarrow> hex_codec \<Rightarrow> bool \<Rightarrow> Identity \<Rightarrow> DropBody \<Rightarrow> bytes list \<Rightarrow> nat \<Rightarrow> CreatedDrop action" where
  "publish_drop C H hybrid_mode identity body chunks plaintext_len =
    act_then
      (if hybrid_mode then
         act_then (mldsa_or_create C H) (\<lambda>ml_dsa.
         act_res (map_err StoreCore (SignedDrop_sign_hybrid C identity ml_dsa body)))
       else act_res (Ok (SignedDrop_sign C identity body))) (\<lambda>sd.
    let i = SignedDrop_id C sd in
    act_then (act_disk (disk_create_dir_all (chunk_dir H i))) (\<lambda>_.
    act_then (act_disk (write_chunks H i 0 chunks)) (\<lambda>_.
    act_then (act_disk (ignore_failure (disk_create_dir_all [''drops'']))) (\<lambda>_.
    act_then (act_disk (disk_write (drop_path H i) (sd_raw sd))) (\<lambda>_.
    act_then (act_disk (append_log_entry (sd_raw sd))) (\<lambda>_.
    act_res (Ok \<lparr>cd_id = i, cd_cell = db_cell body, cd_chunks = db_chunk_count body, cd_bytes = plaintext_len,
      cd_suite = db_suite body, cd_sig_kind = sd_sig_kind sd\<rparr>)))))))"

definition create_drop ::
    "crypto \<Rightarrow> hex_codec \<Rightarrow> ('f, 'l, 'r, 'c) h3 \<Rightarrow> (WrappedKey list \<Rightarrow> rng \<Rightarrow> WrappedKey list \<times> rng)
      \<Rightarrow> string list \<Rightarrow> 'f \<Rightarrow> 'f \<Rightarrow> u8 \<Rightarrow> u32 \<Rightarrow> u64 \<Rightarrow> string \<Rightarrow> bytes \<Rightarrow> CreatedDrop action" where
  "create_drop C H A shuffle to lat lng res ring ttl suite plaintext =
    (if to = [] then act_res (Err (StoreInvalid ''at least one recipient is required''))
     else if \<not> eq_ignore_ascii_case suite ''classical'' \<and> \<not> eq_ignore_ascii_case suite ''hybrid''
       then act_res (Err (StoreInvalid (''unknown suite `'' @ suite @ ''`'')))
     else
       let hybrid_mode = eq_ignore_ascii_case suite ''hybrid'' in
       act_then (act_read (Store_identity H)) (\<lambda>identity.
       act_then (act_read (Store_contacts H)) (\<lambda>contacts.
       act_then (act_res (recipients_for hybrid_mode contacts to)) (\<lambda>recipients.
       act_then (act_rng (fill_bytes 32)) (\<lambda>content_key.
       act_then (act_rng_res (\<lambda>r. map_err StoreCrypto (encrypt C content_key plaintext r))) (\<lambda>(framing, chunks).
       let root = content_root C chunks in
       act_then (act_rng (fill_bytes 16)) (\<lambda>drop_nonce.
       let suite_id = (if hybrid_mode then suite_id Hybrid25519MlKem768 else suite_id Classical25519) in
       act_then (act_rng_res (wrap_keys C hybrid_mode content_key drop_nonce recipients)) (\<lambda>wrapped.
       act_then (act_rng (decoys (MIN_TAGS - length wrapped))) (\<lambda>padding.
       act_then (act_rng (shuffle (wrapped @ padding))) (\<lambda>wrapped_keys.
       let signer = signing_public C identity in
       act_then (act_mine C signer root drop_nonce) (\<lambda>pow_nonce.
       act_then (act_res (map_err StoreCore (CellId_from_lat_lng A lat lng res))) (\<lambda>cell.
       act_then now_unix (\<lambda>now.
       act_then (act_res (ok_or (StoreInvalid ''chunk size'') (try_u32_usize DEFAULT_CHUNK_SIZE))) (\<lambda>chunk_size.
       publish_drop C H hybrid_mode identity
         \<lparr>db_version = PROTOCOL_VERSION, db_suite = suite_id, db_cell = CellId_to_hex A cell, db_ring = ring,
          db_created_at = now, db_expiry = (if ttl = 0 then 0 else saturating_add now ttl),
          db_mode = mode_id Capability, db_chunk_size = chunk_size, db_chunk_count = fr_total framing,
          db_content_root = root, db_prefix = fr_prefix framing, db_drop_nonce = drop_nonce,
          db_pow_nonce = pow_nonce, db_wrapped_keys = wrapped_keys\<rparr> chunks (length plaintext)))))))))))))))"

section \<open>Opening a drop\<close>

text \<open>The loop over the wrapped keys; the hybrid keypair is loaded when it is first needed.\<close>

fun find_key ::
    "crypto \<Rightarrow> hex_codec \<Rightarrow> Disk \<Rightarrow> bytes \<Rightarrow> bytes \<Rightarrow> HybridKeypair option \<Rightarrow> WrappedKey list
      \<Rightarrow> (bytes option, store_error) res" where
  "find_key C H d our_tag ecdh_secret hybrid [] = Ok None"
| "find_key C H d our_tag ecdh_secret hybrid (w # ws) =
    (if wk_tag w \<noteq> our_tag then find_key C H d our_tag ecdh_secret hybrid ws
     else (case wk_sealed w of
       Classical sealed \<Rightarrow>
         (case SealedKey_open C sealed ecdh_secret of
            Ok key \<Rightarrow> Ok (Some key)
          | Err _ \<Rightarrow> find_key C H d our_tag ecdh_secret hybrid ws
          | Panic \<Rightarrow> Panic)
     | Hybrid sealed \<Rightarrow>
         and_then (case hybrid of None \<Rightarrow> Store_hybrid C H d | Some keypair \<Rightarrow> Ok keypair) (\<lambda>keypair.
         case HybridKeypair_open C keypair sealed of
           Ok key \<Rightarrow> Ok (Some key)
         | Err _ \<Rightarrow> find_key C H d our_tag ecdh_secret (Some keypair) ws
         | Panic \<Rightarrow> Panic)))"

definition read_chunk :: "hex_codec \<Rightarrow> Disk \<Rightarrow> DropId \<Rightarrow> nat \<Rightarrow> (bytes, store_error) res" where
  "read_chunk H d i index =
    ok_or (StoreNotFound (''chunk '' @ decimal index)) (disk_read d (chunk_dir H i @ [decimal index @ ''.bin'']))"

definition open_drop :: "crypto \<Rightarrow> hex_codec \<Rightarrow> Disk \<Rightarrow> DropId \<Rightarrow> (bytes, store_error) res" where
  "open_drop C H d i =
    and_then (Store_identity H d) (\<lambda>identity.
    and_then (ok_or (StoreNotFound (DropId_to_hex (hex_encode H) i)) (disk_read d (drop_path H i))) (\<lambda>raw.
    and_then (map_err StoreCore (SignedDrop_decode raw)) (\<lambda>sd.
    and_then (map_err (\<lambda>_. StoreInvalid ''signature invalid'') (SignedDrop_verify C sd)) (\<lambda>_.
    and_then (map_err StoreCore (SignedDrop_body sd)) (\<lambda>body.
    if \<not> DropBody_pow_ok C body (sd_signer sd) then Err (StoreInvalid ''proof-of-work invalid'') else
    and_then (map_err StoreCrypto (derive_tag C (ecdh_public C identity) (db_drop_nonce body))) (\<lambda>our_tag.
    and_then (find_key C H d our_tag (ecdh_secret_bytes identity) None (db_wrapped_keys body)) (\<lambda>found.
    and_then (ok_or (StoreInvalid ''drop is not addressed to this device'') found) (\<lambda>content_key.
    and_then (collect_res (read_chunk H d i) [0..<unat (db_chunk_count body)]) (\<lambda>chunks.
    map_err (\<lambda>_. StoreInvalid ''decryption failed'')
      (decrypt C content_key \<lparr>fr_prefix = db_prefix body, fr_total = db_chunk_count body\<rparr> chunks))))))))))"

section \<open>Reading and listing drops\<close>

definition read_drop :: "hex_codec \<Rightarrow> Disk \<Rightarrow> DropId \<Rightarrow> (SignedDrop \<times> DropBody, store_error) res" where
  "read_drop H d i =
    and_then (ok_or (StoreNotFound (DropId_to_hex (hex_encode H) i)) (disk_read d (drop_path H i))) (\<lambda>raw.
    and_then (map_err StoreCore (SignedDrop_decode raw)) (\<lambda>sd.
    and_then (map_err StoreCore (SignedDrop_body sd)) (\<lambda>body.
    Ok (sd, body))))"

record DropSummary =
  ds_id :: DropId
  ds_cell :: string
  ds_ring :: u32
  ds_chunks :: u32
  ds_created :: u64
  ds_expiry :: u64
  ds_suite :: u8
  ds_sig_kind :: u8

text \<open>\<open>Path::extension\<close>: what follows the last dot, if a dot other than the first byte exists.\<close>

definition extension :: "string \<Rightarrow> string option" where
  "extension f =
    (let after = rev (takeWhile (\<lambda>c. c \<noteq> CHR ''.'') (rev f)) in
     if length after + 1 < length f then Some after else None)"

text \<open>What one directory entry contributes; every failure skips the entry.\<close>

definition list_entry ::
    "crypto \<Rightarrow> ('f, 'l, 'r, 'c) h3 \<Rightarrow> ('f \<times> 'f) option \<Rightarrow> u32 \<Rightarrow> string \<times> bytes \<Rightarrow> (DropSummary option, store_error) res" where
  "list_entry C A near ring entry =
    (if extension (fst entry) \<noteq> Some ''signed'' then Ok None
     else (case SignedDrop_decode (snd entry) of
       Err _ \<Rightarrow> Ok None
     | Panic \<Rightarrow> Panic
     | Ok sd \<Rightarrow>
       (case SignedDrop_body sd of
          Err _ \<Rightarrow> Ok None
        | Panic \<Rightarrow> Panic
        | Ok body \<Rightarrow>
          if (case near of
                None \<Rightarrow> True
              | Some (lat, lng) \<Rightarrow>
                  (case CellId_parse_hex A (db_cell body) of
                     Ok cell \<Rightarrow>
                       (case CellId_from_lat_lng A lat lng (CellId_resolution A cell) of
                          Ok ours \<Rightarrow> cell \<in> set (CellId_ring A ours ring)
                        | _ \<Rightarrow> False)
                   | _ \<Rightarrow> False))
          then Ok (Some \<lparr>ds_id = SignedDrop_id C sd, ds_cell = db_cell body, ds_ring = db_ring body,
            ds_chunks = db_chunk_count body, ds_created = db_created_at body, ds_expiry = db_expiry body,
            ds_suite = db_suite body, ds_sig_kind = sd_sig_kind sd\<rparr>)
          else Ok None)))"

text \<open>\<open>read_dir\<close> returns the files of \<open>drops\<close> in no particular order; here it is the disk's.\<close>

definition drops_dir :: "Disk \<Rightarrow> (string \<times> bytes) list" where
  "drops_dir d = map (\<lambda>(p, bs). (last p, bs)) (filter (\<lambda>(p, _). length p = 2 \<and> hd p = ''drops'') (dk_files d))"

definition list_drops ::
    "crypto \<Rightarrow> ('f, 'l, 'r, 'c) h3 \<Rightarrow> Disk \<Rightarrow> ('f \<times> 'f) option \<Rightarrow> u32 \<Rightarrow> (DropSummary list, store_error) res" where
  "list_drops C A d near ring =
    (if [''drops''] \<notin> set (dk_dirs d) then Ok []
     else and_then (collect_res (list_entry C A near ring) (drops_dir d)) (\<lambda>found.
       Ok (concat (map (\<lambda>s. case s of None \<Rightarrow> [] | Some x \<Rightarrow> [x]) found))))"

section \<open>Verifying against the log\<close>

definition signed_tree_head :: "crypto \<Rightarrow> hex_codec \<Rightarrow> SignedTreeHead action" where
  "signed_tree_head C H =
    act_then (act_read (\<lambda>d. Ok (log_entries d))) (\<lambda>entries.
    let leaves = map (leaf_hash (sha256 C)) entries; root = mth (sha256 C) leaves in
    act_then (log_identity H) (\<lambda>log.
    act_then now_unix (\<lambda>now.
    act_res (Ok (SignedTreeHead_sign C log (unwrap_or (- 1) (try_u64 (length leaves))) root now)))))"

record Verification =
  vf_signature :: bool
  vf_inclusion :: bool
  vf_sth :: bool
  vf_tree_size :: nat
  vf_leaf_index :: nat
  vf_root :: hash
  vf_sig_kind :: u8

definition Store_verify :: "crypto \<Rightarrow> hex_codec \<Rightarrow> DropId \<Rightarrow> Verification action" where
  "Store_verify C H i =
    act_then (act_read (\<lambda>d. read_drop H d i)) (\<lambda>(sd, _).
    let signature = is_ok (SignedDrop_verify C sd) in
    act_then (act_read (\<lambda>d. Ok (log_entries d))) (\<lambda>entries.
    let leaves = map (leaf_hash (sha256 C)) entries in
    act_then (act_res (ok_or (StoreNotFound ''drop is not in the local log'')
      (position (\<lambda>e. sha256 C e = as_bytes i) entries))) (\<lambda>index.
    let tree_size = length leaves; root = mth (sha256 C) leaves in
    act_then (act_res (map_err StoreLog (inclusion_proof (sha256 C) leaves index))) (\<lambda>proof'.
    let inclusion = verify_inclusion (sha256 C) (leaves ! index) index tree_size proof' root in
    act_then (log_identity H) (\<lambda>log.
    act_then now_unix (\<lambda>now.
    let sth = SignedTreeHead_sign C log (of_nat tree_size) root now in
    act_res (Ok \<lparr>vf_signature = signature, vf_inclusion = inclusion, vf_sth = is_ok (SignedTreeHead_verify C sth),
      vf_tree_size = tree_size, vf_leaf_index = index, vf_root = root, vf_sig_kind = sd_sig_kind sd\<rparr>)))))))"

section \<open>Random bytes\<close>

text \<open>A generator from which at most \<open>k\<close> bytes were drawn since another state of it.\<close>

definition advanced :: "nat \<Rightarrow> rng \<Rightarrow> rng \<Rightarrow> bool" where
  "advanced k r0 r \<longleftrightarrow> (\<exists>n \<le> k. r = (\<lambda>i. r0 (i + n)))"

lemma advanced_refl [simp]: "advanced 0 r r"
  by (simp add: advanced_def)

lemma advanced_fill: "advanced k r0 r \<Longrightarrow> advanced (k + n) r0 (snd (fill_bytes n r))"
proof -
  assume "advanced k r0 r"
  then obtain j where "j \<le> k" "r = (\<lambda>i. r0 (i + j))" by (auto simp: advanced_def)
  then show ?thesis unfolding advanced_def fill_bytes_def by (intro exI [of _ "n + j"]) (simp add: add.assoc)
qed

lemma advanced_mono: "advanced k r0 r \<Longrightarrow> k \<le> m \<Longrightarrow> advanced m r0 r"
  unfolding advanced_def using order_trans by blast

text \<open>No eight consecutive bytes that start among the next ones are the tag.\<close>

definition tag_unused :: "nat \<Rightarrow> bytes \<Rightarrow> rng \<Rightarrow> bool" where
  "tag_unused k tag r \<longleftrightarrow> (\<forall>n \<le> k. map r [n..<n + 8] \<noteq> tag)"

lemma tag_unused_fill:
  assumes "tag_unused k tag r0" "advanced k r0 r"
  shows "fst (fill_bytes 8 r) \<noteq> tag"
proof -
  obtain n where n: "n \<le> k" "r = (\<lambda>i. r0 (i + n))" using assms(2) by (auto simp: advanced_def)
  have "map r [0..<8] = map r0 [n..<n + 8]" unfolding n(2) by (rule nth_equalityI) (simp_all add: add.commute)
  then show ?thesis using assms(1) n(1) by (simp add: tag_unused_def fill_bytes_def)
qed

section \<open>Wrapped keys\<close>

text \<open>
  The mode of a drop is fixed by what its readers use: \<open>None\<close> for the classical suite, and the
  hybrid keypair of the reader for the hybrid one. A slot is what one wrapped key occupies.
\<close>

definition wrapped_for :: "crypto \<Rightarrow> bool \<Rightarrow> bytes \<Rightarrow> bytes \<Rightarrow> bytes \<times> bytes option \<Rightarrow> WrappedKey \<Rightarrow> bool" where
  "wrapped_for C hybrid_mode content_key drop_nonce p w \<longleftrightarrow> derive_tag C (fst p) drop_nonce = Ok (wk_tag w)
    \<and> (if hybrid_mode
       then \<exists>bs public sealed r r'. snd p = Some bs \<and> hybrid_public_from_bytes bs = Ok public
         \<and> wk_sealed w = Hybrid sealed \<and> hybrid_seal C content_key public r = Ok (sealed, r')
       else \<exists>sealed r r'. wk_sealed w = Classical sealed \<and> SealedKey_seal C content_key (fst p) r = Ok (sealed, r'))"

definition slot_wf :: "bool \<Rightarrow> WrappedKey \<Rightarrow> bool" where
  "slot_wf hybrid_mode w \<longleftrightarrow> wrapped_wf w \<and>
    (case wk_sealed w of
       Classical s \<Rightarrow> length (sk_ciphertext s) = 48
     | Hybrid s \<Rightarrow> hybrid_mode \<and> length (kem_ciphertext s) = 1088 \<and> length (hs_ciphertext s) = 48)"

definition slot_size :: "bool \<Rightarrow> nat" where
  "slot_size hybrid_mode = (if hybrid_mode then 1272 else 175)"

text \<open>A recipient that a hybrid drop can be sealed to.\<close>

definition sealable :: "crypto \<Rightarrow> bytes \<times> bytes option \<Rightarrow> bool" where
  "sealable C p \<longleftrightarrow> (\<exists>bs. snd p = Some bs \<and> length bs = 1216 \<and> mlkem_key_ok C (drop 32 bs))"

lemma hybrid_seal_total:
  assumes "hkdf_laws C" "aead_laws C" "x25519_laws C" "mlkem_laws C" "length ck = 32" "mlkem_key_ok C (hp_kem public)"
  obtains sealed where "hybrid_seal C ck public r = Ok (sealed, snd (fill_bytes 24 (snd (fill_bytes 32 (snd (fill_bytes 32 r))))))"
    "length (ephemeral_x25519 sealed) = 32" "length (kem_ciphertext sealed) = 1088" "length (hs_nonce sealed) = 24"
    "length (hs_ciphertext sealed) = 48"
proof -
  let ?e = "fst (fill_bytes 32 r)" and ?r1 = "snd (fill_bytes 32 r)"
  let ?m = "fst (fill_bytes 32 ?r1)" and ?n = "fst (fill_bytes 24 (snd (fill_bytes 32 ?r1)))"
  obtain kc ks where enc: "mlkem_encapsulate C (hp_kem public) ?m = (kc, ks)" by fastforce
  have kc: "length kc = 1088" using assms(4,6) enc length_fill_bytes [of 32 ?r1] unfolding mlkem_laws_def by (metis fst_conv)
  obtain key where key: "mix C (x25519_dh C ?e (hp_x25519 public)) ks = Ok key" "length key = 32"
    using mix_total [OF assms(1)] by blast
  have "length ck < aead_max" by (simp add: assms(5) aead_max_def)
  from aead_seal_total [OF assms(2) key(2) length_fill_bytes this] obtain ct where
    ct: "aead_seal C key ?n HYBRID_CONTEXT ck = Ok ct" "length ct = length ck + 16" by blast
  show ?thesis
    using that [of "\<lparr>ephemeral_x25519 = x25519_public C ?e, kem_ciphertext = kc, hs_nonce = ?n, hs_ciphertext = ct\<rparr>"]
      key enc ct kc assms(3,5,6)
    by (simp add: hybrid_seal_def NONCE_LEN_def case_prod_beta Let_def x25519_laws_def)
qed

lemma wrap_key_step:
  assumes "hkdf_laws C" "aead_laws C" "x25519_laws C" "length ck = 32" "hm \<Longrightarrow> mlkem_laws C" "hm \<Longrightarrow> sealable C p"
    and "advanced k r0 r"
  obtains w r' where "wrapped_for C hm ck nonce p w" "slot_wf hm w" "advanced (k + 88) r0 r'"
    "\<And>rs. wrap_keys C hm ck nonce (p # rs) r = and_then (wrap_keys C hm ck nonce rs r') (\<lambda>(rest, rng). Ok (w # rest, rng))"
proof -
  obtain ec h where p: "p = (ec, h)" by (cases p)
  obtain tag where tag: "derive_tag C ec nonce = Ok tag" "length tag = 8" using derive_tag_total [OF assms(1)] by blast
  show ?thesis
  proof (cases hm)
    case True
    then obtain bs where bs: "h = Some bs" "length bs = 1216" "mlkem_key_ok C (drop 32 bs)"
      using assms(6) by (auto simp: sealable_def p)
    let ?public = "\<lparr>hp_x25519 = take 32 bs, hp_kem = drop 32 bs\<rparr>"
    have pub: "hybrid_public_from_bytes bs = Ok ?public" using bs(2) by (simp add: hybrid_public_from_bytes_def)
    have "mlkem_key_ok C (hp_kem ?public)" using bs(3) by simp
    from hybrid_seal_total [OF assms(1-3) assms(5) [OF True] assms(4) this, of r] obtain sealed where
      seal: "hybrid_seal C ck ?public r = Ok (sealed, snd (fill_bytes 24 (snd (fill_bytes 32 (snd (fill_bytes 32 r))))))"
      and len: "length (ephemeral_x25519 sealed) = 32" "length (kem_ciphertext sealed) = 1088" "length (hs_nonce sealed) = 24"
        "length (hs_ciphertext sealed) = 48" by blast
    show ?thesis
    proof (rule that [of "\<lparr>wk_tag = tag, wk_sealed = Hybrid sealed\<rparr>"])
      show "wrapped_for C hm ck nonce p \<lparr>wk_tag = tag, wk_sealed = Hybrid sealed\<rparr>"
        using True tag(1) bs(1) pub seal by (auto simp: wrapped_for_def p)
      show "slot_wf hm \<lparr>wk_tag = tag, wk_sealed = Hybrid sealed\<rparr>"
        using True tag(2) len by (simp add: slot_wf_def wrapped_wf_def usize_max_def)
      show "advanced (k + 88) r0 (snd (fill_bytes 24 (snd (fill_bytes 32 (snd (fill_bytes 32 r))))))"
        using advanced_fill [OF advanced_fill [OF advanced_fill [OF assms(7)]], of 32 32 24] by (simp add: add.commute)
    qed (use True tag(1) bs(1) pub seal in \<open>simp add: p\<close>)
  next
    case False
    obtain ct where ct: "length ct = 48"
      and seal: "SealedKey_seal C ck ec r = Ok (\<lparr>ephemeral_public = x25519_public C (fst (fill_bytes 32 r)),
        sk_nonce = fst (fill_bytes 24 (snd (fill_bytes 32 r))), sk_ciphertext = ct\<rparr>,
        snd (fill_bytes 24 (snd (fill_bytes 32 r))))" (is "_ = Ok (?s, ?r)")
      using SealedKey_seal_Ok [OF assms(1,2,4)] by blast
    show ?thesis
    proof (rule that [of "\<lparr>wk_tag = tag, wk_sealed = Classical ?s\<rparr>" ?r])
      show "wrapped_for C hm ck nonce p \<lparr>wk_tag = tag, wk_sealed = Classical ?s\<rparr>"
        using False tag(1) seal by (auto simp: wrapped_for_def p)
      show "slot_wf hm \<lparr>wk_tag = tag, wk_sealed = Classical ?s\<rparr>"
        using tag(2) ct assms(3) by (simp add: slot_wf_def wrapped_wf_def usize_max_def x25519_laws_def)
      show "advanced (k + 88) r0 ?r"
        using advanced_fill [OF advanced_fill [OF assms(7)], of 32 24] by (rule advanced_mono) simp
    qed (use False tag(1) seal in \<open>simp add: p\<close>)
  qed
qed

lemma wrap_keys_ok:
  assumes "hkdf_laws C" "aead_laws C" "x25519_laws C" "length ck = 32" "hm \<Longrightarrow> mlkem_laws C"
    and "hm \<Longrightarrow> \<forall>p \<in> set rs. sealable C p" "advanced k r0 r"
  shows "\<exists>ws r'. wrap_keys C hm ck nonce rs r = Ok (ws, r') \<and> advanced (k + 88 * length rs) r0 r'
    \<and> list_all2 (wrapped_for C hm ck nonce) rs ws \<and> (\<forall>w \<in> set ws. slot_wf hm w)"
  using assms(6,7)
proof (induction rs arbitrary: r k)
  case (Cons p rs)
  have "hm \<Longrightarrow> sealable C p" using Cons.prems(1) by simp
  from wrap_key_step [OF assms(1-5) this Cons.prems(2)] obtain w r1 where
    w: "wrapped_for C hm ck nonce p w" "slot_wf hm w" "advanced (k + 88) r0 r1"
      "wrap_keys C hm ck nonce (p # rs) r = and_then (wrap_keys C hm ck nonce rs r1) (\<lambda>(rest, rng). Ok (w # rest, rng))"
    by metis
  moreover have "hm \<Longrightarrow> \<forall>p \<in> set rs. sealable C p" using Cons.prems(1) by simp
  ultimately obtain ws r' where "wrap_keys C hm ck nonce rs r1 = Ok (ws, r')" "advanced (k + 88 + 88 * length rs) r0 r'"
    "list_all2 (wrapped_for C hm ck nonce) rs ws" "\<forall>w \<in> set ws. slot_wf hm w"
    using Cons.IH [of "k + 88" r1] by blast
  with w show ?case by (simp add: algebra_simps)
qed simp

lemma decoys_ok:
  assumes "advanced k r0 r" "tag_unused m tag r0" "k + 112 * n \<le> m"
  shows "length (fst (decoys n r)) = n \<and> (\<forall>w \<in> set (fst (decoys n r)). wk_tag w \<noteq> tag \<and> slot_wf hm w)"
  using assms(1,3)
proof (induction n arbitrary: r k)
  case (Suc n)
  have d: "wk_tag (fst (decoy r)) = fst (fill_bytes 8 r)" "slot_wf hm (fst (decoy r))"
    by (simp_all add: decoy_def case_prod_beta Let_def slot_wf_def wrapped_wf_def usize_max_def)
  have "advanced (k + 112) r0 (snd (decoy r))"
    using advanced_fill [OF advanced_fill [OF advanced_fill [OF advanced_fill [OF Suc.prems(1)]]], of 8 32 24 48]
    by (simp add: decoy_def case_prod_beta Let_def add.commute)
  moreover have "advanced m r0 r" using Suc.prems by (intro advanced_mono [OF Suc.prems(1)]) simp
  ultimately show ?case
    using Suc.IH [of "k + 112"] Suc.prems(2) d tag_unused_fill [OF assms(2), of r] by (simp add: case_prod_beta Let_def)
qed simp

text \<open>What opens a slot on a device.\<close>

definition opens_slot :: "crypto \<Rightarrow> hex_codec \<Rightarrow> Disk \<Rightarrow> bytes \<Rightarrow> SealedContentKey \<Rightarrow> bytes \<Rightarrow> bool" where
  "opens_slot C H d secret slot ck \<longleftrightarrow>
    (case slot of
       Classical sealed \<Rightarrow> SealedKey_open C sealed secret = Ok ck
     | Hybrid sealed \<Rightarrow> \<exists>k. Store_hybrid C H d = Ok k \<and> HybridKeypair_open C k sealed = Ok ck)"

lemma find_key_own:
  assumes "\<And>w. w \<in> set ws \<Longrightarrow> wk_tag w = tag \<Longrightarrow> opens_slot C H d secret (wk_sealed w) ck"
    and "\<exists>w \<in> set ws. wk_tag w = tag"
  shows "find_key C H d tag secret None ws = Ok (Some ck)"
  using assms
proof (induction ws)
  case (Cons w ws)
  show ?case
  proof (cases "wk_tag w = tag")
    case True
    then show ?thesis using Cons.prems(1) [of w] by (auto simp: opens_slot_def split: SealedContentKey.splits)
  next
    case False
    then show ?thesis using Cons by simp
  qed
qed simp

section \<open>The size of a body\<close>

lemma wrapped_size: "slot_wf hm w \<Longrightarrow> length (concat (wrapped_pieces w)) \<le> slot_size hm"
proof (cases "wk_sealed w")
  case (Classical s)
  moreover assume "slot_wf hm w"
  ultimately show ?thesis
    using wire_lengths(2) [of 3] wire_lengths(3) [of "wk_tag w"] wire_lengths(1) [of 1]
      wire_lengths(3) [of "ephemeral_public s"] wire_lengths(3) [of "sk_nonce s"] wire_lengths(3) [of "sk_ciphertext s"]
    by (simp add: wrapped_pieces_def slot_wf_def wrapped_wf_def slot_size_def)
next
  case (Hybrid s)
  moreover assume "slot_wf hm w"
  ultimately show ?thesis
    using wire_lengths(2) [of 3] wire_lengths(3) [of "wk_tag w"] wire_lengths(1) [of 2] wire_lengths(2) [of 4]
      wire_lengths(3) [of "ephemeral_x25519 s"] wire_lengths(3) [of "kem_ciphertext s"] wire_lengths(3) [of "hs_nonce s"]
      wire_lengths(3) [of "hs_ciphertext s"]
    by (simp add: wrapped_pieces_def slot_wf_def wrapped_wf_def slot_size_def)
qed

lemma body_size:
  assumes "body_wf b" "\<forall>w \<in> set (db_wrapped_keys b). slot_wf hm w"
  shows "length (DropBody_to_canonical b) \<le> 203 + length (db_cell b) + slot_size hm * length (db_wrapped_keys b)"
proof -
  have "length (concat (map (\<lambda>w. concat (wrapped_pieces w)) ws)) \<le> slot_size hm * length ws" if "\<forall>w \<in> set ws. slot_wf hm w" for ws
    using that by (induction ws) (auto dest: wrapped_size)
  from this [OF assms(2)]
  have "length (DropBody_to_canonical b) \<le> length (concat (body_head b)) + slot_size hm * length (db_wrapped_keys b)"
    unfolding to_canonical_pieces [OF assms(1)] by simp
  moreover have "length (concat (body_head b)) \<le> 203 + length (db_cell b)"
    using assms(1) wire_lengths(2) [of 14] wire_lengths(1) [of "ucast (db_version b)"] wire_lengths(1) [of "ucast (db_suite b)"]
      wire_lengths(4) [of "db_cell b"] wire_lengths(1) [of "ucast (db_ring b)"] wire_lengths(1) [of "db_created_at b"]
      wire_lengths(1) [of "db_expiry b"] wire_lengths(1) [of "ucast (db_mode b)"] wire_lengths(1) [of "ucast (db_chunk_size b)"]
      wire_lengths(1) [of "ucast (db_chunk_count b)"] wire_lengths(3) [of "db_content_root b"] wire_lengths(3) [of "db_prefix b"]
      wire_lengths(3) [of "db_drop_nonce b"] wire_lengths(1) [of "db_pow_nonce b"] wire_lengths(2) [of "length (db_wrapped_keys b)"]
    unfolding body_head_def by (simp add: body_wf_def)
  ultimately show ?thesis by linarith
qed

section \<open>Chunk files\<close>

definition chunk_path :: "hex_codec \<Rightarrow> DropId \<Rightarrow> nat \<Rightarrow> path" where
  "chunk_path H i n = chunk_dir H i @ [decimal n @ ''.bin'']"

lemma chunk_path_inject [simp]: "chunk_path H i n = chunk_path H i m \<longleftrightarrow> n = m"
  by (simp add: chunk_path_def)

lemma write_chunks_ok:
  assumes "layout_ok d" "chunk_dir H i \<in> set (dk_dirs d)"
  shows "\<exists>d'. write_chunks H i k chunks d = Ok d' \<and> layout_ok d' \<and> dk_dirs d' = dk_dirs d
    \<and> (\<forall>n < length chunks. disk_read d' (chunk_path H i (k + n)) = Some (chunks ! n))
    \<and> (\<forall>q. (\<forall>n. q \<noteq> chunk_path H i (k + n)) \<longrightarrow> disk_read d' q = disk_read d q)"
  using assms
proof (induction chunks arbitrary: k d)
  case (Cons c chunks)
  have p: "file_path_ok (chunk_path H i k)" "butlast (chunk_path H i k) \<in> set (dk_dirs d)"
    using Cons.prems(2) by (simp_all add: chunk_path_def)
  obtain d1 where d1: "disk_write (chunk_path H i k) c d = Ok d1" "layout_ok d1" "dk_dirs d1 = dk_dirs d"
    "\<And>q. disk_read d1 q = (if q = chunk_path H i k then Some c else disk_read d q)"
    using write_in_layout [OF Cons.prems(1) p(1) disjI2 [OF p(2)]] by blast
  from Cons.IH [OF d1(2), of "Suc k"] Cons.prems(2) d1(3) obtain d2 where
    d2: "write_chunks H i (Suc k) chunks d1 = Ok d2" "layout_ok d2" "dk_dirs d2 = dk_dirs d"
      "\<forall>n < length chunks. disk_read d2 (chunk_path H i (Suc k + n)) = Some (chunks ! n)"
      "\<And>q. (\<forall>n. q \<noteq> chunk_path H i (Suc k + n)) \<Longrightarrow> disk_read d2 q = disk_read d1 q" by auto
  have "disk_read d2 (chunk_path H i (k + n)) = Some ((c # chunks) ! n)" if "n < length (c # chunks)" for n
    using that d2(4,5) d1(4) by (cases n) auto
  moreover have "disk_read d2 q = disk_read d q" if "\<forall>n. q \<noteq> chunk_path H i (k + n)" for q
  proof -
    have "q \<noteq> chunk_path H i k" "\<forall>n. q \<noteq> chunk_path H i (Suc k + n)"
      using that [rule_format, of 0] that [rule_format, of "Suc _"] by simp_all
    then show ?thesis using d2(5) d1(4) by simp
  qed
  ultimately show ?case using d1(1) d2(1-3) by (auto simp: chunk_path_def)
qed simp

section \<open>Signed drops\<close>

lemma classical_drop_reads_back:
  assumes "ed25519_laws C" "identity_wf identity" "body_wf body" "length (DropBody_to_canonical body) + 8192 \<le> usize_max"
  defines "sd \<equiv> SignedDrop_sign C identity body"
  shows "SignedDrop_decode (sd_raw sd) = Ok sd" "SignedDrop_verify C sd = Ok ()" "SignedDrop_body sd = Ok body"
    "sd_signer sd = signing_public C identity" "length (sd_raw sd) \<le> 159 + length (DropBody_to_canonical body)"
proof -
  note id = length_identity [OF assms(1,2)]
  have f: "sd_payload sd = DropBody_to_canonical body" "sd_raw sd = envelope_of sd" "length (sd_signer sd) = 32"
    "sd_ml_dsa_key sd = []" "length (sd_signature sd) = 64" "sd_signer sd = signing_public C identity"
    using id by (simp_all add: sd_def SignedDrop_sign_def envelope_of_def Let_def)
  have wf: "envelope_wf sd" using f assms(4) by (simp add: envelope_wf_def usize_max_def)
  show "SignedDrop_decode (sd_raw sd) = Ok sd" using wf f assms(4) by (intro signed_envelope_decodes) simp_all
  show "SignedDrop_body sd = Ok body" using body_complete [OF assms(3)] assms(4) f(1) by (simp add: SignedDrop_body_def)
  show "SignedDrop_verify C sd = Ok ()"
    using id ed25519.sign_verify [OF assms(1,2)]
    by (simp add: sd_def SignedDrop_sign_def SignedDrop_verify_def Let_def)
  show "sd_signer sd = signing_public C identity" by fact
  show "length (sd_raw sd) \<le> 159 + length (DropBody_to_canonical body)" using length_envelope [OF wf] f by simp
qed

lemma signed_drop_size:
  assumes "ed25519_laws C" "mldsa_laws C" "identity_wf i" "length (mldsa_inner k) = 32"
    and "length (DropBody_to_canonical body) + 8192 \<le> usize_max" "SignedDrop_sign_hybrid C i k body = Ok s"
  shows "sd_signer s = signing_public C i" "length (sd_raw s) \<le> 5420 + length (DropBody_to_canonical body)"
proof -
  note id = length_identity [OF assms(1,3)]
  have f: "sd_payload s = DropBody_to_canonical body" "sd_raw s = envelope_of s" "length (sd_signer s) = 32"
    "length (sd_ml_dsa_key s) = 1952" "length (sd_signature s) = 3373" "sd_signer s = signing_public C i"
    using assms(6) id verify_ml_dsa_sign [OF assms(2,4)]
    by (auto simp: SignedDrop_sign_hybrid_def envelope_of_def Let_def ML_DSA_65_VK_LEN_def ML_DSA_65_SIG_LEN_def)
  then have "envelope_wf s" using assms(5) by (simp add: envelope_wf_def usize_max_def)
  then show "length (sd_raw s) \<le> 5420 + length (DropBody_to_canonical body)" using length_envelope [of s] f by simp
  show "sd_signer s = signing_public C i" by fact
qed

section \<open>Publishing a drop\<close>

lemma key_files_same:
  "disk_read d' identity_path = disk_read d identity_path \<Longrightarrow> Store_identity H d' = Store_identity H d"
  "disk_read d' hybrid_path = disk_read d hybrid_path \<Longrightarrow> Store_hybrid C H d' = Store_hybrid C H d"
  by (simp_all add: Store_identity_def Store_hybrid_def disk_read_to_string_def)

text \<open>The ML-DSA key loads, or there is none yet.\<close>

definition mldsa_usable :: "crypto \<Rightarrow> hex_codec \<Rightarrow> Disk \<Rightarrow> bool" where
  "mldsa_usable C H d \<longleftrightarrow> (disk_exists d mldsa_path \<longrightarrow> is_ok (Store_mldsa C H d))"

lemma mldsa_ready:
  assumes "layout_ok (w_disk w)" "mldsa_usable C H (w_disk w)"
  obtains k w' where "mldsa_or_create C H w = Some (Ok k, w')" "length (mldsa_inner k) = 32" "layout_ok (w_disk w')"
    "\<And>q. q \<noteq> mldsa_path \<Longrightarrow> disk_read (w_disk w') q = disk_read (w_disk w) q"
proof (cases "disk_exists (w_disk w) mldsa_path")
  case True
  then obtain k where k: "Store_mldsa C H (w_disk w) = Ok k" using assms(2) by (auto simp: mldsa_usable_def is_ok_iff)
  then have "length (mldsa_inner k) = 32" by (auto simp: Store_mldsa_def MlDsaKeypair_from_seed_def split: if_splits)
  then show ?thesis using that True k assms(1) by (simp add: mldsa_or_create_def act_read_def)
next
  case False
  let ?k = "fst (MlDsaKeypair_generate (w_rng w))"
  obtain d' where d': "save_mldsa H ?k (w_disk w) = Ok d'" "layout_ok d'"
    "\<And>q. disk_read d' q = (if q = mldsa_path then Some (str_bytes (hex_encode H (MlDsaKeypair_to_seed ?k))) else disk_read (w_disk w) q)"
    using write_in_layout [OF assms(1) layout_paths(3)] top_paths(3) unfolding save_mldsa_def by metis
  show ?thesis
    using that [of ?k "w\<lparr>w_disk := d', w_rng := snd (MlDsaKeypair_generate (w_rng w))\<rparr>"] False d'
    by (simp add: mldsa_or_create_def act_defs case_prod_beta) (simp add: MlDsaKeypair_generate_def case_prod_beta)
qed

definition sign_drop :: "crypto \<Rightarrow> hex_codec \<Rightarrow> bool \<Rightarrow> Identity \<Rightarrow> DropBody \<Rightarrow> SignedDrop action" where
  "sign_drop C H hybrid_mode identity body =
    (if hybrid_mode then
       act_then (mldsa_or_create C H) (\<lambda>ml_dsa.
       act_res (map_err StoreCore (SignedDrop_sign_hybrid C identity ml_dsa body)))
     else act_res (Ok (SignedDrop_sign C identity body)))"

lemma sign_ok:
  assumes "ed25519_laws C" "hm \<Longrightarrow> mldsa_laws C" "hm \<Longrightarrow> mldsa_total C" "hm \<Longrightarrow> mldsa_usable C H (w_disk w)"
    and "identity_wf identity" "body_wf body" "length (DropBody_to_canonical body) + 8192 \<le> usize_max" "layout_ok (w_disk w)"
  obtains sd w' where "sign_drop C H hm identity body w = Some (Ok sd, w')" "layout_ok (w_disk w')"
    "\<And>q. q \<noteq> mldsa_path \<Longrightarrow> disk_read (w_disk w') q = disk_read (w_disk w) q"
    "SignedDrop_decode (sd_raw sd) = Ok sd" "SignedDrop_verify C sd = Ok ()" "SignedDrop_body sd = Ok body"
    "sd_signer sd = signing_public C identity" "length (sd_raw sd) \<le> 5420 + length (DropBody_to_canonical body)"
proof (cases hm)
  case False
  note rb = classical_drop_reads_back [OF assms(1,5-7)]
  show ?thesis using that [of "SignedDrop_sign C identity body" w] False rb assms(8) by (simp add: sign_drop_def act_res_def)
next
  case True
  from mldsa_ready [OF assms(8) assms(4) [OF True]] obtain k w' where
    k: "mldsa_or_create C H w = Some (Ok k, w')" "length (mldsa_inner k) = 32" "layout_ok (w_disk w')"
      "\<And>q. q \<noteq> mldsa_path \<Longrightarrow> disk_read (w_disk w') q = disk_read (w_disk w) q" by blast
  obtain g where "MlDsaKeypair_sign C k (signing_input (DropBody_to_canonical body)) = Ok g"
    using assms(3) [OF True] k(2) by (auto simp: MlDsaKeypair_sign_def mldsa_total_def)
  then obtain sd where sd: "SignedDrop_sign_hybrid C identity k body = Ok sd" by (simp add: SignedDrop_sign_hybrid_def Let_def)
  note rb = signed_drop_roundtrip [OF assms(1) assms(2) [OF True] assms(5) k(2) assms(6,7) disjI2 [OF sd]]
  note l = signed_drop_size [OF assms(1) assms(2) [OF True] assms(5) k(2) assms(7) sd]
  show ?thesis using that [of sd w'] True k sd rb l by (simp add: sign_drop_def act_then_def act_res_def)
qed

lemma publish_ok:
  assumes "sign_drop C H hm identity body w0 = Some (Ok sd, w)" "layout_ok (w_disk w)" "log_holds es (w_disk w)"
    "i = SignedDrop_id C sd" "length (sd_raw sd) \<le> u32_max"
  obtains created w' where "publish_drop C H hm identity body chunks n w0 = Some (Ok created, w')"
    "cd_id created = i" "layout_ok (w_disk w')" "log_holds (es @ [sd_raw sd]) (w_disk w')"
    "disk_read (w_disk w') (drop_path H i) = Some (sd_raw sd)"
    "\<forall>k < length chunks. disk_read (w_disk w') (chunk_path H i k) = Some (chunks ! k)"
    "\<And>q. length q = 1 \<Longrightarrow> disk_read (w_disk w') q = disk_read (w_disk w) q"
proof -
  obtain d1 where d1: "disk_create_dir_all (chunk_dir H i) (w_disk w) = Ok d1" "layout_ok d1" "chunk_dir H i \<in> set (dk_dirs d1)"
    "\<And>q. disk_read d1 q = disk_read (w_disk w) q"
    using mkdir_in_layout [OF assms(2) layout_paths(10)] by blast
  obtain d2 where d2: "write_chunks H i 0 chunks d1 = Ok d2" "layout_ok d2"
    "\<forall>k < length chunks. disk_read d2 (chunk_path H i k) = Some (chunks ! k)"
    "\<And>q. (\<forall>n. q \<noteq> chunk_path H i n) \<Longrightarrow> disk_read d2 q = disk_read d1 q"
    using write_chunks_ok [OF d1(2,3), of 0 chunks] by auto
  obtain d3 where d3: "disk_create_dir_all [''drops''] d2 = Ok d3" "layout_ok d3" "[''drops''] \<in> set (dk_dirs d3)"
    "\<And>q. disk_read d3 q = disk_read d2 q"
    using mkdir_in_layout [OF d2(2) layout_paths(11)] by blast
  have "butlast (drop_path H i) = [''drops'']" by (simp add: drop_path_def)
  then obtain d4 where d4: "disk_write (drop_path H i) (sd_raw sd) d3 = Ok d4" "layout_ok d4"
    "\<And>q. disk_read d4 q = (if q = drop_path H i then Some (sd_raw sd) else disk_read d3 q)"
    using write_in_layout [OF d3(2) layout_paths(7)] d3(3) by metis
  have paths: "drop_path H i \<noteq> chunk_path H i k" "entries_path \<noteq> drop_path H i" "entries_path \<noteq> chunk_path H i k"
    "length q = 1 \<Longrightarrow> q \<noteq> drop_path H i \<and> q \<noteq> chunk_path H i k \<and> q \<noteq> entries_path" for k q
    by (auto simp: path_defs chunk_path_def)
  have "log_holds es d4" using assms(3) paths d4(3) d3(4) d2(4) d1(4) by (simp add: log_holds_def)
  then obtain d5 where d5: "append_log_entry (sd_raw sd) d4 = Ok d5" "layout_ok d5" "log_holds (es @ [sd_raw sd]) d5"
    "\<And>q. q \<noteq> entries_path \<Longrightarrow> disk_read d5 q = disk_read d4 q"
    using append_log_entry_ok [OF d4(2) _ assms(5)] by blast
  have run: "publish_drop C H hm identity body chunks n w0 = Some (Ok \<lparr>cd_id = i, cd_cell = db_cell body,
      cd_chunks = db_chunk_count body, cd_bytes = n, cd_suite = db_suite body, cd_sig_kind = sd_sig_kind sd\<rparr>,
      w\<lparr>w_disk := d5\<rparr>)"
    using d1(1) d2(1) d3(1) d4(1) d5(1) assms(4)
    unfolding publish_drop_def sign_drop_def [symmetric] act_then_def [of "sign_drop C H hm identity body"] assms(1)
    by (simp add: act_defs ignore_failure_def Let_def)
  have "disk_read d5 (drop_path H i) = Some (sd_raw sd)" using d5(4) d4(3) paths by metis
  moreover have "\<forall>k < length chunks. disk_read d5 (chunk_path H i k) = Some (chunks ! k)"
    using d5(4) d4(3) d3(4) d2(3) paths by metis
  moreover have "disk_read d5 q = disk_read (w_disk w) q" if "length q = 1" for q
    using that paths d5(4) d4(3) d3(4) d2(4) d1(4) by metis
  ultimately show ?thesis using d5(2,3) by (intro that [OF run]) simp_all
qed

section \<open>Reading back a created drop\<close>

lemma recipients_for_lengths:
  assumes "recipients_for hm cs to = Ok rs" "p \<in> set rs"
  shows "\<exists>c \<in> set cs. fst p = ct_ecdh c"
  using assms
proof (induction to arbitrary: rs)
  case (Cons name to)
  then obtain rest where "recipients_for hm cs to = Ok rest"
    "rs = map (\<lambda>c. (ct_ecdh c, ct_hybrid c)) (filter (\<lambda>c. ct_name c = name) cs) @ rest"
    by (auto simp: Let_def split: if_splits)
  then show ?case using Cons by auto
qed simp

lemma open_drop_ok:
  assumes "Store_identity H d = Ok identity" "disk_read d (drop_path H i) = Some (sd_raw sd)"
    and "SignedDrop_decode (sd_raw sd) = Ok sd" "SignedDrop_verify C sd = Ok ()" "SignedDrop_body sd = Ok body"
    and "DropBody_pow_ok C body (sd_signer sd)" "derive_tag C (ecdh_public C identity) (db_drop_nonce body) = Ok tag"
    and "find_key C H d tag (ecdh identity) None (db_wrapped_keys body) = Ok (Some ck)"
    and "\<forall>k < length chunks. disk_read d (chunk_path H i k) = Some (chunks ! k)" "length chunks = unat (db_chunk_count body)"
    and "decrypt C ck \<lparr>fr_prefix = db_prefix body, fr_total = db_chunk_count body\<rparr> chunks = Ok plaintext"
  shows "open_drop C H d i = Ok plaintext"
proof -
  have "collect_res (read_chunk H d i) [0..<unat (db_chunk_count body)] = Ok chunks"
    using assms(9,10) by (simp add: collect_res_Ok_iff read_chunk_def chunk_path_def)
  then show ?thesis using assms by (simp add: open_drop_def ecdh_secret_bytes_def)
qed

lemma mine_returns:
  assumes "\<exists>n. pow_is_valid C signer root nonce n"
  obtains n where "mine C signer root nonce = Some n" "pow_is_valid C signer root nonce n"
proof -
  let ?v = "pow_is_valid C signer root nonce"
  define k where "k = (LEAST d. ?v (of_nat d))"
  obtain m where "?v m" using assms by blast
  then have "?v (of_nat (unat m))" by simp
  then have valid: "?v (of_nat k)" unfolding k_def by (rule LeastI)
  have "\<not> ?v (0 + of_nat j)" if "j < k" for j using not_less_Least [OF that [unfolded k_def]] by simp
  then have "mine C signer root nonce = Some (of_nat k)"
    unfolding mine_def using mine_from_finds [of ?v 0 k] valid by simp
  then show ?thesis using that valid by blast
qed

text \<open>
  What a sender needs for creating a drop that reaches a device: a recipient list that contains
  the device, with its hybrid key if the drop is hybrid, and the two accidents excluded: another
  recipient's tag or a run of the random bytes drawn that equals the device's tag. The nonce of the
  drop is what is drawn after the content key and the prefix.
\<close>

definition nonce_drawn :: "rng \<Rightarrow> bytes" where
  "nonce_drawn r = fst (fill_bytes 16 (snd (fill_bytes 20 (snd (fill_bytes 32 r)))))"

definition public_bytes :: "crypto \<Rightarrow> HybridKeypair \<Rightarrow> bytes" where
  "public_bytes C k = hp_x25519 (HybridKeypair_public C k) @ hp_kem (HybridKeypair_public C k)"

definition addressed_to ::
    "crypto \<Rightarrow> Identity \<Rightarrow> HybridKeypair option \<Rightarrow> (bytes \<times> bytes option) list \<Rightarrow> rng \<Rightarrow> bool" where
  "addressed_to C identity hk rs r \<longleftrightarrow>
    ecdh_public C identity \<in> fst ` set rs \<and> length rs \<le> 1000000
    \<and> (\<forall>k. hk = Some k \<longrightarrow> (\<forall>p \<in> set rs. sealable C p \<and> (fst p = ecdh_public C identity \<longrightarrow> snd p = Some (public_bytes C k))))
    \<and> (\<forall>tag. derive_tag C (ecdh_public C identity) (nonce_drawn r) = Ok tag \<longrightarrow> tag_unused (1860 + 88 * length rs) tag r
        \<and> (\<forall>p \<in> set rs. derive_tag C (fst p) (nonce_drawn r) = Ok tag \<longrightarrow> fst p = ecdh_public C identity))"

text \<open>A disk with the keys a device needs for opening.\<close>

definition device :: "crypto \<Rightarrow> hex_codec \<Rightarrow> Identity \<Rightarrow> HybridKeypair option \<Rightarrow> Disk \<Rightarrow> bool" where
  "device C H identity hk d \<longleftrightarrow> Store_identity H d = Ok identity \<and> (\<forall>k. hk = Some k \<longrightarrow> Store_hybrid C H d = Ok k)"

text \<open>
  The laws each suite needs. A classical key opens only with a peer whose shared secret is not
  zero; the hybrid suite makes no such test.
\<close>

definition suite_laws :: "crypto \<Rightarrow> Identity \<Rightarrow> HybridKeypair option \<Rightarrow> bool" where
  "suite_laws C reader hk \<longleftrightarrow>
    (case hk of
       None \<Rightarrow> \<forall>e. length e = 32 \<longrightarrow> \<not> list_all (\<lambda>b. b = 0) (x25519_dh C (ecdh reader) (x25519_public C e))
     | Some _ \<Rightarrow> mlkem_laws C \<and> mldsa_laws C \<and> mldsa_total C)"

lemma device_kept:
  assumes "\<forall>q. length q = 1 \<longrightarrow> q \<noteq> mldsa_path \<longrightarrow> disk_read d' q = disk_read d q" "device C H identity hk d"
  shows "device C H identity hk d'"
  using assms key_files_same(1) [of d' d H] key_files_same(2) [of d' d C H] by (simp add: device_def path_defs)

lemma Store_hybrid_wf: "Store_hybrid C H d = Ok k \<Longrightarrow> hybrid_wf C k"
  using hybrid_wf_from_secret_bytes by (auto simp: Store_hybrid_def split: if_splits)

lemma public_bytes_parse:
  assumes "x25519_laws C" "mlkem_laws C" "hybrid_wf C k"
  shows "hybrid_public_from_bytes (public_bytes C k) = Ok (HybridKeypair_public C k)"
  using assms
  by (simp add: public_bytes_def hybrid_public_from_bytes_def HybridKeypair_public_def hybrid_wf_def mlkem_laws_def x25519_laws_def)

lemma wrapped_opens:
  assumes laws: "hkdf_laws C" "aead_laws C" "x25519_laws C" "suite_laws C identity hk" and "length ck = 32"
    and "device C H identity hk d" "identity_wf identity" "fst p = ecdh_public C identity"
    and "\<forall>k. hk = Some k \<longrightarrow> snd p = Some (public_bytes C k)" "wrapped_for C (hk \<noteq> None) ck nonce p w"
  shows "opens_slot C H d (ecdh identity) (wk_sealed w) ck"
proof (cases hk)
  case None
  obtain sealed r r' where s: "wk_sealed w = Classical sealed"
    "SealedKey_seal C ck (x25519_public C (ecdh identity)) r = Ok (sealed, r')"
    using assms(8,10) None unfolding wrapped_for_def ecdh_public_def by auto
  obtain e where "length e = 32" "ephemeral_public sealed = x25519_public C e"
    using s(2) SealedKey_seal_Ok [OF laws(1,2) assms(5), of r "x25519_public C (ecdh identity)"] length_fill_bytes
    by (metis SealedKey.select_convs(1) fst_conv res.inject(1))
  then have "shared_nonzero C (ecdh identity) sealed" using laws(4) None by (simp add: shared_nonzero_def suite_laws_def)
  then show ?thesis using s sealed_box.seal_open [of C "ecdh identity" ck r sealed r'] laws(1-3) assms(5,7)
    by (auto simp: identity_wf_def opens_slot_def)
next
  case (Some k)
  then have k: "Store_hybrid C H d = Ok k" "mlkem_laws C" using assms(6) laws(4) by (simp_all add: device_def suite_laws_def)
  note wf = Store_hybrid_wf [OF k(1)]
  obtain sealed r r' where s: "wk_sealed w = Hybrid sealed" "hybrid_seal C ck (HybridKeypair_public C k) r = Ok (sealed, r')"
    using assms(9,10) Some public_bytes_parse [OF laws(3) k(2) wf] unfolding wrapped_for_def by auto
  have "hkdf_laws C \<and> aead_laws C \<and> x25519_laws C \<and> mlkem_laws C" using laws k(2) by blast
  from hybrid_box.seal_open [OF this wf assms(5) s(2) TrueI] show ?thesis using s(1) k(1) by (simp add: opens_slot_def)
qed

lemma own_key_found:
  assumes "hkdf_laws C" "aead_laws C" "x25519_laws C" "suite_laws C identity hk" "length ck = 32"
    and "device C H identity hk d" "identity_wf identity"
    and "addressed_to C identity hk rs r0" "nonce = nonce_drawn r0"
    and "derive_tag C (ecdh_public C identity) nonce = Ok tag"
    and "list_all2 (wrapped_for C (hk \<noteq> None) ck nonce) rs ws" "\<forall>w \<in> set padding. wk_tag w \<noteq> tag"
    and "set keys = set (ws @ padding)"
  shows "find_key C H d tag (ecdh identity) None keys = Ok (Some ck)"
proof (rule find_key_own)
  have only: "fst p = ecdh_public C identity" if "p \<in> set rs" "derive_tag C (fst p) nonce = Ok tag" for p
    using assms(8-10) that by (auto simp: addressed_to_def)
  have own: "\<forall>k. hk = Some k \<longrightarrow> snd p = Some (public_bytes C k)" if "p \<in> set rs" "fst p = ecdh_public C identity" for p
    using assms(8) that by (auto simp: addressed_to_def)
  show "opens_slot C H d (ecdh identity) (wk_sealed w) ck" if "w \<in> set keys" "wk_tag w = tag" for w
  proof -
    have "w \<in> set ws" using that assms(12,13) by auto
    then obtain p where p: "p \<in> set rs" "wrapped_for C (hk \<noteq> None) ck nonce p w"
      using assms(11) by (metis in_set_conv_nth list_all2_conv_all_nth)
    moreover from this have "fst p = ecdh_public C identity" using only that(2) by (auto simp: wrapped_for_def)
    ultimately show ?thesis using wrapped_opens [OF assms(1-7)] own by blast
  qed
  obtain p where "p \<in> set rs" "fst p = ecdh_public C identity" using assms(8) by (auto simp: addressed_to_def)
  then obtain w where "w \<in> set ws" "derive_tag C (ecdh_public C identity) nonce = Ok (wk_tag w)"
    using assms(11) by (metis in_set_conv_nth list_all2_conv_all_nth wrapped_for_def)
  then show "\<exists>w \<in> set keys. wk_tag w = tag" using assms(10,13) by auto
qed

lemma encrypt_decrypts:
  assumes "hkdf_laws C" "aead_laws C" "length p \<le> u32_max * DEFAULT_CHUNK_SIZE"
  obtains total chunks where
    "encrypt C k p r = Ok ((\<lparr>fr_prefix = fst (fill_bytes 20 r), fr_total = total\<rparr>, chunks), snd (fill_bytes 20 r))"
    "length chunks = unat total" "decrypt C k \<lparr>fr_prefix = fst (fill_bytes 20 r), fr_total = total\<rparr> chunks = Ok p"
    "\<forall>b \<in> set chunks. length b \<le> DEFAULT_CHUNK_SIZE + 16"
proof -
  let ?n = "chunk_count (length p)" and ?f = "\<lparr>fr_prefix = fst (fill_bytes 20 r), fr_total = of_nat (chunk_count (length p))\<rparr>"
  obtain chunks where c: "encrypt C k p r = Ok ((?f, chunks), snd (fill_bytes 20 r))" "length chunks = ?n"
    "\<forall>i < length chunks. decrypt_chunk C k ?f (of_nat i) (chunks ! i) = Ok (cut_at p i)"
    "\<forall>b \<in> set chunks. length b \<le> DEFAULT_CHUNK_SIZE + 16"
    using encrypt_complete [OF assms] by metis
  have "?n \<le> u32_max" using assms(3) by (simp add: chunk_count_bound)
  then have n: "unat (of_nat ?n :: u32) = ?n" by (simp add: u32_max_def unat_of_nat)
  have "concat (map (cut_at p) [0..<?n]) = p" using chunk_count_covers [of "length p"] by (simp add: concat_cut_at)
  then have "decrypt C k ?f chunks = Ok p"
    unfolding decrypt_Ok_iff using c(2,3) n by (intro conjI exI [of _ "map (cut_at p) [0..<?n]"]) simp_all
  with c(1,2,4) n show ?thesis by (intro that) simp_all
qed

lemma Store_identity_wf: "Store_identity H d = Ok identity \<Longrightarrow> identity_wf identity"
  by (auto simp: Store_identity_def parse_identity_def hex32_def identity_wf_def Identity_from_secret_bytes_def Let_def
      split: if_splits)

text \<open>Everything \<open>create_drop\<close> draws and computes before it publishes.\<close>

lemma create_drop_prepares:
  assumes laws: "hkdf_laws C" "aead_laws C" "x25519_laws C" "sha256_laws C"
    and shuffle: "\<And>xs r. mset (fst (shuffle xs r)) = mset xs"
    and keys: "Store_identity H (w_disk w) = Ok identity" "Store_contacts H (w_disk w) = Ok cs"
    and to: "to \<noteq> []" "recipients_for (hk \<noteq> None) cs to = Ok rs" "addressed_to C reader hk rs (w_rng w)"
    and suite: "eq_ignore_ascii_case suite (if hk = None then ''classical'' else ''hybrid'')" "suite_laws C reader hk"
    and cell: "CellId_from_lat_lng A lat lng res = Ok cell" "h3_laws A"
    and mines: "\<And>root nonce. \<exists>n. pow_is_valid C (signing_public C identity) root nonce n"
    and size: "length plaintext \<le> u32_max * DEFAULT_CHUNK_SIZE"
  obtains body chunks w1 ck ws padding tag where
    "create_drop C H A shuffle to lat lng res ring ttl suite plaintext w
      = publish_drop C H (hk \<noteq> None) identity body chunks (length plaintext) w1"
    "w_disk w1 = w_disk w" "body_wf body" "\<forall>k \<in> set (db_wrapped_keys body). slot_wf (hk \<noteq> None) k"
    "length (db_cell body) \<le> 16" "db_drop_nonce body = nonce_drawn (w_rng w)"
    "MIN_TAGS \<le> length (db_wrapped_keys body)" "length (db_wrapped_keys body) \<le> length rs + MIN_TAGS"
    "pow_is_valid C (signing_public C identity) (db_content_root body) (db_drop_nonce body) (db_pow_nonce body)"
    "derive_tag C (ecdh_public C reader) (db_drop_nonce body) = Ok tag" "length ck = 32"
    "list_all2 (wrapped_for C (hk \<noteq> None) ck (db_drop_nonce body)) rs ws" "\<forall>k \<in> set padding. wk_tag k \<noteq> tag"
    "set (db_wrapped_keys body) = set (ws @ padding)" "length chunks = unat (db_chunk_count body)"
    "db_content_root body = content_root C chunks"
    "decrypt C ck \<lparr>fr_prefix = db_prefix body, fr_total = db_chunk_count body\<rparr> chunks = Ok plaintext"
    "\<forall>b \<in> set chunks. length b \<le> DEFAULT_CHUNK_SIZE + 16"
proof -
  let ?r0 = "w_rng w" and ?hm = "hk \<noteq> None"
  let ?ck = "fst (fill_bytes 32 ?r0)" and ?r1 = "snd (fill_bytes 32 ?r0)"
  let ?r2 = "snd (fill_bytes 20 ?r1)"
  let ?nonce = "fst (fill_bytes 16 ?r2)" and ?r3 = "snd (fill_bytes 16 ?r2)"
  obtain total chunks where enc:
    "encrypt C ?ck plaintext ?r1 = Ok ((\<lparr>fr_prefix = fst (fill_bytes 20 ?r1), fr_total = total\<rparr>, chunks), ?r2)"
    "length chunks = unat total" "decrypt C ?ck \<lparr>fr_prefix = fst (fill_bytes 20 ?r1), fr_total = total\<rparr> chunks = Ok plaintext"
    "\<forall>b \<in> set chunks. length b \<le> DEFAULT_CHUNK_SIZE + 16"
    using encrypt_decrypts [OF laws(1,2) size] by metis
  have kem: "?hm \<Longrightarrow> mlkem_laws C" "?hm \<Longrightarrow> \<forall>p \<in> set rs. sealable C p"
    using suite(2) to(3) by (auto simp: suite_laws_def addressed_to_def)
  have adv: "advanced 68 ?r0 ?r3"
    using advanced_fill [OF advanced_fill [OF advanced_fill [OF advanced_refl]], of 32 20 16] by simp
  obtain ws r4 where ws: "wrap_keys C ?hm ?ck ?nonce rs ?r3 = Ok (ws, r4)" "advanced (68 + 88 * length rs) ?r0 r4"
    "list_all2 (wrapped_for C ?hm ?ck ?nonce) rs ws" "\<forall>k \<in> set ws. slot_wf ?hm k"
    using wrap_keys_ok [OF laws(1-3) length_fill_bytes kem adv] by blast
  obtain tag where tag: "derive_tag C (ecdh_public C reader) ?nonce = Ok tag" using derive_tag_total [OF laws(1)] by blast
  have unused: "tag_unused (1860 + 88 * length rs) tag ?r0" using to(3) tag by (simp add: addressed_to_def nonce_drawn_def)
  have "68 + 88 * length rs + 112 * (MIN_TAGS - length ws) \<le> 1860 + 88 * length rs" by (simp add: MIN_TAGS_def)
  note dec = decoys_ok [OF ws(2) unused this, of ?hm]
  define padding r5 where "padding = fst (decoys (MIN_TAGS - length ws) r4)" and "r5 = snd (decoys (MIN_TAGS - length ws) r4)"
  define keys' r6 where "keys' = fst (shuffle (ws @ padding) r5)" and "r6 = snd (shuffle (ws @ padding) r5)"
  have ms: "mset keys' = mset (ws @ padding)" by (simp add: keys'_def shuffle)
  have set': "set keys' = set (ws @ padding)" using mset_eq_setD [OF ms] .
  have "length ws = length rs" using ws(3) by (simp add: list_all2_lengthD)
  moreover have rs: "length rs \<le> 1000000" using to(3) by (simp add: addressed_to_def)
  ultimately have len: "MIN_TAGS \<le> length keys'" "length keys' \<le> length rs + MIN_TAGS"
    using mset_eq_length [OF ms] dec by (simp_all add: padding_def)
  obtain pn where pn: "mine C (signing_public C identity) (content_root C chunks) ?nonce = Some pn"
    "pow_is_valid C (signing_public C identity) (content_root C chunks) ?nonce pn" using mine_returns [OF mines] by blast
  obtain now w' where now: "now_unix (w\<lparr>w_rng := r6\<rparr>) = Some (Ok now, w')" "w_disk w' = w_disk w"
    by (cases "w_clock w") (simp_all add: now_unix_def)
  define body where "body = \<lparr>db_version = PROTOCOL_VERSION, db_suite = (if ?hm then suite_id Hybrid25519MlKem768 else suite_id Classical25519), db_cell = CellId_to_hex A cell,
    db_ring = ring, db_created_at = now, db_expiry = (if ttl = 0 then 0 else saturating_add now ttl),
    db_mode = mode_id Capability, db_chunk_size = of_nat DEFAULT_CHUNK_SIZE, db_chunk_count = total,
    db_content_root = content_root C chunks, db_prefix = fst (fill_bytes 20 ?r1), db_drop_nonce = ?nonce,
    db_pow_nonce = pn, db_wrapped_keys = keys'\<rparr>"
  have mode: "eq_ignore_ascii_case suite ''hybrid'' \<longleftrightarrow> ?hm"
    "eq_ignore_ascii_case suite ''classical'' \<or> eq_ignore_ascii_case suite ''hybrid''"
    using suite(1) map_eq_imp_length_eq [of ascii_lower suite ascii_lower "''classical''"]
      map_eq_imp_length_eq [of ascii_lower suite ascii_lower "''hybrid''"]
    by (auto simp: eq_ignore_ascii_case_def split: if_splits)
  have run: "create_drop C H A shuffle to lat lng res ring ttl suite plaintext w
      = publish_drop C H ?hm identity body chunks (length plaintext) w'"
    using to(1,2) mode keys enc(1) ws(1) pn(1) cell(1) now
    by (cases hk) (simp_all add: create_drop_def act_defs Let_def act_mine_def case_prod_beta body_def
        padding_def [symmetric] r5_def [symmetric] keys'_def [symmetric] r6_def [symmetric]
        try_u32_usize_def DEFAULT_CHUNK_SIZE_def u32_max_def)
  have cwf: "\<forall>k \<in> set keys'. slot_wf ?hm k" using set' ws(4) dec by (auto simp: padding_def)
  have "body_wf body"
    using CellId_text [OF cell(2), of cell] cwf len rs laws(4)
    by (auto simp: MIN_TAGS_def body_wf_def body_def slot_wf_def content_root_def sha256_laws_def usize_max_def
        wrapped_key_size_def isize_max_def)
  moreover have "\<forall>k \<in> set padding. wk_tag k \<noteq> tag" using dec by (simp add: padding_def)
  ultimately show ?thesis
    using enc ws(3) len pn(2) tag set' cwf CellId_text [OF cell(2), of cell]
    by (intro that [OF run now(2)]) (simp_all add: body_def nonce_drawn_def)
qed

text \<open>A disk that holds an envelope and its chunks where the store looks for them.\<close>

definition holds_drop :: "hex_codec \<Rightarrow> Disk \<Rightarrow> DropId \<Rightarrow> bytes \<Rightarrow> bytes list \<Rightarrow> bool" where
  "holds_drop H d i raw chunks \<longleftrightarrow> disk_read d (drop_path H i) = Some raw
    \<and> (\<forall>n < length chunks. disk_read d (chunk_path H i n) = Some (chunks ! n))"

lemma create_for:
  assumes "hkdf_laws C" "aead_laws C" "x25519_laws C" "sha256_laws C" "ed25519_laws C" "h3_laws A"
    and "\<And>xs r. mset (fst (shuffle xs r)) = mset xs"
    and "layout_ok (w_disk w)" and "log_holds es (w_disk w)"
    and "Store_identity H (w_disk w) = Ok identity" and "Store_contacts H (w_disk w) = Ok cs"
    and "to \<noteq> []" and "recipients_for (hk \<noteq> None) cs to = Ok rs" and "addressed_to C reader hk rs (w_rng w)"
    and "suite_laws C reader hk" and "hk = None \<or> mldsa_usable C H (w_disk w)"
    and "eq_ignore_ascii_case suite (if hk = None then ''classical'' else ''hybrid'')" and "CellId_from_lat_lng A lat lng res = Ok cell"
    and "\<And>root nonce. \<exists>n. pow_is_valid C (signing_public C identity) root nonce n"
    and "length plaintext \<le> u32_max * DEFAULT_CHUNK_SIZE"
  shows "\<exists>created w' sd body chunks.
    create_drop C H A shuffle to lat lng res ring ttl suite plaintext w = Some (Ok created, w')
    \<and> SignedDrop_decode (sd_raw sd) = Ok sd \<and> SignedDrop_body sd = Ok body \<and> SignedDrop_verify C sd = Ok ()
    \<and> DropBody_pow_ok C body (sd_signer sd) \<and> cd_id created = SignedDrop_id C sd
    \<and> holds_drop H (w_disk w') (cd_id created) (sd_raw sd) chunks \<and> length chunks = unat (db_chunk_count body)
    \<and> MIN_TAGS \<le> length (db_wrapped_keys body) \<and> db_content_root body = content_root C chunks
    \<and> log_entries (w_disk w') = es @ [sd_raw sd] \<and> layout_ok (w_disk w')
    \<and> (\<forall>q. length q = 1 \<longrightarrow> q \<noteq> mldsa_path \<longrightarrow> disk_read (w_disk w') q = disk_read (w_disk w) q)
    \<and> (\<forall>d. device C H reader hk d \<and> holds_drop H d (cd_id created) (sd_raw sd) chunks
        \<longrightarrow> open_drop C H d (cd_id created) = Ok plaintext)
    \<and> length (sd_raw sd) \<le> 26000 + slot_size (hk \<noteq> None) * length rs \<and> (\<forall>b \<in> set chunks. length b \<le> DEFAULT_CHUNK_SIZE + 16)"
proof -
  let ?hm = "hk \<noteq> None"
  obtain body chunks w1 ck ws padding tag where
    run: "create_drop C H A shuffle to lat lng res ring ttl suite plaintext w
      = publish_drop C H ?hm identity body chunks (length plaintext) w1" and disk: "w_disk w1 = w_disk w"
    and b: "body_wf body" "\<forall>k \<in> set (db_wrapped_keys body). slot_wf ?hm k" "length (db_cell body) \<le> 16"
      "db_drop_nonce body = nonce_drawn (w_rng w)" "MIN_TAGS \<le> length (db_wrapped_keys body)" "length (db_wrapped_keys body) \<le> length rs + MIN_TAGS"
    and pow: "pow_is_valid C (signing_public C identity) (db_content_root body) (db_drop_nonce body) (db_pow_nonce body)"
    and k: "derive_tag C (ecdh_public C reader) (db_drop_nonce body) = Ok tag" "length ck = 32"
      "list_all2 (wrapped_for C ?hm ck (db_drop_nonce body)) rs ws" "\<forall>k \<in> set padding. wk_tag k \<noteq> tag"
      "set (db_wrapped_keys body) = set (ws @ padding)"
    and c: "length chunks = unat (db_chunk_count body)" "db_content_root body = content_root C chunks"
      "decrypt C ck \<lparr>fr_prefix = db_prefix body, fr_total = db_chunk_count body\<rparr> chunks = Ok plaintext"
      "\<forall>b \<in> set chunks. length b \<le> DEFAULT_CHUNK_SIZE + 16"
    by (rule create_drop_prepares [OF assms(1-4,7,10-14,17,15,18,6,19,20), where ring = ring and ttl = ttl])
  have rs: "length rs \<le> 1000000" using assms(14) by (simp add: addressed_to_def)
  have size: "length (DropBody_to_canonical body) \<le> 20571 + slot_size ?hm * length rs"
  proof -
    have "slot_size ?hm * length (db_wrapped_keys body) \<le> slot_size ?hm * (length rs + MIN_TAGS)" using b(6) by simp
    also have "\<dots> \<le> slot_size ?hm * length rs + 20352" by (simp add: distrib_left MIN_TAGS_def slot_size_def)
    finally show ?thesis using body_size [OF b(1,2)] b(3) by simp
  qed
  have slots: "slot_size ?hm * length rs \<le> 1272000000" using rs by (simp add: slot_size_def)
  with size have fits: "length (DropBody_to_canonical body) + 8192 \<le> usize_max" by (simp add: usize_max_def)
  have sig: "?hm \<Longrightarrow> mldsa_laws C" "?hm \<Longrightarrow> mldsa_total C" "?hm \<Longrightarrow> mldsa_usable C H (w_disk w1)"
    using assms(15,16) disk by (auto simp: suite_laws_def)
  have lay: "layout_ok (w_disk w1)" using assms(8) disk by simp
  obtain sd w2 where sd: "sign_drop C H ?hm identity body w1 = Some (Ok sd, w2)" "layout_ok (w_disk w2)"
    "\<And>q. q \<noteq> mldsa_path \<Longrightarrow> disk_read (w_disk w2) q = disk_read (w_disk w1) q"
    and rb: "SignedDrop_decode (sd_raw sd) = Ok sd" "SignedDrop_verify C sd = Ok ()" "SignedDrop_body sd = Ok body"
      "sd_signer sd = signing_public C identity" "length (sd_raw sd) \<le> 5420 + length (DropBody_to_canonical body)"
    using sign_ok [OF assms(5) sig Store_identity_wf [OF assms(10)] b(1) fits lay] by metis
  let ?i = "SignedDrop_id C sd"
  have log: "log_holds es (w_disk w2)" using assms(9) sd(3) disk by (simp add: log_holds_def path_defs)
  have "length (sd_raw sd) \<le> u32_max" using rb(5) size slots by (simp add: u32_max_def)
  then obtain created w' where p: "publish_drop C H ?hm identity body chunks (length plaintext) w1 = Some (Ok created, w')"
    "cd_id created = ?i" "layout_ok (w_disk w')" "log_holds (es @ [sd_raw sd]) (w_disk w')"
    "disk_read (w_disk w') (drop_path H ?i) = Some (sd_raw sd)"
    "\<forall>n < length chunks. disk_read (w_disk w') (chunk_path H ?i n) = Some (chunks ! n)"
    "\<And>q. length q = 1 \<Longrightarrow> disk_read (w_disk w') q = disk_read (w_disk w2) q"
    using publish_ok [OF sd(1,2) log refl, of chunks "length plaintext"] by metis
  have pow': "DropBody_pow_ok C body (sd_signer sd)" using pow rb(4) by (simp add: DropBody_pow_ok_def)
  have "open_drop C H d ?i = Ok plaintext" if "device C H reader hk d" "holds_drop H d ?i (sd_raw sd) chunks" for d
  proof -
    have id: "Store_identity H d = Ok reader" using that(1) by (simp add: device_def)
    have "find_key C H d tag (ecdh reader) None (db_wrapped_keys body) = Ok (Some ck)"
      by (rule own_key_found [OF assms(1-3,15) k(2) that(1) Store_identity_wf [OF id] assms(14) b(4) k(1,3-5)])
    then show ?thesis using that(2) unfolding holds_drop_def
      by (intro open_drop_ok [OF id _ rb(1-3) pow' k(1) _ _ c(1,3)]) auto
  qed
  then show ?thesis
    using run p disk sd(3) rb(1-3,5) size pow' b(5) c(1,2,4) log_entries_hold [OF p(4)]
    by (intro exI [of _ created] exI [of _ w'] exI [of _ sd] exI [of _ body] exI [of _ chunks]) (simp add: holds_drop_def)
qed

section \<open>Properties\<close>

text \<open>
  C29. Creating a drop works, and every recipient can open it. On a data directory in order whose
  keys and contacts load, creating a drop of either suite returns; the envelope on disk verifies,
  carries at least \<open>MIN_TAGS\<close> wrapped keys and commits to the stored chunks, and the log has
  gained exactly that envelope. On any disk that holds the envelope and the chunks and
  the keys of a device among the recipients, \<open>open_drop\<close> returns the plaintext; the disk of
  the author is one if the author is a recipient.
\<close>

theorem create_then_open:
  assumes "hkdf_laws C" "aead_laws C" "x25519_laws C" "sha256_laws C" "ed25519_laws C" "h3_laws A"
    and "\<And>xs r. mset (fst (shuffle xs r)) = mset xs"
    and "layout_ok (w_disk w)" and "log_holds es (w_disk w)"
    and "Store_identity H (w_disk w) = Ok identity" and "Store_contacts H (w_disk w) = Ok cs"
    and "to \<noteq> []" and "recipients_for (hk \<noteq> None) cs to = Ok rs" and "addressed_to C reader hk rs (w_rng w)"
    and "suite_laws C reader hk" and "hk = None \<or> mldsa_usable C H (w_disk w)"
    and "eq_ignore_ascii_case suite (if hk = None then ''classical'' else ''hybrid'')" and "CellId_from_lat_lng A lat lng res = Ok cell"
    and "\<And>root nonce. \<exists>n. pow_is_valid C (signing_public C identity) root nonce n"
    and "length plaintext \<le> u32_max * DEFAULT_CHUNK_SIZE"
  shows "\<exists>created w' sd body chunks.
    create_drop C H A shuffle to lat lng res ring ttl suite plaintext w = Some (Ok created, w')
    \<and> read_drop H (w_disk w') (cd_id created) = Ok (sd, body) \<and> SignedDrop_verify C sd = Ok ()
    \<and> MIN_TAGS \<le> length (db_wrapped_keys body) \<and> db_content_root body = content_root C chunks
    \<and> holds_drop H (w_disk w') (cd_id created) (sd_raw sd) chunks
    \<and> log_entries (w_disk w') = es @ [sd_raw sd] \<and> layout_ok (w_disk w')
    \<and> (\<forall>d. device C H reader hk d \<and> holds_drop H d (cd_id created) (sd_raw sd) chunks
        \<longrightarrow> open_drop C H d (cd_id created) = Ok plaintext)
    \<and> (device C H reader hk (w_disk w) \<longrightarrow> open_drop C H (w_disk w') (cd_id created) = Ok plaintext)"
proof -
  from create_for [where shuffle = shuffle and ring = ring and ttl = ttl, OF assms] obtain created w' sd body chunks where *:
    "create_drop C H A shuffle to lat lng res ring ttl suite plaintext w = Some (Ok created, w')"
    "SignedDrop_decode (sd_raw sd) = Ok sd" "SignedDrop_body sd = Ok body" "SignedDrop_verify C sd = Ok ()"
    "holds_drop H (w_disk w') (cd_id created) (sd_raw sd) chunks"
    "MIN_TAGS \<le> length (db_wrapped_keys body)" "db_content_root body = content_root C chunks"
    "log_entries (w_disk w') = es @ [sd_raw sd]" "layout_ok (w_disk w')"
    "\<forall>q. length q = 1 \<longrightarrow> q \<noteq> mldsa_path \<longrightarrow> disk_read (w_disk w') q = disk_read (w_disk w) q"
    "\<forall>d. device C H reader hk d \<and> holds_drop H d (cd_id created) (sd_raw sd) chunks
        \<longrightarrow> open_drop C H d (cd_id created) = Ok plaintext" by auto
  have "read_drop H (w_disk w') (cd_id created) = Ok (sd, body)"
    using *(2,3,5) by (simp add: read_drop_def holds_drop_def)
  moreover note device_kept [OF *(10)]
  ultimately show ?thesis using * by blast
qed

lemma inclusion_verifies:
  "k < length leaves \<Longrightarrow> inclusion_proof sha leaves k = Ok (path sha leaves k)
    \<and> verify_inclusion sha (leaves ! k) k (length leaves) (path sha leaves k) (mth sha leaves)"
  using compute_root_complete [of "length leaves" leaves k sha "[]" "[]"]
  by (auto simp: inclusion_proof_def verify_inclusion_def)

text \<open>The key of the log loads, or there is no readable key file yet.\<close>

definition log_key_ok :: "hex_codec \<Rightarrow> Disk \<Rightarrow> bool" where
  "log_key_ok H d \<longleftrightarrow> (\<forall>content. disk_read_to_string d log_key_path = Some content \<longrightarrow> is_ok (parse_identity H content))"

lemma log_identity_ok:
  assumes "layout_ok (w_disk w)" "log_key_ok H (w_disk w)"
  obtains l w' where "log_identity H w = Some (Ok l, w')" "identity_wf l" "layout_ok (w_disk w')"
    "\<And>q. q \<noteq> log_key_path \<Longrightarrow> disk_read (w_disk w') q = disk_read (w_disk w) q"
    "w' = w \<or> disk_read (w_disk w') log_key_path = Some (str_bytes (identity_text H l))"
proof (cases "disk_read_to_string (w_disk w) log_key_path")
  case (Some content)
  then obtain l where "parse_identity H content = Ok l" using assms(2) by (auto simp: log_key_ok_def is_ok_iff)
  moreover from this have "identity_wf l"
    by (auto simp: parse_identity_def hex32_def identity_wf_def Identity_from_secret_bytes_def Let_def split: if_splits)
  ultimately show ?thesis using that Some assms(1) by (simp add: log_identity_def act_res_def)
next
  case None
  let ?l = "fst (Identity_generate (w_rng w))"
  obtain d1 where d1: "disk_create_dir_all log_dir (w_disk w) = Ok d1" "layout_ok d1" "log_dir \<in> set (dk_dirs d1)"
    "\<And>q. disk_read d1 q = disk_read (w_disk w) q"
    using mkdir_in_layout [OF assms(1) layout_paths(9)] by blast
  have "butlast log_key_path = [] \<or> butlast log_key_path \<in> set (dk_dirs d1)" using d1(3) by (simp add: log_key_path_def)
  from write_in_layout [OF d1(2) layout_paths(6) this, of "str_bytes (identity_text H ?l)"]
  obtain d2 where "disk_write log_key_path (str_bytes (identity_text H ?l)) d1 = Ok d2" "layout_ok d2"
    "\<And>q. disk_read d2 q = (if q = log_key_path then Some (str_bytes (identity_text H ?l)) else disk_read d1 q)" by metis
  then show ?thesis
    using that [of ?l "w\<lparr>w_disk := d2, w_rng := snd (Identity_generate (w_rng w))\<rparr>"] None d1 identity_wf_generate [of "w_rng w"]
    by (simp add: log_identity_def act_defs case_prod_beta)
qed

lemma verify_ok:
  assumes "ed25519_laws C" "layout_ok (w_disk w)" "log_holds es (w_disk w)" "log_key_ok H (w_disk w)"
    and "read_drop H (w_disk w) i = Ok (sd, body)" "position (\<lambda>e. sha256 C e = as_bytes i) es = Some k"
  shows "\<exists>w'. Store_verify C H i w = Some (Ok \<lparr>vf_signature = is_ok (SignedDrop_verify C sd), vf_inclusion = True,
    vf_sth = True, vf_tree_size = length es, vf_leaf_index = k, vf_root = mth (sha256 C) (map (leaf_hash (sha256 C)) es),
    vf_sig_kind = sd_sig_kind sd\<rparr>, w')"
proof -
  let ?leaves = "map (leaf_hash (sha256 C)) es"
  have inc: "inclusion_proof (sha256 C) ?leaves k = Ok (path (sha256 C) ?leaves k)"
    "verify_inclusion (sha256 C) (?leaves ! k) k (length ?leaves) (path (sha256 C) ?leaves k) (mth (sha256 C) ?leaves)"
    using inclusion_verifies [of k ?leaves] position_Some [OF assms(6)] by simp_all
  obtain l w1 where l: "log_identity H w = Some (Ok l, w1)" "identity_wf l" using log_identity_ok [OF assms(2,4)] by blast
  obtain now w' where now: "now_unix w1 = Some (Ok now, w')" by (cases "w_clock w1") (simp_all add: now_unix_def)
  have "SignedTreeHead_verify C (SignedTreeHead_sign C l n r t) = Ok ()" for n r t
    by (rule SignedTreeHead_verify_sign) (use assms(1) l(2) in simp_all)
  then show ?thesis
    using assms(5,6) log_entries_hold [OF assms(3)] inc l(1) now position_Some [OF assms(6)]
    by (simp add: Store_verify_def act_defs Let_def)
qed

text \<open>
  C30. What \<open>verify\<close> reports. For a stored drop it finds the first log entry with the drop's hash,
  reports whether the signature is valid, and always reports inclusion and the freshly signed
  tree head as verified, over the root of the whole log; a drop the log does not contain is an
  error.
\<close>

theorem verify_reports:
  assumes "ed25519_laws C" and "layout_ok (w_disk w)" and "log_holds es (w_disk w)" and "log_key_ok H (w_disk w)"
    and "read_drop H (w_disk w) i = Ok (sd, body)"
  shows "if \<exists>e \<in> set es. sha256 C e = as_bytes i
    then \<exists>v w'. Store_verify C H i w = Some (Ok v, w')
      \<and> vf_signature v = is_ok (SignedDrop_verify C sd) \<and> vf_inclusion v \<and> vf_sth v
      \<and> vf_tree_size v = length es \<and> vf_root v = mth (sha256 C) (map (leaf_hash (sha256 C)) es)
      \<and> vf_leaf_index v < length es \<and> sha256 C (es ! vf_leaf_index v) = as_bytes i
      \<and> (\<forall>j < vf_leaf_index v. sha256 C (es ! j) \<noteq> as_bytes i)
    else Store_verify C H i w = Some (Err (StoreNotFound ''drop is not in the local log''), w)"
proof (cases "position (\<lambda>e. sha256 C e = as_bytes i) es")
  case None
  then have "\<not> (\<exists>e \<in> set es. sha256 C e = as_bytes i)" by (simp add: position_None)
  then show ?thesis
    using None assms(5) log_entries_hold [OF assms(3)] by (simp add: Store_verify_def act_defs Let_def)
next
  case (Some k)
  note k = position_Some [OF Some]
  moreover have "\<exists>e \<in> set es. sha256 C e = as_bytes i" using k by (metis nth_mem)
  ultimately show ?thesis using verify_ok [OF assms Some] by auto
qed

section \<open>Witnesses\<close>

text \<open>Primitives under which every nonce is a proof of work.\<close>

definition easy_crypto :: crypto where
  "easy_crypto = toy_crypto\<lparr>sha256 := \<lambda>_. replicate 32 0\<rparr>"

lemma easy_laws:
  "hkdf_laws easy_crypto" "aead_laws easy_crypto" "x25519_laws easy_crypto" "sha256_laws easy_crypto" "ed25519_laws easy_crypto"
  using toy_hkdf_laws toy_aead_laws toy_x25519_laws toy_ed25519_laws
  by (simp_all add: easy_crypto_def hkdf_laws_def aead_laws_def x25519_laws_def sha256_laws_def ed25519_laws_def)

lemma easy_pow: "pow_is_valid easy_crypto signer root nonce n"
proof -
  have "leading_zero_bits (replicate 32 0) = 256" by code_simp
  then show ?thesis by (simp add: pow_is_valid_def pow_digest_def POW_DIFFICULTY_BITS_def easy_crypto_def)
qed

definition demo_identity :: Identity where
  "demo_identity = \<lparr>signing = replicate 32 1, ecdh = replicate 32 2\<rparr>"

definition demo_contact :: Contact where
  "demo_contact = \<lparr>ct_name = ''me'', ct_signing = replicate 32 1, ct_ecdh = replicate 32 2, ct_hybrid = None\<rparr>"

definition demo_disk :: Disk where
  "demo_disk = \<lparr>dk_files = [(identity_path, str_bytes (identity_text hex_impl demo_identity)),
    (contacts_path, str_bytes (contacts_text hex_impl [demo_contact]))], dk_dirs = []\<rparr>"

lemma demo_contact_wf: "contact_wf demo_contact"
  by (simp add: contact_wf_def demo_contact_def ascii_ws_def two_ws_def str_ok_def str_bytes_def byte_of_def)

lemma demo_disk_ok:
  "layout_ok demo_disk" "log_holds [] demo_disk"
  "Store_identity hex_impl demo_disk = Ok demo_identity" "Store_contacts hex_impl demo_disk = Ok [demo_contact]"
proof -
  show "layout_ok demo_disk" using layout_paths(1,4) by (auto simp: layout_ok_def demo_disk_def disk_read_def split: if_splits)
  show "log_holds [] demo_disk"
    by (simp add: log_holds_def log_bytes_def demo_disk_def disk_read_def path_defs)
  have "identity_wf demo_identity" by (simp add: identity_wf_def demo_identity_def)
  from parse_identity_text [OF hex_impl_laws this] str_ok_identity_text [OF hex_impl_laws, of demo_identity]
  show "Store_identity hex_impl demo_disk = Ok demo_identity"
    by (simp add: Store_identity_def disk_read_to_string_def disk_read_def demo_disk_def str_ok_def)
  have wf: "\<forall>c \<in> set [demo_contact]. contact_wf c" using demo_contact_wf by simp
  from parse_contacts_text [OF hex_impl_laws wf] str_ok_contacts_text [OF hex_impl_laws wf]
  show "Store_contacts hex_impl demo_disk = Ok [demo_contact]"
    by (simp add: Store_contacts_def disk_read_to_string_def disk_read_def demo_disk_def str_ok_def path_defs)
qed

lemma demo_facts:
  shows "recipients_for (None \<noteq> (None :: HybridKeypair option)) [demo_contact] [''me''] = Ok [(replicate 32 2, None)]"
    and "addressed_to easy_crypto demo_identity None [(replicate 32 2, None)] (\<lambda>_. 0)"
    and "suite_laws easy_crypto demo_identity None" and "CellId_from_lat_lng toy_h3 4 2 9 = Ok (CellId True)"
    and "\<And>root nonce. \<exists>n. pow_is_valid easy_crypto (signing_public easy_crypto demo_identity) root nonce n"
proof -
  show "recipients_for (None \<noteq> (None :: HybridKeypair option)) [demo_contact] [''me''] = Ok [(replicate 32 2, None)]"
    by (simp add: demo_contact_def)
  have pub: "ecdh_public easy_crypto demo_identity = replicate 32 2"
    by (simp add: ecdh_public_def demo_identity_def easy_crypto_def toy_crypto_def pad_same)
  have "derive_tag easy_crypto (replicate 32 2) n = Ok (replicate 8 2)" for n
    by (simp add: derive_tag_def derive_key32_def expand_def KEY_LEN_def easy_crypto_def toy_crypto_def pad_same Let_def)
  moreover have "tag_unused k (replicate 8 2) (\<lambda>_. 0)" for k by (simp add: tag_unused_def map_replicate_const)
  ultimately show "addressed_to easy_crypto demo_identity None [(replicate 32 2, None)] (\<lambda>_. 0)"
    by (simp add: addressed_to_def pub)
  show "suite_laws easy_crypto demo_identity None"
    by (simp add: suite_laws_def easy_crypto_def toy_crypto_def)
  show "CellId_from_lat_lng toy_h3 4 2 9 = Ok (CellId True)" by (simp add: CellId_from_lat_lng_def toy_h3_def)
  show "\<exists>n. pow_is_valid easy_crypto (signing_public easy_crypto demo_identity) root nonce n" for root nonce
    using easy_pow by blast
qed

lemma classical_suite:
  "eq_ignore_ascii_case ''classical'' (if (None :: HybridKeypair option) = None then ''classical'' else ''hybrid'')"
  "(None :: HybridKeypair option) = None \<or> mldsa_usable C H d"
  by (simp_all add: eq_ignore_ascii_case_def)

theorem create_then_open_witness:
  "\<exists>created w'. create_drop easy_crypto hex_impl toy_h3 (\<lambda>xs r. (rev xs, r)) [''me''] 4 2 9 2 0 ''classical'' [1, 2, 3]
      \<lparr>w_disk = demo_disk, w_rng = \<lambda>_. 0, w_clock = [Some 100]\<rparr> = Some (Ok created, w')
    \<and> open_drop easy_crypto hex_impl (w_disk w') (cd_id created) = Ok [1, 2, 3]"
proof -
  let ?w = "\<lparr>w_disk = demo_disk, w_rng = \<lambda>_. 0, w_clock = [Some 100]\<rparr> :: World"
  have sh: "mset (fst ((\<lambda>xs r. (rev xs, r)) xs r)) = mset xs" for xs :: "WrappedKey list" and r :: rng by simp
  have size: "length [1 :: u8, 2, 3] \<le> u32_max * DEFAULT_CHUNK_SIZE" by (simp add: u32_max_def DEFAULT_CHUNK_SIZE_def)
  have "layout_ok (w_disk ?w)" "log_holds [] (w_disk ?w)" "Store_identity hex_impl (w_disk ?w) = Ok demo_identity"
    "Store_contacts hex_impl (w_disk ?w) = Ok [demo_contact]" "[''me''] \<noteq> []"
    and rng: "addressed_to easy_crypto demo_identity None [(replicate 32 2, None)] (w_rng ?w)"
    using demo_disk_ok demo_facts(2) by simp_all
  from create_then_open [where shuffle = "\<lambda>xs r. (rev xs, r)" and ring = 2 and ttl = 0,
      OF easy_laws toy_h3_laws sh this(1-5) demo_facts(1) rng demo_facts(3) classical_suite(2,1) demo_facts(4,5) size]
  show ?thesis using demo_disk_ok(3) by (auto simp: device_def)
qed

theorem verify_reports_witness:
  "\<exists>w i v w'. Store_verify toy_crypto hex_impl i w = Some (Ok v, w') \<and> vf_signature v \<and> vf_inclusion v \<and> vf_sth v
    \<and> vf_tree_size v = 1"
proof -
  let ?b = "\<lparr>db_version = 1, db_suite = 1, db_cell = [], db_ring = 1, db_created_at = 5, db_expiry = 0,
    db_mode = 0, db_chunk_size = 65536, db_chunk_count = 0, db_content_root = replicate 32 1,
    db_prefix = replicate 20 2, db_drop_nonce = replicate 16 3, db_pow_nonce = 7, db_wrapped_keys = []\<rparr> :: DropBody"
  let ?sd = "SignedDrop_sign toy_crypto demo_identity ?b"
  let ?i = "SignedDrop_id toy_crypto ?sd"
  have b: "body_wf ?b" by (simp add: body_wf_def str_ok_def str_bytes_def)
  have id: "identity_wf demo_identity" by (simp add: identity_wf_def demo_identity_def)
  have size: "length (DropBody_to_canonical ?b) \<le> 203" using body_size [OF b, of False] by simp
  then have "length (DropBody_to_canonical ?b) + 8192 \<le> usize_max" by (simp add: usize_max_def)
  note rb = classical_drop_reads_back [OF toy_ed25519_laws id b this]
  define d where "d = \<lparr>dk_files = [(drop_path hex_impl ?i, sd_raw ?sd), (entries_path, log_bytes [sd_raw ?sd])], dk_dirs = []\<rparr>"
  define w where "w = \<lparr>w_disk = d, w_rng = \<lambda>_. 0, w_clock = []\<rparr>"
  have p: "entries_path \<noteq> drop_path hex_impl ?i" "log_key_path \<noteq> drop_path hex_impl ?i" "log_key_path \<noteq> entries_path"
    by (simp_all add: path_defs log_key_path_def)
  have "length (sd_raw ?sd) \<le> u32_max" using rb(5) size by (simp add: u32_max_def)
  then have log: "log_holds [sd_raw ?sd] (w_disk w)"
    using p by (simp add: log_holds_def w_def d_def disk_read_def)
  have lay: "layout_ok (w_disk w)"
    using layout_paths(5) layout_paths(7) [of hex_impl ?i] by (auto simp: layout_ok_def w_def d_def disk_read_def split: if_splits)
  have key: "log_key_ok hex_impl (w_disk w)"
    using p by (simp add: log_key_ok_def w_def d_def disk_read_to_string_def disk_read_def)
  have rd: "read_drop hex_impl (w_disk w) ?i = Ok (?sd, ?b)"
    using rb(1,3) by (simp add: read_drop_def w_def d_def disk_read_def)
  have "sha256 toy_crypto (sd_raw ?sd) = as_bytes ?i" by (simp add: SignedDrop_id_def DropId_of_def)
  with verify_reports [OF toy_ed25519_laws lay log key rd] rb(2) show ?thesis by auto
qed

end
