(* ===== verification/Http.thy ===== *)
theory Http
  imports Text_Ops
begin

text \<open>
  The HTTP/1.1 reader and writer of \<open>crates/daemon/src/main.rs\<close>: reading a request from a
  socket in pieces, splitting its head, decoding the query, and writing a response. A socket
  is the list of the outcomes of its reads: some bytes, no bytes at the end of the stream (as
  the end of the list), or \<open>None\<close> for an I/O error. What a read returns is at most 4096 bytes
  long in the source; no theorem needs the bound. Reading shows that the result does not
  depend on the pieces, and decoding the query undoes every percent encoding.
\<close>

section \<open>More operations on strings\<close>

text \<open>
  \<open>String::from_utf8_lossy\<close>: \<open>utf8_unit\<close> is the length of the next unit and whether it is a
  character; a broken one (of one to three bytes) becomes U+FFFD.
\<close>

definition byte_at :: "bytes \<Rightarrow> nat \<Rightarrow> u8" where
  "byte_at bs n = (if n < length bs then bs ! n else 0)"

definition utf8_second :: "u8 \<Rightarrow> u8 \<Rightarrow> bool" where
  "utf8_second a b \<longleftrightarrow>
    (if a = 0xE0 then 0xA0 \<le> b \<and> b \<le> 0xBF
     else if a = 0xED then 0x80 \<le> b \<and> b \<le> 0x9F
     else if a = 0xF0 then 0x90 \<le> b \<and> b \<le> 0xBF
     else if a = 0xF4 then 0x80 \<le> b \<and> b \<le> 0x8F else utf8_cont b)"

definition utf8_unit :: "u8 \<Rightarrow> bytes \<Rightarrow> nat \<times> bool" where
  "utf8_unit a bs =
    (if a \<le> 0x7F then (1, True)
     else if 0xC2 \<le> a \<and> a \<le> 0xDF then
       (if utf8_cont (byte_at bs 0) then (2, True) else (1, False))
     else if 0xE0 \<le> a \<and> a \<le> 0xEF then
       (if utf8_second a (byte_at bs 0)
        then if utf8_cont (byte_at bs 1) then (3, True) else (2, False)
        else (1, False))
     else if 0xF0 \<le> a \<and> a \<le> 0xF4 then
       (if utf8_second a (byte_at bs 0)
        then if utf8_cont (byte_at bs 1)
          then if utf8_cont (byte_at bs 2) then (4, True) else (3, False)
          else (2, False)
        else (1, False))
     else (1, False))"

lemma utf8_unit_pos: "1 \<le> fst (utf8_unit a bs)"
  by (simp add: utf8_unit_def)

function utf8_lossy :: "bytes \<Rightarrow> bytes" where
  "utf8_lossy [] = []"
| "utf8_lossy (a # bs) =
    (let (n, valid) = utf8_unit a bs in
     (if valid then take n (a # bs) else [0xEF, 0xBF, 0xBD]) @ utf8_lossy (drop n (a # bs)))"
  by pat_completeness auto

termination
proof (relation "measure length")
  fix a bs x n valid assume "x = utf8_unit a bs" "(n, valid) = x"
  then have "1 \<le> n" using utf8_unit_pos [of a bs] by (metis fst_conv)
  then show "(drop n (a # bs), a # bs) \<in> measure length" by simp
qed simp

definition from_utf8_lossy :: "bytes \<Rightarrow> string" where
  "from_utf8_lossy bs = bytes_str (utf8_lossy bs)"

text \<open>\<open>split_once\<close> and \<open>split\<close> at a character, \<open>split("\r\n")\<close>.\<close>

definition split_once :: "char \<Rightarrow> string \<Rightarrow> (string \<times> string) option" where
  "split_once c s =
    (if c \<in> set s then Some (takeWhile (\<lambda>x. x \<noteq> c) s, tl (dropWhile (\<lambda>x. x \<noteq> c) s)) else None)"

fun split_at_char :: "char \<Rightarrow> string \<Rightarrow> string \<Rightarrow> string list" where
  "split_at_char c piece [] = [piece]"
| "split_at_char c piece (x # s) =
    (if x = c then piece # split_at_char c [] s else split_at_char c (piece @ [x]) s)"

fun split_crlf :: "string \<Rightarrow> string \<Rightarrow> string list" where
  "split_crlf piece [] = [piece]"
| "split_crlf piece [x] = [piece @ [x]]"
| "split_crlf piece (x # y # s) =
    (if x = CHR 0x0D \<and> y = CHR 0x0A then piece # split_crlf [] s else split_crlf (piece @ [x]) (y # s))"

definition to_ascii_lowercase :: "string \<Rightarrow> string" where
  "to_ascii_lowercase s = map (\<lambda>c. char_of (ascii_lower c)) s"

text \<open>
  \<open>from_str_radix\<close> and \<open>parse\<close> of an unsigned integer type with largest value \<open>bound\<close>: an
  optional plus sign and at least one digit.
\<close>

fun digits_value :: "nat \<Rightarrow> nat \<Rightarrow> string \<Rightarrow> nat option" where
  "digits_value radix v [] = Some v"
| "digits_value radix v (c # s) =
    (case hex_value c of
       Some d \<Rightarrow> if d < radix then digits_value radix (radix * v + d) s else None
     | None \<Rightarrow> None)"

definition from_str_radix :: "nat \<Rightarrow> nat \<Rightarrow> string \<Rightarrow> nat option" where
  "from_str_radix radix bound s =
    (let digits = (if s \<noteq> [] \<and> hd s = CHR ''+'' then tl s else s) in
     if digits = [] then None
     else (case digits_value radix 0 digits of
         Some v \<Rightarrow> if v \<le> bound then Some v else None
       | None \<Rightarrow> None))"

definition parse_usize :: "string \<Rightarrow> nat option" where
  "parse_usize s = from_str_radix 10 usize_max s"

section \<open>Requests\<close>

definition MAX_REQUEST :: nat where "MAX_REQUEST = 8 * 1024 * 1024"

record Request =
  rq_method :: string
  rq_path :: string
  rq_query :: "(string \<times> string) list"
  rq_headers :: "(string \<times> string) list"
  rq_body :: bytes

datatype http_error = EmptyRequest | RequestTooLarge | ReadFailed

type_synonym socket = "bytes option list"

definition windows :: "nat \<Rightarrow> 'a list \<Rightarrow> 'a list list" where
  "windows n xs = map (\<lambda>i. take n (drop i xs)) [0..<Suc (length xs) - n]"

definition find_bytes :: "bytes \<Rightarrow> bytes \<Rightarrow> nat option" where
  "find_bytes haystack needle = position (\<lambda>window. window = needle) (windows (length needle) haystack)"

definition header_terminator :: bytes where "header_terminator = [0x0D, 0x0A, 0x0D, 0x0A]"

text \<open>The first loop of \<open>read_request\<close>.\<close>

fun read_header :: "bytes \<Rightarrow> socket \<Rightarrow> (bytes \<times> nat \<times> socket, http_error) res" where
  "read_header buffer [] = Err EmptyRequest"
| "read_header buffer (None # sock) = Err ReadFailed"
| "read_header buffer (Some chunk # sock) =
    (if chunk = [] then Err EmptyRequest
     else let buffer = buffer @ chunk in
       if length buffer > MAX_REQUEST then Err RequestTooLarge
       else (case find_bytes buffer header_terminator of
           Some at \<Rightarrow> Ok (buffer, at + 4, sock)
         | None \<Rightarrow> read_header buffer sock))"

text \<open>Its second loop, and the truncation that follows.\<close>

fun read_body :: "nat \<Rightarrow> bytes \<Rightarrow> socket \<Rightarrow> (bytes, http_error) res" where
  "read_body content_length body [] = Ok (take content_length body)"
| "read_body content_length body (r # sock) =
    (if length body < content_length
     then (case r of
         None \<Rightarrow> Err ReadFailed
       | Some chunk \<Rightarrow>
           if chunk = [] then Ok (take content_length body)
           else read_body content_length (body @ chunk) sock)
     else Ok (take content_length body))"

text \<open>
  \<open>percent_decode\<close>: the slice of the two bytes after a percent sign panics when a character
  reaches across its end.
\<close>

fun percent_bytes :: "string \<Rightarrow> (bytes, http_error) res" where
  "percent_bytes [] = Ok []"
| "percent_bytes (c # s) =
    (let keep = and_then (percent_bytes s) (\<lambda>out. Ok (byte_of (if c = CHR ''+'' then CHR '' '' else c) # out)) in
     if c = CHR ''%'' \<and> 2 \<le> length s then
       if 2 < length s \<and> utf8_cont (byte_of (s ! 2)) then Panic
       else (case from_str_radix 16 255 (take 2 s) of
           Some v \<Rightarrow> and_then (percent_bytes (drop 2 s)) (\<lambda>out. Ok (of_nat v # out))
         | None \<Rightarrow> keep)
     else keep)"

definition percent_decode :: "string \<Rightarrow> (string, http_error) res" where
  "percent_decode input = and_then (percent_bytes input) (\<lambda>out. Ok (from_utf8_lossy out))"

definition parse_pair :: "string \<Rightarrow> (string \<times> string, http_error) res" where
  "parse_pair pair =
    (case split_once (CHR ''='') pair of
       Some (key, val) \<Rightarrow>
         and_then (percent_decode key) (\<lambda>k. and_then (percent_decode val) (\<lambda>v. Ok (k, v)))
     | None \<Rightarrow> and_then (percent_decode pair) (\<lambda>k. Ok (k, [])))"

definition parse_query :: "string \<Rightarrow> ((string \<times> string) list, http_error) res" where
  "parse_query query = collect_res parse_pair (filter (\<lambda>pair. pair \<noteq> []) (split_at_char (CHR ''&'') [] query))"

definition split_target :: "string \<Rightarrow> (string \<times> (string \<times> string) list, http_error) res" where
  "split_target target =
    (case split_once (CHR ''?'') target of
       Some (path, query) \<Rightarrow> and_then (parse_query query) (\<lambda>q. Ok (path, q))
     | None \<Rightarrow> Ok (target, []))"

text \<open>What \<open>read_request\<close> takes from the head: method, target, content length and headers.\<close>

definition parse_head :: "bytes \<Rightarrow> string \<times> string \<times> nat \<times> (string \<times> string) list" where
  "parse_head header =
    (let rows = split_crlf [] (from_utf8_lossy header);
         parts = split_whitespace (hd rows);
         fields = List.map_filter (split_once (CHR '':'')) (tl rows);
         content_length =
           (case find (\<lambda>(name, _). eq_ignore_ascii_case name ''content-length'') fields of
              Some (_, val) \<Rightarrow> unwrap_or 0 (parse_usize (trim val))
            | None \<Rightarrow> 0)
     in (nth_or_default parts 0, if 1 < length parts then parts ! 1 else ''/'', content_length,
         map (\<lambda>(name, val). (to_ascii_lowercase (trim name), trim val)) fields))"

definition read_request :: "socket \<Rightarrow> (Request, http_error) res" where
  "read_request sock =
    and_then (read_header [] sock) (\<lambda>(buffer, header_end, sock).
    let (method, target, content_length, headers) = parse_head (take header_end buffer) in
    and_then (split_target target) (\<lambda>(path, query).
    and_then (read_body content_length (drop header_end buffer) sock) (\<lambda>body.
    Ok \<lparr>rq_method = method, rq_path = path, rq_query = query, rq_headers = headers, rq_body = body\<rparr>)))"

definition query_param :: "(string \<times> string) list \<Rightarrow> string \<Rightarrow> string option" where
  "query_param query key = map_option snd (find (\<lambda>(k, _). k = key) query)"

section \<open>Responses\<close>

definition status_reason :: "u16 \<Rightarrow> string" where
  "status_reason status =
    (if status = 200 then ''OK'' else if status = 201 then ''Created'' else if status = 400 then ''Bad Request''
     else if status = 401 then ''Unauthorized'' else if status = 404 then ''Not Found''
     else if status = 500 then ''Internal Server Error'' else ''OK'')"

definition crlf :: string where "crlf = [CHR 0x0D, CHR 0x0A]"

definition http_respond :: "u16 \<Rightarrow> string \<Rightarrow> bytes \<Rightarrow> bytes" where
  "http_respond status content_type body =
    str_bytes (''HTTP/1.1 '' @ decimal (unat status) @ '' '' @ status_reason status @ crlf
      @ ''Content-Type: '' @ content_type @ crlf
      @ ''Content-Length: '' @ decimal (length body) @ crlf
      @ ''Connection: close'' @ crlf
      @ ''Access-Control-Allow-Origin: *'' @ crlf
      @ ''Access-Control-Allow-Headers: content-type, authorization'' @ crlf
      @ ''Access-Control-Allow-Methods: GET, POST, OPTIONS'' @ crlf @ crlf) @ body"

section \<open>Lossy decoding keeps valid text\<close>

lemma utf8_cont_bounds: "utf8_cont 0 \<longleftrightarrow> False" "utf8_second a 0 \<longleftrightarrow> False"
  by (auto simp: utf8_cont_def utf8_second_def)

lemma byte_at_simps [simp]: "byte_at [] n = 0" "byte_at (b # bs) 0 = b" "byte_at (b # bs) (Suc n) = byte_at bs n"
  by (simp_all add: byte_at_def)

lemma utf8_valid_unit:
  assumes "utf8_valid (a # bs)"
  shows "snd (utf8_unit a bs) \<and> utf8_valid (drop (fst (utf8_unit a bs)) (a # bs))"
proof -
  consider "a \<le> 0x7F" | "\<not> a \<le> 0x7F" "0xC2 \<le> a \<and> a \<le> 0xDF"
    | "\<not> a \<le> 0x7F" "\<not> (0xC2 \<le> a \<and> a \<le> 0xDF)" "0xE0 \<le> a \<and> a \<le> 0xEF"
    | "\<not> a \<le> 0x7F" "\<not> (0xC2 \<le> a \<and> a \<le> 0xDF)" "\<not> (0xE0 \<le> a \<and> a \<le> 0xEF)" "0xF0 \<le> a \<and> a \<le> 0xF4"
    using assms by (auto split: if_splits)
  then show ?thesis
  proof cases
    case 1
    then show ?thesis using assms by (simp add: utf8_unit_def)
  next
    case 2
    with assms show ?thesis by (cases bs) (auto simp: utf8_unit_def)
  next
    case 3
    then obtain x y r where bs: "bs = x # y # r" using assms by (auto split: list.splits)
    have "a \<noteq> 0xF0" "a \<noteq> 0xF4" using 3(3) by auto
    then show ?thesis using 3 assms
      by (simp del: utf8_valid.simps add: utf8_valid.simps(2) [of a] utf8_unit_def utf8_second_def bs if_not_P [OF 3(2)])
  next
    case 4
    then obtain x y z r where bs: "bs = x # y # z # r" using assms by (auto split: list.splits)
    have "a \<noteq> 0xE0" "a \<noteq> 0xED" using 4(4) by auto
    then show ?thesis using 4 assms
      by (simp del: utf8_valid.simps add: utf8_valid.simps(2) [of a] utf8_unit_def utf8_second_def bs
          if_not_P [OF 4(2)] if_not_P [OF 4(3)] numeral_2_eq_2)
  qed
qed

lemma utf8_lossy_valid: "utf8_valid bs \<Longrightarrow> utf8_lossy bs = bs"
proof (induction bs rule: utf8_lossy.induct)
  case (2 a bs)
  from utf8_valid_unit [OF 2(2)] 2(1) [OF refl surjective_pairing [symmetric]] show ?case
    by (simp add: case_prod_beta del: utf8_valid.simps)
qed simp

lemma from_utf8_lossy_str_bytes: "str_ok s \<Longrightarrow> from_utf8_lossy (str_bytes s) = s"
  by (simp add: from_utf8_lossy_def utf8_lossy_valid str_ok_def)

section \<open>Requests do not depend on the pieces they arrive in\<close>

lemma windows_append:
  assumes "n \<le> length a"
  shows "\<exists>rest. windows n (a @ b) = windows n a @ rest"
proof -
  have "Suc (length a) - n \<le> Suc (length (a @ b)) - n" by simp
  then have "[0..<Suc (length (a @ b)) - n] = [0..<Suc (length a) - n] @ [Suc (length a) - n..<Suc (length (a @ b)) - n]"
    by (metis le0 le_add_diff_inverse upt_add_eq_append)
  then show ?thesis unfolding windows_def using assms by auto
qed

lemma position_append: "position P xs = Some k \<Longrightarrow> position P (xs @ ys) = Some k"
  by (induction xs arbitrary: k) (auto split: if_splits)

lemma find_bytes_bound: "find_bytes h n = Some p \<Longrightarrow> n \<noteq> [] \<Longrightarrow> p + length n \<le> length h"
  using position_Some unfolding find_bytes_def windows_def by fastforce

lemma find_bytes_append:
  assumes "find_bytes a n = Some p" "n \<noteq> []"
  shows "find_bytes (a @ b) n = Some p"
proof -
  have "length n \<le> length a" using find_bytes_bound [OF assms] by simp
  from windows_append [OF this, of b] show ?thesis
    using assms position_append unfolding find_bytes_def by metis
qed

lemma terminator_not_Nil [simp]: "header_terminator \<noteq> []" "length header_terminator = 4"
  by (simp_all add: header_terminator_def)

lemma read_header_pieces:
  assumes "\<forall>c \<in> set chunks. c \<noteq> []" "length (buffer @ concat chunks) \<le> MAX_REQUEST"
    and "find_bytes buffer header_terminator = None"
    and "find_bytes (buffer @ concat chunks) header_terminator = Some p"
  shows "\<exists>got more. chunks = got @ more \<and> p + 4 \<le> length (buffer @ concat got)
    \<and> read_header buffer (map Some chunks @ sock) = Ok (buffer @ concat got, p + 4, map Some more @ sock)"
  using assms
proof (induction chunks arbitrary: buffer)
  case (Cons c chunks)
  show ?case
  proof (cases "find_bytes (buffer @ c) header_terminator")
    case None
    then obtain got more where "chunks = got @ more" "p + 4 \<le> length ((buffer @ c) @ concat got)"
      "read_header (buffer @ c) (map Some chunks @ sock) = Ok ((buffer @ c) @ concat got, p + 4, map Some more @ sock)"
      using Cons.IH [of "buffer @ c"] Cons.prems by auto
    then show ?thesis using Cons.prems None by (intro exI [of _ "c # got"] exI [of _ more]) (simp add: Let_def)
  next
    case (Some q)
    then have "q = p" using find_bytes_append [OF Some, of "concat chunks"] Cons.prems by simp
    then show ?thesis using Some Cons.prems find_bytes_bound [OF Some]
      by (intro exI [of _ "[c]"] exI [of _ chunks]) (simp add: Let_def)
  qed
qed simp

lemma read_header_endless:
  assumes "\<forall>c \<in> set chunks. c \<noteq> []" "length (buffer @ concat chunks) \<le> MAX_REQUEST"
    and "find_bytes (buffer @ concat chunks) header_terminator = None"
  shows "read_header buffer (map Some chunks) = Err EmptyRequest"
  using assms
proof (induction chunks arbitrary: buffer)
  case (Cons c chunks)
  have "find_bytes (buffer @ c) header_terminator = None"
    using Cons.prems(3) find_bytes_append [of "buffer @ c" header_terminator _ "concat chunks"]
    by (cases "find_bytes (buffer @ c) header_terminator") auto
  then show ?case using Cons.IH [of "buffer @ c"] Cons.prems by (simp add: Let_def)
qed simp

lemma read_body_pieces:
  assumes "\<forall>c \<in> set chunks. c \<noteq> []" "sock = [] \<or> n \<le> length (body @ concat chunks)"
  shows "read_body n body (map Some chunks @ sock) = Ok (take n (body @ concat chunks))"
  using assms
proof (induction chunks arbitrary: body)
  case Nil
  then show ?case by (cases sock) auto
next
  case (Cons c chunks)
  then show ?case using Cons.IH [of "body @ c"] by simp
qed

text \<open>The request that a byte string with a complete head holds.\<close>

definition whole_request :: "bytes \<Rightarrow> nat \<Rightarrow> (Request, http_error) res" where
  "whole_request bs header_end =
    (let (method, target, content_length, headers) = parse_head (take header_end bs) in
     and_then (split_target target) (\<lambda>(path, query).
     Ok \<lparr>rq_method = method, rq_path = path, rq_query = query, rq_headers = headers,
       rq_body = take content_length (drop header_end bs)\<rparr>))"

definition announced_length :: "bytes \<Rightarrow> nat" where
  "announced_length header = fst (snd (snd (parse_head header)))"

text \<open>
  C39. A request is read the same way however it is cut into pieces. As long as no more than
  \<open>MAX_REQUEST\<close> bytes have arrived, the request is the one of the bytes put together,
  with the head up to the first empty line and as much of the body as the head announces,
  whether the client then closes the connection or, when the body is complete, leaves it
  open. A connection that closes before the empty line is an error.
\<close>

theorem read_request_pieces:
  assumes "\<forall>c \<in> set chunks. c \<noteq> []" and "length (concat chunks) \<le> MAX_REQUEST"
  shows "case find_bytes (concat chunks) header_terminator of
      None \<Rightarrow> read_request (map Some chunks) = Err EmptyRequest
    | Some p \<Rightarrow>
        (sock = [] \<or> announced_length (take (p + 4) (concat chunks)) \<le> length (drop (p + 4) (concat chunks)))
        \<longrightarrow> read_request (map Some chunks @ sock) = whole_request (concat chunks) (p + 4)"
proof (cases "find_bytes (concat chunks) header_terminator")
  case None
  then show ?thesis using read_header_endless [of chunks "[]"] assms by (simp add: read_request_def)
next
  case (Some p)
  have "find_bytes [] header_terminator = None"
    by (simp add: find_bytes_def windows_def header_terminator_def)
  with read_header_pieces [of chunks "[]" p sock] assms Some obtain got more where
    *: "chunks = got @ more" "p + 4 \<le> length (concat got)"
       "read_header [] (map Some chunks @ sock) = Ok (concat got, p + 4, map Some more @ sock)"
    by auto
  have "read_body n (drop (p + 4) (concat got)) (map Some more @ sock) = Ok (take n (drop (p + 4) (concat chunks)))"
    if "sock = [] \<or> n \<le> length (drop (p + 4) (concat chunks))" for n
    using read_body_pieces [of more sock n "drop (p + 4) (concat got)"] that assms * by simp
  then show ?thesis
    using * Some by (auto simp: read_request_def whole_request_def announced_length_def case_prod_beta Let_def)
qed

section \<open>Decimal numbers read back\<close>

lemma hex_value_digit: "d < 10 \<Longrightarrow> hex_value (digit_char d) = Some d"
  by (simp add: hex_value_def of_digit_char Let_def)

lemma digits_value_snoc:
  "digits_value radix v (s @ [c]) = Option.bind (digits_value radix v s) (\<lambda>x. digits_value radix x [c])"
  by (induction s arbitrary: v) (auto split: option.splits)

lemma digits_value_decimal: "digits_value 10 0 (decimal n) = Some n"
proof (induction n rule: decimal.induct)
  case (1 n)
  then show ?case by (subst decimal.simps) (simp add: digits_value_snoc hex_value_digit)
qed

lemma decimal_chars: "c \<in> set (decimal n) \<Longrightarrow> 48 \<le> (of_char c :: nat) \<and> (of_char c :: nat) < 58"
proof (induction n rule: decimal.induct)
  case (1 n)
  then show ?case using of_digit_char [of n] of_digit_char [of "n mod 10"]
    by (subst (asm) decimal.simps) (auto split: if_splits)
qed

lemma decimal_not_Nil [simp]: "decimal n \<noteq> []"
  by (subst decimal.simps) simp

lemma decimal_no_whitespace: "\<not> contains_whitespace (decimal n)"
  using decimal_chars by (intro ascii_no_whitespace) fastforce

lemma from_str_radix_decimal: "n \<le> bound \<Longrightarrow> from_str_radix 10 bound (decimal n) = Some n"
proof -
  have "hd (decimal n) \<noteq> CHR ''+''" using decimal_chars [of "hd (decimal n)" n] by auto
  then show "n \<le> bound \<Longrightarrow> ?thesis" by (simp add: from_str_radix_def digits_value_decimal)
qed

section \<open>Percent decoding\<close>

text \<open>
  An encoder may leave any characters as they are, except the ones that mean something in a
  query; the others become a percent sign and two hexadecimal digits.
\<close>

definition query_safe :: "(char \<Rightarrow> bool) \<Rightarrow> bool" where
  "query_safe keep \<longleftrightarrow> (\<forall>c. keep c \<longrightarrow> of_char c < (0x80 :: nat) \<and> c \<notin> set ''%+&='')"

definition percent_encode :: "(char \<Rightarrow> bool) \<Rightarrow> string \<Rightarrow> string" where
  "percent_encode keep s = concat (map (\<lambda>c. if keep c then [c]
     else [CHR ''%'', hex_char (of_char c div 16), hex_char (of_char c mod 16)]) s)"

definition encode_pair :: "(char \<Rightarrow> bool) \<Rightarrow> string \<times> string \<Rightarrow> string" where
  "encode_pair keep kv = percent_encode keep (fst kv) @ CHR ''='' # percent_encode keep (snd kv)"

fun join_with :: "char \<Rightarrow> string list \<Rightarrow> string" where
  "join_with c [] = []"
| "join_with c [s] = s"
| "join_with c (s # t # rest) = s @ c # join_with c (t # rest)"

definition encode_query :: "(char \<Rightarrow> bool) \<Rightarrow> (string \<times> string) list \<Rightarrow> string" where
  "encode_query keep kvs = join_with (CHR ''&'') (map (encode_pair keep) kvs)"

lemma nibbles: "(of_char c :: nat) div 16 < 16" "(of_char c :: nat) mod 16 < 16"
  by (simp_all add: less_mult_imp_div_less)

lemma hex_char_plain: "n < 16 \<Longrightarrow> hex_char n \<notin> set ''%+&='' \<and> of_char (hex_char n) < (0x80 :: nat)"
proof -
  have "\<forall>n \<in> set [0..<16]. hex_char n \<notin> set ''%+&='' \<and> of_char (hex_char n) < (0x80 :: nat)" by code_simp
  then show "n < 16 \<Longrightarrow> ?thesis" by simp
qed

lemma from_str_radix_pair: "from_str_radix 16 255 [hex_char (of_char c div 16), hex_char (of_char c mod 16)] = Some (of_char c)"
proof -
  have "hex_char (of_char c div 16) \<noteq> CHR ''+''" using hex_char_plain [OF nibbles(1) [of c]] by auto
  moreover have "(of_char c :: nat) \<le> 255" using nat_of_char_less_256 [of c] by linarith
  ultimately show ?thesis using nibbles [of c] by (simp add: from_str_radix_def)
qed

lemma percent_encode_Cons:
  "percent_encode keep (c # s) = (if keep c then [c]
     else [CHR ''%'', hex_char (of_char c div 16), hex_char (of_char c mod 16)]) @ percent_encode keep s"
  by (simp add: percent_encode_def)

lemma percent_encode_ascii:
  assumes "query_safe keep" "x \<in> set (percent_encode keep s)"
  shows "of_char x < (0x80 :: nat) \<and> x \<notin> set ''+&=''"
  using assms(2)
proof (induction s)
  case (Cons c s)
  then show ?case
    using assms(1) hex_char_plain [OF nibbles(1) [of c]] hex_char_plain [OF nibbles(2) [of c]]
    by (auto simp: percent_encode_Cons query_safe_def split: if_splits)
qed (simp add: percent_encode_def)

lemma ascii_not_cont: "of_char c < (0x80 :: nat) \<Longrightarrow> \<not> utf8_cont (byte_of c)"
  by (simp add: utf8_cont_def byte_of_def word_le_nat_alt unat_of_nat)

lemma percent_bytes_encode:
  assumes "query_safe keep"
  shows "percent_bytes (percent_encode keep s) = Ok (str_bytes s)"
proof (induction s)
  case (Cons c s)
  have ascii: "\<not> utf8_cont (byte_of (percent_encode keep s ! 0))" if "percent_encode keep s \<noteq> []"
    using that percent_encode_ascii [OF assms, of "percent_encode keep s ! 0" s] ascii_not_cont by simp
  show ?case
  proof (cases "keep c")
    case True
    then have "c \<noteq> CHR ''%''" "c \<noteq> CHR ''+''" using assms by (auto simp: query_safe_def)
    then show ?thesis using True Cons by (simp add: percent_encode_Cons str_bytes_def)
  next
    case False
    then show ?thesis using Cons ascii from_str_radix_pair [of c]
      by (cases "percent_encode keep s = []")
        (simp_all add: percent_encode_Cons str_bytes_def numeral_2_eq_2 byte_of_def)
  qed
qed (simp add: percent_encode_def str_bytes_def)

lemma percent_decode_encode:
  "query_safe keep \<Longrightarrow> str_ok s \<Longrightarrow> percent_decode (percent_encode keep s) = Ok s"
  by (simp add: percent_decode_def percent_bytes_encode from_utf8_lossy_str_bytes)

lemma split_at_char_none: "c \<notin> set s \<Longrightarrow> split_at_char c acc s = [acc @ s]"
  by (induction s arbitrary: acc) auto

lemma split_at_char_first:
  "c \<notin> set s \<Longrightarrow> split_at_char c acc (s @ c # rest) = (acc @ s) # split_at_char c [] rest"
  by (induction s arbitrary: acc) auto

lemma split_once_first: "c \<notin> set s \<Longrightarrow> split_once c (s @ c # rest) = Some (s, rest)"
proof -
  assume "c \<notin> set s"
  then have "\<forall>x \<in> set s. x \<noteq> c" by auto
  then show ?thesis by (simp add: split_once_def takeWhile_append2 dropWhile_append2)
qed

lemma split_join:
  "xs \<noteq> [] \<Longrightarrow> \<forall>s \<in> set xs. c \<notin> set s \<Longrightarrow> split_at_char c [] (join_with c xs) = xs"
  by (induction xs rule: join_with.induct [of _ c]) (simp_all add: split_at_char_none split_at_char_first)

lemma parse_pair_encode:
  assumes "query_safe keep" "str_ok (fst kv)" "str_ok (snd kv)"
  shows "parse_pair (encode_pair keep kv) = Ok kv"
proof -
  have "CHR ''='' \<notin> set (percent_encode keep (fst kv))" using percent_encode_ascii [OF assms(1)] by fastforce
  then show ?thesis using assms by (simp add: parse_pair_def encode_pair_def split_once_first percent_decode_encode)
qed

lemma encode_pair_plain: "query_safe keep \<Longrightarrow> CHR ''&'' \<notin> set (encode_pair keep kv) \<and> encode_pair keep kv \<noteq> []"
  using percent_encode_ascii unfolding encode_pair_def by fastforce

lemma parse_query_encode:
  assumes "query_safe keep" "\<forall>(k, v) \<in> set kvs. str_ok k \<and> str_ok v"
  shows "parse_query (encode_query keep kvs) = Ok kvs"
proof (cases "kvs = []")
  case False
  then have "split_at_char (CHR ''&'') [] (encode_query keep kvs) = map (encode_pair keep) kvs"
    using encode_pair_plain [OF assms(1)] by (simp add: encode_query_def split_join)
  moreover have "filter (\<lambda>pair. pair \<noteq> []) (map (encode_pair keep) kvs) = map (encode_pair keep) kvs"
    using encode_pair_plain [OF assms(1)] by (simp add: filter_id_conv)
  moreover have "parse_pair (encode_pair keep kv) = Ok kv" if "kv \<in> set kvs" for kv
    using assms(2) that parse_pair_encode [OF assms(1), of kv] by (cases kv) auto
  then have "collect_res parse_pair (map (encode_pair keep) kvs) = Ok kvs" by (simp add: collect_res_Ok_iff)
  ultimately show ?thesis by (simp add: parse_query_def)
qed (simp add: parse_query_def encode_query_def)

text \<open>Where \<open>percent_decode\<close> panics: every percent sign is looked at, as no escape hides another.\<close>

definition cut_escape :: "string \<Rightarrow> nat \<Rightarrow> bool" where
  "cut_escape s i \<longleftrightarrow> i + 3 < length s \<and> s ! i = CHR ''%'' \<and> utf8_cont (byte_of (s ! (i + 3)))"

lemma from_str_radix_no_percent:
  assumes "from_str_radix 16 255 [a, b] = Some v"
  shows "a \<noteq> CHR ''%'' \<and> b \<noteq> CHR ''%''"
proof -
  have "hex_value (CHR ''%'') = None" by code_simp
  then show ?thesis using assms by (auto simp: from_str_radix_def split: if_splits option.splits)
qed

lemma cut_escape_Cons: "cut_escape (c # s) (Suc i) \<longleftrightarrow> cut_escape s i"
  by (simp add: cut_escape_def add.commute)

lemma ex_cut_escape_Cons:
  "(\<exists>i. cut_escape (c # s) i) \<longleftrightarrow> cut_escape (c # s) 0 \<or> (\<exists>i. cut_escape s i)"
  by (metis cut_escape_Cons not0_implies_Suc)

lemma ex_cut_escape_skip: "c \<noteq> CHR ''%'' \<Longrightarrow> (\<exists>i. cut_escape (c # s) i) \<longleftrightarrow> (\<exists>i. cut_escape s i)"
  using cut_escape_def [of "c # s" 0] by (simp add: ex_cut_escape_Cons)

lemma percent_bytes_panics: "percent_bytes s = Panic \<longleftrightarrow> (\<exists>i. cut_escape s i)"
proof (induction s rule: percent_bytes.induct)
  case 1
  then show ?case by (simp add: cut_escape_def)
next
  case (2 c s)
  show ?case
  proof (cases "c = CHR ''%'' \<and> 2 \<le> length s")
    case False
    then have "\<not> cut_escape (c # s) 0" by (auto simp: cut_escape_def)
    then show ?thesis using False 2(1) by (auto simp: ex_cut_escape_Cons Let_def and_then_eq_Panic)
  next
    case True
    then obtain a b r where s: "s = a # b # r" by (cases s; cases "tl s") auto
    have 0: "cut_escape (c # s) 0 \<longleftrightarrow> 2 < length s \<and> utf8_cont (byte_of (s ! 2))"
      using True by (simp add: cut_escape_def numeral_eq_Suc)
    show ?thesis
    proof (cases "cut_escape (c # s) 0")
      case True
      then show ?thesis using 0 \<open>c = CHR ''%'' \<and> 2 \<le> length s\<close> by (auto simp: Let_def)
    next
      case no: False
      show ?thesis
      proof (cases "from_str_radix 16 255 (take 2 s)")
        case None
        then show ?thesis using no 0 True 2(1) unfolding ex_cut_escape_Cons
          by (auto simp: Let_def and_then_eq_Panic)
      next
        case (Some v)
        then have "a \<noteq> CHR ''%''" "b \<noteq> CHR ''%''" using from_str_radix_no_percent [of a b v] by (simp_all add: s)
        then have "(\<exists>i. cut_escape s i) \<longleftrightarrow> (\<exists>i. cut_escape r i)" by (simp add: s ex_cut_escape_skip)
        moreover have "percent_bytes r = Panic \<longleftrightarrow> (\<exists>i. cut_escape r i)"
          using 2(2) [OF refl] True no 0 Some by (simp add: s)
        ultimately show ?thesis using no 0 True Some unfolding ex_cut_escape_Cons
          by (auto simp: Let_def and_then_eq_Panic s)
      qed
    qed
  qed
qed

text \<open>
  C40. Decoding a query undoes every percent encoding of it, whichever characters the client
  chose to escape, and recovers all keys and values. On arbitrary text decoding panics
  exactly when the third byte after some percent sign lies inside a character.
\<close>

theorem query_decoding:
  "(query_safe keep \<and> (\<forall>(k, v) \<in> set kvs. str_ok k \<and> str_ok v)
      \<longrightarrow> parse_query (encode_query keep kvs) = Ok kvs)
    \<and> (percent_decode s = Panic
      \<longleftrightarrow> (\<exists>i. i + 3 < length s \<and> s ! i = CHR ''%'' \<and> utf8_cont (byte_of (s ! (i + 3)))))"
  using parse_query_encode [of keep kvs] percent_bytes_panics [of s]
  by (auto simp: percent_decode_def and_then_eq_Panic cut_escape_def)

section \<open>Witnesses\<close>

definition demo_pieces :: "bytes list" where
  "demo_pieces = [str_bytes ''GET /x?a=%41'', str_bytes '' HTTP/1.1'' @ [0x0D, 0x0A], [0x0D, 0x0A]]"

theorem read_request_pieces_witness:
  "read_request (map Some demo_pieces @ [None])
    = Ok \<lparr>rq_method = ''GET'', rq_path = ''/x'', rq_query = [(''a'', ''A'')], rq_headers = [], rq_body = []\<rparr>"
proof -
  have find: "find_bytes (concat demo_pieces) header_terminator = Some 21" by code_simp
  have len: "announced_length (take 25 (concat demo_pieces)) = 0" by code_simp
  have "\<forall>c \<in> set demo_pieces. c \<noteq> []" "length (concat demo_pieces) \<le> MAX_REQUEST"
    by (simp_all add: demo_pieces_def MAX_REQUEST_def str_bytes_def)
  from read_request_pieces [OF this, of "[None]"]
  have "read_request (map Some demo_pieces @ [None]) = whole_request (concat demo_pieces) 25"
    by (simp add: find len)
  also have "\<dots> = Ok \<lparr>rq_method = ''GET'', rq_path = ''/x'', rq_query = [(''a'', ''A'')], rq_headers = [], rq_body = []\<rparr>"
    by code_simp
  finally show ?thesis .
qed

theorem query_decoding_witness:
  "parse_query (encode_query (\<lambda>c. c = CHR ''x'') [(''x&y'', ''100%''), ([], [CHR 0xC3, CHR 0xA9])])
      = Ok [(''x&y'', ''100%''), ([], [CHR 0xC3, CHR 0xA9])]
    \<and> percent_decode [CHR ''%'', CHR ''a'', CHR 0xC3, CHR 0xA9] = Panic"
proof -
  let ?s = "[CHR ''%'', CHR ''a'', CHR 0xC3, CHR 0xA9]"
  let ?kvs = "[(''x&y'', ''100%''), ([], [CHR 0xC3, CHR 0xA9])]"
  have "query_safe (\<lambda>c. c = CHR ''x'')" by (simp add: query_safe_def)
  moreover have "\<forall>(k, v) \<in> set [(''x&y'', ''100%''), ([], [CHR 0xC3, CHR 0xA9])]. str_ok k \<and> str_ok v" by code_simp
  moreover have "\<exists>i. i + 3 < length ?s \<and> ?s ! i = CHR ''%'' \<and> utf8_cont (byte_of (?s ! (i + 3)))"
    by (rule exI [of _ 0]) code_simp
  ultimately show ?thesis
    using query_decoding [of "\<lambda>c. c = CHR ''x''" ?kvs ?s] by blast
qed

end
