(* ===== verification/Json.thy ===== *)
theory Json
  imports Text_Ops
begin

text \<open>
  What the sources use of the crate \<open>serde_json\<close>. A \<open>Value\<close> has the constructors of the
  crate's enum, over an unspecified type of numbers; an object is the map of its entries.
  Reading and writing text and the conversions of numbers are the fields of a record, so that
  every definition that uses them takes the library as an argument. The accessors and the
  two index operators follow the crate's documentation.
\<close>

datatype 'n Value =
    Null
  | Bool bool
  | Number 'n
  | Str string
  | Array "'n Value list"
  | Object "string \<rightharpoonup> 'n Value"

record ('n, 'f) serde =
  from_slice :: "bytes \<Rightarrow> ('n Value, string) res"
  to_vec :: "'n Value \<Rightarrow> bytes option"
  to_string_pretty :: "'n Value \<Rightarrow> (string, string) res"
  number_from :: "nat \<Rightarrow> 'n"
  number_from_f64 :: "'f \<Rightarrow> 'n option"
  number_as_u64 :: "'n \<Rightarrow> u64 option"
  number_as_f64 :: "'n \<Rightarrow> 'f option"

fun json_get :: "'n Value \<Rightarrow> string \<Rightarrow> 'n Value option" where
  "json_get (Object entries) key = entries key"
| "json_get _ key = None"

fun as_str :: "'n Value \<Rightarrow> string option" where
  "as_str (Str s) = Some s"
| "as_str _ = None"

fun as_array :: "'n Value \<Rightarrow> 'n Value list option" where
  "as_array (Array vs) = Some vs"
| "as_array _ = None"

fun as_u64 :: "('n, 'f) serde \<Rightarrow> 'n Value \<Rightarrow> u64 option" where
  "as_u64 J (Number n) = number_as_u64 J n"
| "as_u64 J _ = None"

fun as_f64 :: "('n, 'f) serde \<Rightarrow> 'n Value \<Rightarrow> 'f option" where
  "as_f64 J (Number n) = number_as_f64 J n"
| "as_f64 J _ = None"

text \<open>The read access \<open>value[key]\<close>, \<open>Null\<close> for a missing key.\<close>

definition json_index :: "'n Value \<Rightarrow> string \<Rightarrow> 'n Value" where
  "json_index v key = unwrap_or Null (json_get v key)"

text \<open>
  An assignment through \<open>value[key]\<close>: an object gets the entry, \<open>null\<close> becomes an object with
  it, and any other value panics.
\<close>

fun json_assign :: "'n Value \<Rightarrow> string \<Rightarrow> 'n Value \<Rightarrow> ('n Value, 'e) res" where
  "json_assign (Object entries) key v = Ok (Object (entries(key \<mapsto> v)))"
| "json_assign Null key v = Ok (Object [key \<mapsto> v])"
| "json_assign _ key v = Panic"

text \<open>The strings of an array, other elements dropped.\<close>

definition json_strings :: "'n Value list \<Rightarrow> string list" where
  "json_strings vs = List.map_filter as_str vs"

text \<open>The crate writes what it reads back as the same value.\<close>

definition serde_laws :: "('n, 'f) serde \<Rightarrow> bool" where
  "serde_laws J \<longleftrightarrow> (\<forall>v bs. to_vec J v = Some bs \<longrightarrow> from_slice J bs = Ok v)
    \<and> (\<forall>v s. to_string_pretty J v = Ok s \<longrightarrow> from_slice J (str_bytes s) = Ok v)
    \<and> (\<forall>v. to_string_pretty J v \<noteq> Panic) \<and> (\<forall>bs. from_slice J bs \<noteq> Panic)"

lemma json_assign_get:
  "json_assign v key x = Ok v' \<Longrightarrow> json_get v' k = (if k = key then Some x else json_get v k)"
  by (cases v) auto

end
