(* ===== verification/Daemon.thy ===== *)
theory Daemon
  imports Store_Drops Http Json
begin

text \<open>
  The HTTP daemon of \<open>crates/daemon/src/main.rs\<close>: command line, bearer token, routing and the
  handlers over the data directory. The libraries the daemon calls, the page it serves and the
  text of an I/O error are the fields of the record \<open>deps\<close>. A handler is a step on the world
  whose errors are texts; a reply is \<open>None\<close> when the task of the connection panics. Requests
  are handled one after the other; the interleaving of file operations of two connections is
  not represented.
\<close>

section \<open>Libraries\<close>

record ('f, 'l, 'r, 'c, 'n) deps =
  dp_crypto :: crypto
  dp_hex :: hex_codec
  dp_h3 :: "('f, 'l, 'r, 'c) h3"
  dp_shuffle :: "WrappedKey list \<Rightarrow> rng \<Rightarrow> WrappedKey list \<times> rng"
  dp_json :: "('n, 'f) serde"
  dp_parse_f64 :: "string \<Rightarrow> 'f option"
  dp_zero_f64 :: 'f
  dp_io_text :: string
  dp_index_html :: string

section \<open>The texts of errors\<close>

fun crypto_error_text :: "crypto_error \<Rightarrow> string" where
  "crypto_error_text InvalidKeyLength = ''invalid key length''"
| "crypto_error_text Encrypt = ''encryption failed''"
| "crypto_error_text Decrypt = ''decryption failed''"
| "crypto_error_text CryptoVerify = ''signature verification failed''"
| "crypto_error_text InvalidPublicKey = ''invalid public key''"
| "crypto_error_text UnsupportedSuite = ''unsupported crypto suite''"

fun core_error_text :: "core_error \<Rightarrow> string" where
  "core_error_text (Cbor s) = ''cbor: '' @ s"
| "core_error_text (Crypto e) = ''crypto: '' @ crypto_error_text e"
| "core_error_text (Cell s) = ''cell: '' @ s"
| "core_error_text Length = ''length mismatch''"
| "core_error_text CoreVerify = ''signature verification failed''"
| "core_error_text (Invalid s) = ''invalid: '' @ s"

fun log_error_text :: "log_error \<Rightarrow> string" where
  "log_error_text IndexOutOfRange = ''index out of range''"
| "log_error_text ProofInvalid = ''proof verification failed''"
| "log_error_text TreeHeadInvalid = ''tree head verification failed''"

fun store_error_text :: "string \<Rightarrow> store_error \<Rightarrow> string" where
  "store_error_text io NoIdentity = ''no identity found; run `keepstone keygen` first''"
| "store_error_text io NoHybrid = ''no hybrid key found; regenerate the identity''"
| "store_error_text io NoMlDsa = ''no ML-DSA key found; regenerate the identity''"
| "store_error_text io (StoreNotFound s) = ''not found: '' @ s"
| "store_error_text io (StoreInvalid s) = ''invalid: '' @ s"
| "store_error_text io (StoreCrypto e) = ''crypto: '' @ crypto_error_text e"
| "store_error_text io (StoreCore e) = ''core: '' @ core_error_text e"
| "store_error_text io StoreIo = ''io: '' @ io"
| "store_error_text io (StoreLog e) = ''log: '' @ log_error_text e"

section \<open>Command line\<close>

record Config =
  cf_data_dir :: string
  cf_listen :: string
  cf_token :: "string option"

fun daemon_args :: "string list \<Rightarrow> Config \<Rightarrow> Config" where
  "daemon_args [] cf = cf"
| "daemon_args [arg] cf =
    (if arg = ''--data-dir'' then cf\<lparr>cf_data_dir := []\<rparr>
     else if arg = ''--token'' then cf\<lparr>cf_token := None\<rparr> else cf)"
| "daemon_args (arg # val # args) cf =
    (if arg = ''--data-dir'' then daemon_args args (cf\<lparr>cf_data_dir := val\<rparr>)
     else if arg = ''--listen'' then daemon_args args (cf\<lparr>cf_listen := val\<rparr>)
     else if arg = ''--token'' then daemon_args args (cf\<lparr>cf_token := Some val\<rparr>)
     else daemon_args (val # args) cf)"

definition daemon_config :: "string option \<Rightarrow> string list \<Rightarrow> Config" where
  "daemon_config env_token args =
    daemon_args args \<lparr>cf_data_dir = ''./.keepstone-data'', cf_listen = ''127.0.0.1:8787'', cf_token = env_token\<rparr>"

section \<open>Responses\<close>

record Response =
  rs_status :: u16
  rs_content_type :: string
  rs_body :: bytes

definition Response_json :: "('n, 'f) serde \<Rightarrow> u16 \<Rightarrow> 'n Value \<Rightarrow> Response" where
  "Response_json J status val =
    \<lparr>rs_status = status, rs_content_type = ''application/json'', rs_body = unwrap_or [] (to_vec J val)\<rparr>"

definition Response_error :: "('n, 'f) serde \<Rightarrow> u16 \<Rightarrow> string \<Rightarrow> Response" where
  "Response_error J status message = Response_json J status (Object [''error'' \<mapsto> Str message])"

definition Response_html :: "string \<Rightarrow> Response" where
  "Response_html body = \<lparr>rs_status = 200, rs_content_type = ''text/html; charset=utf-8'', rs_body = str_bytes body\<rparr>"

section \<open>Handlers\<close>

text \<open>\<open>map_err(|e| e.to_string())\<close> on a store operation and on parsing an id.\<close>

definition explain :: "('f, 'l, 'r, 'c, 'n) deps \<Rightarrow> 'a action \<Rightarrow> ('a, string) step" where
  "explain D m w = map_option (\<lambda>(r, w). (map_err (store_error_text (dp_io_text D)) r, w)) (m w)"

definition parse_id :: "('f, 'l, 'r, 'c, 'n) deps \<Rightarrow> string \<Rightarrow> (DropId, string) res" where
  "parse_id D id_text = map_err core_error_text (DropId_from_hex (hex_decode (dp_hex D)) id_text)"

definition json_hex :: "('f, 'l, 'r, 'c, 'n) deps \<Rightarrow> bytes \<Rightarrow> 'n Value" where
  "json_hex D bs = Str (hex_encode (dp_hex D) bs)"

definition json_nat :: "('f, 'l, 'r, 'c, 'n) deps \<Rightarrow> nat \<Rightarrow> 'n Value" where
  "json_nat D n = Number (number_from (dp_json D) n)"

definition api_id :: "('f, 'l, 'r, 'c, 'n) deps \<Rightarrow> ('n Value, string) step" where
  "api_id D =
    act_then (explain D (act_read (Store_identity (dp_hex D)))) (\<lambda>identity.
    act_then (explain D (hybrid_public_bytes (dp_crypto D) (dp_hex D))) (\<lambda>hybrid.
    act_res (Ok (Object [
      ''signing'' \<mapsto> json_hex D (signing_public (dp_crypto D) identity),
      ''ecdh'' \<mapsto> json_hex D (ecdh_public (dp_crypto D) identity),
      ''hybrid'' \<mapsto> json_hex D hybrid]))))"

definition contact_json :: "('f, 'l, 'r, 'c, 'n) deps \<Rightarrow> Contact \<Rightarrow> 'n Value" where
  "contact_json D contact = Object [
     ''name'' \<mapsto> Str (ct_name contact),
     ''signing'' \<mapsto> json_hex D (ct_signing contact),
     ''ecdh'' \<mapsto> json_hex D (ct_ecdh contact),
     ''hybrid'' \<mapsto> (case ct_hybrid contact of None \<Rightarrow> Null | Some bs \<Rightarrow> json_hex D bs)]"

definition api_contacts :: "('f, 'l, 'r, 'c, 'n) deps \<Rightarrow> ('n Value, string) step" where
  "api_contacts D =
    act_then (explain D (act_read (Store_contacts (dp_hex D)))) (\<lambda>contacts.
    act_res (Ok (Object [''contacts'' \<mapsto> Array (map (contact_json D) contacts)])))"

definition required_str :: "string \<Rightarrow> 'n Value \<Rightarrow> string \<Rightarrow> (string, string) res" where
  "required_str message val key = ok_or message (Option.bind (json_get val key) as_str)"

definition api_add_contact :: "('f, 'l, 'r, 'c, 'n) deps \<Rightarrow> bytes \<Rightarrow> ('n Value, string) step" where
  "api_add_contact D body =
    act_then (act_res (from_slice (dp_json D) body)) (\<lambda>val.
    act_then (act_res (required_str ''name required'' val ''name'')) (\<lambda>name.
    act_then (act_res (required_str ''signing required'' val ''signing'')) (\<lambda>signing.
    act_then (act_res (required_str ''ecdh required'' val ''ecdh'')) (\<lambda>ecdh.
    let hybrid = Option.bind (json_get val ''hybrid'') as_str in
    act_then (explain D (act_disk (add_contact (dp_hex D) name signing ecdh hybrid))) (\<lambda>_.
    act_res (Ok (Object [''ok'' \<mapsto> Bool True])))))))"

definition drop_json :: "('f, 'l, 'r, 'c, 'n) deps \<Rightarrow> DropSummary \<Rightarrow> 'n Value" where
  "drop_json D ds = Object [
     ''id'' \<mapsto> Str (DropId_to_hex (hex_encode (dp_hex D)) (ds_id ds)),
     ''cell'' \<mapsto> Str (ds_cell ds),
     ''ring'' \<mapsto> json_nat D (unat (ds_ring ds)),
     ''chunks'' \<mapsto> json_nat D (unat (ds_chunks ds)),
     ''created'' \<mapsto> json_nat D (unat (ds_created ds)),
     ''expiry'' \<mapsto> json_nat D (unat (ds_expiry ds)),
     ''suite'' \<mapsto> json_nat D (unat (ds_suite ds)),
     ''sig_kind'' \<mapsto> json_nat D (unat (ds_sig_kind ds))]"

definition api_list_drops :: "('f, 'l, 'r, 'c, 'n) deps \<Rightarrow> (string \<times> string) list \<Rightarrow> ('n Value, string) step" where
  "api_list_drops D query =
    (let lat = Option.bind (query_param query ''lat'') (dp_parse_f64 D);
         lng = Option.bind (query_param query ''lng'') (dp_parse_f64 D);
         ring = (case Option.bind (query_param query ''ring'') (from_str_radix 10 u32_max) of
                   Some v \<Rightarrow> of_nat v | None \<Rightarrow> 2);
         near = Option.bind lat (\<lambda>a. map_option (\<lambda>b. (a, b)) lng) in
     act_then (explain D (act_read (\<lambda>d. list_drops (dp_crypto D) (dp_h3 D) d near ring))) (\<lambda>drops.
     act_res (Ok (Object [''drops'' \<mapsto> Array (map (drop_json D) drops)]))))"

definition api_drop_meta :: "('f, 'l, 'r, 'c, 'n) deps \<Rightarrow> string \<Rightarrow> ('n Value, string) step" where
  "api_drop_meta D id_text =
    act_then (act_res (parse_id D id_text)) (\<lambda>i.
    act_then (explain D (act_read (\<lambda>d. read_drop (dp_hex D) d i))) (\<lambda>(sd, body).
    act_res (Ok (Object [
      ''id'' \<mapsto> Str (DropId_to_hex (hex_encode (dp_hex D)) i),
      ''cell'' \<mapsto> Str (db_cell body),
      ''ring'' \<mapsto> json_nat D (unat (db_ring body)),
      ''chunks'' \<mapsto> json_nat D (unat (db_chunk_count body)),
      ''created'' \<mapsto> json_nat D (unat (db_created_at body)),
      ''expiry'' \<mapsto> json_nat D (unat (db_expiry body)),
      ''suite'' \<mapsto> json_nat D (unat (db_suite body)),
      ''sig_kind'' \<mapsto> json_nat D (unat (sd_sig_kind sd))]))))"

definition api_create_drop :: "('f, 'l, 'r, 'c, 'n) deps \<Rightarrow> bytes \<Rightarrow> ('n Value, string) step" where
  "api_create_drop D body =
    act_then (act_res (from_slice (dp_json D) body)) (\<lambda>val.
    let to = unwrap_or [] (map_option json_strings (Option.bind (json_get val ''to'') as_array));
        lat = unwrap_or (dp_zero_f64 D) (Option.bind (json_get val ''lat'') (as_f64 (dp_json D)));
        lng = unwrap_or (dp_zero_f64 D) (Option.bind (json_get val ''lng'') (as_f64 (dp_json D)));
        res = ucast (unwrap_or 9 (Option.bind (json_get val ''res'') (as_u64 (dp_json D))));
        ring = ucast (unwrap_or 2 (Option.bind (json_get val ''ring'') (as_u64 (dp_json D))));
        ttl = unwrap_or 0 (Option.bind (json_get val ''ttl'') (as_u64 (dp_json D)));
        suite = unwrap_or ''classical'' (Option.bind (json_get val ''suite'') as_str) in
    act_then (act_res (required_str ''message required'' val ''message'')) (\<lambda>message.
    act_then (explain D (create_drop (dp_crypto D) (dp_hex D) (dp_h3 D) (dp_shuffle D)
      to lat lng res ring ttl suite (str_bytes message))) (\<lambda>created.
    act_res (Ok (Object [''id'' \<mapsto> Str (DropId_to_hex (hex_encode (dp_hex D)) (cd_id created))])))))"

definition api_open_drop :: "('f, 'l, 'r, 'c, 'n) deps \<Rightarrow> string \<Rightarrow> ('n Value, string) step" where
  "api_open_drop D id_text =
    act_then (act_res (parse_id D id_text)) (\<lambda>i.
    act_then (explain D (act_read (\<lambda>d. open_drop (dp_crypto D) (dp_hex D) d i))) (\<lambda>plaintext.
    act_res (Ok (if utf8_valid plaintext then Object [''text'' \<mapsto> Str (bytes_str plaintext)]
      else Object [''hex'' \<mapsto> json_hex D plaintext]))))"

definition api_verify :: "('f, 'l, 'r, 'c, 'n) deps \<Rightarrow> string \<Rightarrow> ('n Value, string) step" where
  "api_verify D id_text =
    act_then (act_res (parse_id D id_text)) (\<lambda>i.
    act_then (explain D (Store_verify (dp_crypto D) (dp_hex D) i)) (\<lambda>verification.
    act_res (Ok (Object [
      ''signature'' \<mapsto> Bool (vf_signature verification),
      ''inclusion'' \<mapsto> Bool (vf_inclusion verification),
      ''sth'' \<mapsto> Bool (vf_sth verification),
      ''tree_size'' \<mapsto> json_nat D (vf_tree_size verification),
      ''leaf_index'' \<mapsto> json_nat D (vf_leaf_index verification),
      ''root'' \<mapsto> json_hex D (vf_root verification),
      ''sig_kind'' \<mapsto> json_nat D (unat (vf_sig_kind verification))]))))"

section \<open>Routing\<close>

type_synonym reply = "World \<Rightarrow> (Response option \<times> World) option"

definition api_status :: "('n, 'f) serde \<Rightarrow> ('n Value, string) step \<Rightarrow> u16 \<Rightarrow> reply" where
  "api_status J result ok w =
    (case result w of
       None \<Rightarrow> None
     | Some (Ok val, w) \<Rightarrow> Some (Some (Response_json J ok val), w)
     | Some (Err error, w) \<Rightarrow> Some (Some (Response_error J 400 error), w)
     | Some (Panic, w) \<Rightarrow> Some (None, w))"

definition api :: "('n, 'f) serde \<Rightarrow> ('n Value, string) step \<Rightarrow> reply" where
  "api J result = api_status J result 200"

definition reply_with :: "Response \<Rightarrow> reply" where
  "reply_with response w = Some (Some response, w)"

definition strip_prefix :: "string \<Rightarrow> string \<Rightarrow> string option" where
  "strip_prefix s pre = (if starts_with s pre then Some (drop (length pre) s) else None)"

definition strip_suffix :: "string \<Rightarrow> string \<Rightarrow> string option" where
  "strip_suffix s suf =
    (if length suf \<le> length s \<and> drop (length s - length suf) s = suf
     then Some (take (length s - length suf) s) else None)"

definition authorized :: "Request \<Rightarrow> string \<Rightarrow> bool" where
  "authorized request expected \<longleftrightarrow>
    list_ex (\<lambda>(name, val). name = ''authorization'' \<and> val = ''Bearer '' @ expected) (rq_headers request)"

definition route_with_id :: "('f, 'l, 'r, 'c, 'n) deps \<Rightarrow> Request \<Rightarrow> reply" where
  "route_with_id D request =
    (case strip_prefix (rq_path request) ''/api/drops/'' of
       None \<Rightarrow>
         (case strip_prefix (rq_path request) ''/api/log/'' of
            Some i \<Rightarrow> api (dp_json D) (api_verify D (unwrap_or i (strip_suffix i ''/verify'')))
          | None \<Rightarrow> reply_with (Response_error (dp_json D) 404 ''not found''))
     | Some rest \<Rightarrow>
         (case strip_suffix rest ''/open'' of
            Some i \<Rightarrow> api (dp_json D) (api_open_drop D i)
          | None \<Rightarrow> api_status (dp_json D) (api_drop_meta D rest) 200))"

definition route :: "('f, 'l, 'r, 'c, 'n) deps \<Rightarrow> string option \<Rightarrow> Request \<Rightarrow> reply" where
  "route D token request =
    (let J = dp_json D; method = rq_method request; path = rq_path request in
     if method = ''OPTIONS'' then reply_with (Response_json J 200 (Object [''ok'' \<mapsto> Bool True]))
     else if starts_with path ''/api/'' \<and> (case token of Some expected \<Rightarrow> \<not> authorized request expected | None \<Rightarrow> False)
       then reply_with (Response_error J 401 ''unauthorized'')
     else if method = ''GET'' \<and> (path = ''/'' \<or> path = ''/index.html'') then reply_with (Response_html (dp_index_html D))
     else if method = ''GET'' \<and> path = ''/api/id'' then api J (api_id D)
     else if method = ''GET'' \<and> path = ''/api/contacts'' then api J (api_contacts D)
     else if method = ''POST'' \<and> path = ''/api/contacts'' then api_status J (api_add_contact D (rq_body request)) 200
     else if method = ''GET'' \<and> path = ''/api/drops'' then api J (api_list_drops D (rq_query request))
     else if method = ''POST'' \<and> path = ''/api/drops'' then api_status J (api_create_drop D (rq_body request)) 201
     else route_with_id D request)"

text \<open>
  The task of one connection: what it writes, if it does not panic, and the world it leaves.
\<close>

definition serve_connection ::
    "('f, 'l, 'r, 'c, 'n) deps \<Rightarrow> string option \<Rightarrow> socket \<Rightarrow> World \<Rightarrow> (bytes option \<times> World) option" where
  "serve_connection D token sock w =
    map_option (\<lambda>(response, w). (map_option (\<lambda>r. http_respond (rs_status r) (rs_content_type r) (rs_body r)) response, w))
      (case read_request sock of
         Ok request \<Rightarrow> route D token request w
       | Err _ \<Rightarrow> Some (Some (Response_json (dp_json D) 400 (Object [''error'' \<mapsto> Str ''bad request''])), w)
       | Panic \<Rightarrow> Some (None, w))"

section \<open>Authorisation\<close>

text \<open>What the daemon answers to a client without the token: nothing but public answers.\<close>

definition public_response :: "('f, 'l, 'r, 'c, 'n) deps \<Rightarrow> Request \<Rightarrow> Response" where
  "public_response D request =
    (if rq_method request = ''OPTIONS'' then Response_json (dp_json D) 200 (Object [''ok'' \<mapsto> Bool True])
     else if starts_with (rq_path request) ''/api/'' then Response_error (dp_json D) 401 ''unauthorized''
     else if rq_method request = ''GET'' \<and> rq_path request \<in> {''/'', ''/index.html''} then Response_html (dp_index_html D)
     else Response_error (dp_json D) 404 ''not found'')"

lemma starts_with_shorter: "starts_with s (a @ b) \<Longrightarrow> starts_with s a"
proof -
  assume "starts_with s (a @ b)"
  then have "take (length a) (take (length (a @ b)) s) = take (length a) (a @ b)" by (simp add: starts_with_def)
  then show ?thesis by (simp add: starts_with_def)
qed

lemma starts_with_api:
  "starts_with s ''/api/drops/'' \<Longrightarrow> starts_with s ''/api/''"
  "starts_with s ''/api/log/'' \<Longrightarrow> starts_with s ''/api/''"
  using starts_with_shorter [of s "''/api/''" "''drops/''"] starts_with_shorter [of s "''/api/''" "''log/''"] by simp_all

text \<open>
  C37. The token guards everything. For a client that does not present the token, the answer is
  a function of the request alone and the data directory, the randomness and the clock stay
  untouched, so nothing is learnt and nothing is changed; for one that does, the daemon
  behaves as a daemon without a token.
\<close>

theorem token_guards:
  "route D (Some expected) request w =
    (if authorized request expected then route D None request w
     else Some (Some (public_response D request), w))"
proof (cases "authorized request expected")
  case False
  show ?thesis
  proof (cases "starts_with (rq_path request) ''/api/''")
    case True
    then have "rq_path request \<noteq> ''/''" "rq_path request \<noteq> ''/index.html''" by (auto simp: starts_with_def)
    then show ?thesis using False True by (simp add: route_def public_response_def reply_with_def)
  next
    case no: False
    then have "rq_path request \<noteq> ''/api/id''" "rq_path request \<noteq> ''/api/contacts''" "rq_path request \<noteq> ''/api/drops''"
      by (auto simp: starts_with_def)
    moreover have "strip_prefix (rq_path request) ''/api/drops/'' = None" "strip_prefix (rq_path request) ''/api/log/'' = None"
      using no starts_with_api by (auto simp: strip_prefix_def)
    ultimately show ?thesis using False no
      by (auto simp: route_def public_response_def reply_with_def route_with_id_def Let_def)
  qed
qed (simp add: route_def Let_def)

section \<open>A drop over HTTP\<close>

lemma strip_prefix_append [simp]: "strip_prefix (pre @ s) pre = Some s"
  by (simp add: strip_prefix_def starts_with_def)

lemma strip_suffix_append [simp]: "strip_suffix (s @ suf) suf = Some s"
  by (simp add: strip_suffix_def)

text \<open>A request as the page of the daemon sends it.\<close>

definition post :: "string \<Rightarrow> bytes \<Rightarrow> Request" where
  "post target body = \<lparr>rq_method = ''POST'', rq_path = target, rq_query = [], rq_headers = [], rq_body = body\<rparr>"

definition open_path :: "string \<Rightarrow> string" where
  "open_path id_text = ''/api/drops/'' @ id_text @ ''/open''"

lemma route_open: "route D None (post (open_path i) body) = api (dp_json D) (api_open_drop D i)"
proof -
  have "strip_prefix (''/api/drops/'' @ i @ ''/open'') ''/api/drops/'' = Some (i @ ''/open'')"
    by (rule strip_prefix_append)
  moreover have "strip_suffix (i @ ''/open'') ''/open'' = Some i" by (rule strip_suffix_append)
  ultimately show ?thesis by (simp add: route_def post_def open_path_def route_with_id_def Let_def)
qed

lemma route_create: "route D None (post ''/api/drops'' body) = api_status (dp_json D) (api_create_drop D body) 201"
  by (simp add: route_def post_def Let_def starts_with_def)

text \<open>The fields of a creation request, as the handler reads them.\<close>

definition create_fields :: "('f, 'l, 'r, 'c, 'n) deps \<Rightarrow> 'n Value \<Rightarrow> string list \<Rightarrow> 'f \<Rightarrow> 'f \<Rightarrow> u8 \<Rightarrow> string \<Rightarrow> string \<Rightarrow> bool" where
  "create_fields D val to lat lng res suite message \<longleftrightarrow>
    unwrap_or [] (map_option json_strings (Option.bind (json_get val ''to'') as_array)) = to
    \<and> unwrap_or (dp_zero_f64 D) (Option.bind (json_get val ''lat'') (as_f64 (dp_json D))) = lat
    \<and> unwrap_or (dp_zero_f64 D) (Option.bind (json_get val ''lng'') (as_f64 (dp_json D))) = lng
    \<and> ucast (unwrap_or 9 (Option.bind (json_get val ''res'') (as_u64 (dp_json D)))) = res
    \<and> unwrap_or ''classical'' (Option.bind (json_get val ''suite'') as_str) = suite
    \<and> Option.bind (json_get val ''message'') as_str = Some message"

text \<open>
  C38. A message posted to the daemon can be read back through it. On a data directory in order,
  a creation request of either suite addressed to the own device is answered with 201 and an
  identifier, and opening that identifier is answered with 200 and the text.
\<close>

theorem http_create_then_open:
  assumes "hkdf_laws C" "aead_laws C" "x25519_laws C" "sha256_laws C" "ed25519_laws C" "h3_laws A" "hex_laws H"
    and "\<And>xs r. mset (fst (shuffle xs r)) = mset xs"
    and "dp_crypto D = C" "dp_hex D = H" "dp_h3 D = A" "dp_shuffle D = shuffle" "dp_json D = J"
    and "layout_ok (w_disk w)" and "log_holds es (w_disk w)"
    and "Store_identity H (w_disk w) = Ok identity" and "Store_contacts H (w_disk w) = Ok cs"
    and "to \<noteq> []" and "recipients_for (hk \<noteq> None) cs to = Ok rs" and "addressed_to C identity hk rs (w_rng w)"
    and "suite_laws C identity hk" and "hk = None \<or> mldsa_usable C H (w_disk w)"
    and "eq_ignore_ascii_case suite (if hk = None then ''classical'' else ''hybrid'')" and "CellId_from_lat_lng A lat lng res = Ok cell"
    and "\<And>root nonce. \<exists>n. pow_is_valid C (signing_public C identity) root nonce n"
    and "length message \<le> u32_max * DEFAULT_CHUNK_SIZE" and "str_ok message"
    and "from_slice J body = Ok val" and "\<forall>k. hk = Some k \<longrightarrow> Store_hybrid C H (w_disk w) = Ok k" and "create_fields D val to lat lng res suite message"
  shows "\<exists>id_text w'.
    route D None (post ''/api/drops'' body) w = Some (Some (Response_json J 201 (Object [''id'' \<mapsto> Str id_text])), w')
    \<and> route D None (post (open_path id_text) []) w' = Some (Some (Response_json J 200 (Object [''text'' \<mapsto> Str message])), w')"
proof -
  define ring :: u32 where "ring = ucast (unwrap_or 2 (Option.bind (json_get val ''ring'') (as_u64 J)))"
  define ttl where "ttl = unwrap_or 0 (Option.bind (json_get val ''ttl'') (as_u64 J))"
  have len: "length (str_bytes message) \<le> u32_max * DEFAULT_CHUNK_SIZE" using assms(26) by simp
  from create_for [where shuffle = shuffle and ring = ring and ttl = ttl, OF assms(1-6,8,14-25) len]
  obtain created w' sd chunks where create:
    "create_drop C H A shuffle to lat lng res ring ttl suite (str_bytes message) w = Some (Ok created, w')"
    and id: "cd_id created = SignedDrop_id C sd" and held: "holds_drop H (w_disk w') (cd_id created) (sd_raw sd) chunks"
    and same: "\<forall>q. length q = 1 \<longrightarrow> q \<noteq> mldsa_path \<longrightarrow> disk_read (w_disk w') q = disk_read (w_disk w) q"
    and opens: "\<forall>d. device C H identity hk d \<and> holds_drop H d (cd_id created) (sd_raw sd) chunks
        \<longrightarrow> open_drop C H d (cd_id created) = Ok (str_bytes message)" by auto
  have "device C H identity hk (w_disk w')" 
    by (rule device_kept [OF same]) (use assms(16,29) in \<open>simp add: device_def\<close>)
  with held opens have opened: "open_drop C H (w_disk w') (cd_id created) = Ok (str_bytes message)" by blast
  let ?id = "DropId_to_hex (hex_encode H) (cd_id created)"
  have "length (as_bytes (cd_id created)) = 32" using assms(4) id by (simp add: SignedDrop_id_def DropId_of_def sha256_laws_def)
  then have "DropId_from_hex (hex_decode H) ?id = Ok (cd_id created)"
    using assms(7) by (cases "cd_id created") (simp add: DropId_from_hex_def DropId_to_hex_def hex_laws_def)
  then have "api_open_drop D ?id w' = Some (Ok (Object [''text'' \<mapsto> Str message]), w')"
    using opened assms(9,10,27) by (simp add: api_open_drop_def parse_id_def explain_def act_defs str_ok_def)
  moreover have "api_create_drop D body w = Some (Ok (Object [''id'' \<mapsto> Str ?id]), w')"
    using create assms(9-13,28,30)
    by (simp add: api_create_drop_def create_fields_def required_str_def explain_def act_defs Let_def ring_def ttl_def)
  ultimately show ?thesis
    using assms(13) by (intro exI [of _ ?id] exI [of _ w']) (simp add: route_open route_create api_def api_status_def)
qed

section \<open>Witnesses\<close>

definition demo_value :: "nat Value" where
  "demo_value = Object [''to'' \<mapsto> Array [Str ''me''], ''lat'' \<mapsto> Number 4, ''lng'' \<mapsto> Number 2, ''message'' \<mapsto> Str ''hi'']"

definition demo_json :: "(nat, nat) serde" where
  "demo_json = \<lparr>from_slice = \<lambda>_. Ok demo_value, to_vec = \<lambda>_. None, to_string_pretty = \<lambda>_. Err [],
    number_from = \<lambda>n. n, number_from_f64 = Some, number_as_u64 = \<lambda>n. Some (of_nat n), number_as_f64 = Some\<rparr>"

definition demo_deps :: "(nat, nat, u8, bool, nat) deps" where
  "demo_deps = \<lparr>dp_crypto = easy_crypto, dp_hex = hex_impl, dp_h3 = toy_h3, dp_shuffle = \<lambda>xs r. (rev xs, r),
    dp_json = demo_json, dp_parse_f64 = \<lambda>_. None, dp_zero_f64 = 0, dp_io_text = [], dp_index_html = []\<rparr>"

theorem http_create_then_open_witness:
  "\<exists>id_text w'. route demo_deps None (post ''/api/drops'' []) \<lparr>w_disk = demo_disk, w_rng = \<lambda>_. 0, w_clock = []\<rparr>
      = Some (Some (Response_json demo_json 201 (Object [''id'' \<mapsto> Str id_text])), w')
    \<and> route demo_deps None (post (open_path id_text) []) w'
      = Some (Some (Response_json demo_json 200 (Object [''text'' \<mapsto> Str ''hi''])), w')"
proof -
  let ?w = "\<lparr>w_disk = demo_disk, w_rng = \<lambda>_. 0, w_clock = []\<rparr> :: World"
  have sh: "mset (fst ((\<lambda>xs r. (rev xs, r)) xs r)) = mset xs" for xs :: "WrappedKey list" and r :: rng by simp
  have size: "length ''hi'' \<le> u32_max * DEFAULT_CHUNK_SIZE" by (simp add: u32_max_def DEFAULT_CHUNK_SIZE_def)
  have ok: "str_ok ''hi''" by code_simp
  have deps: "dp_crypto demo_deps = easy_crypto" "dp_hex demo_deps = hex_impl" "dp_h3 demo_deps = toy_h3"
    "dp_shuffle demo_deps = (\<lambda>xs r. (rev xs, r))" "dp_json demo_deps = demo_json"
    by (simp_all add: demo_deps_def)
  have disk: "layout_ok (w_disk ?w)" "log_holds [] (w_disk ?w)" "Store_identity hex_impl (w_disk ?w) = Ok demo_identity"
    "Store_contacts hex_impl (w_disk ?w) = Ok [demo_contact]" "[''me''] \<noteq> []"
    and rng: "addressed_to easy_crypto demo_identity None [(replicate 32 2, None)] (w_rng ?w)"
    using demo_disk_ok demo_facts(2) by simp_all
  have read: "from_slice demo_json [] = Ok demo_value" by (simp add: demo_json_def)
  have fields: "create_fields demo_deps demo_value [''me''] 4 2 9 ''classical'' ''hi''"
    by (simp add: create_fields_def demo_value_def demo_deps_def demo_json_def json_strings_def List.map_filter_def)
  from http_create_then_open [where shuffle = "\<lambda>xs r. (rev xs, r)", OF easy_laws toy_h3_laws hex_impl_laws sh deps
      disk demo_facts(1) rng demo_facts(3) classical_suite(2,1) demo_facts(4,5) size ok read _ fields]
  show ?thesis by simp
qed

end
