(* ===== verification/Frame.thy ===== *)
theory Frame
  imports Store_Drops "HOL-Library.Sublist"
begin

text \<open>
  What the operations of the store do to files they are not about. A relation between the disk
  before and the disk after is kept by an operation if it holds however the operation ends.
  The locale states what such a relation has to allow: creating directories, writing files
  that are not guarded, and appending to the log; inside it, every operation of the store is
  shown to keep the relation. The operations are actions on any state with a disk in it, so
  that the rules serve the store and the programs around it.
\<close>

locale disk_relation =
  fixes R :: "Disk \<Rightarrow> Disk \<Rightarrow> bool" and guarded :: "path set"
  assumes same: "R d d"
    and step: "R d d' \<Longrightarrow> R d' d'' \<Longrightarrow> R d d''"
    and mkdir: "disk_create_dir_all p d = Ok d' \<Longrightarrow> R d d'"
    and writes: "p \<notin> guarded \<Longrightarrow> disk_write p bs d = Ok d' \<Longrightarrow> R d d'"
    and log_append: "disk_append entries_path bs d = Ok d' \<Longrightarrow> R d d'"
begin

definition keeps_disk :: "(Disk \<Rightarrow> (Disk, store_error) res) \<Rightarrow> bool" where
  "keeps_disk f \<longleftrightarrow> (\<forall>d d'. f d = Ok d' \<longrightarrow> R d d')"

definition keeps :: "('s \<Rightarrow> Disk) \<Rightarrow> ('a, 'e, 's) act \<Rightarrow> bool" where
  "keeps disk m \<longleftrightarrow> (\<forall>s r s'. m s = Some (r, s') \<longrightarrow> R (disk s) (disk s'))"

lemma keepsD: "keeps disk m \<Longrightarrow> m s = Some (r, s') \<Longrightarrow> R (disk s) (disk s')"
  unfolding keeps_def by blast

text \<open>Functions on disks.\<close>

lemma disk_Ok: "keeps_disk (\<lambda>d. Ok d)"
  by (simp add: keeps_disk_def same)

lemma disk_write_kept: "p \<notin> guarded \<Longrightarrow> keeps_disk (disk_write p bs)"
  by (auto simp: keeps_disk_def dest: writes)

lemma disk_mkdir_kept: "keeps_disk (disk_create_dir_all p)"
  by (auto simp: keeps_disk_def dest: mkdir)

lemma disk_then: "keeps_disk f \<Longrightarrow> keeps_disk g \<Longrightarrow> keeps_disk (\<lambda>d. and_then (f d) g)"
  unfolding keeps_disk_def by (auto, meson step)

lemma disk_res: "(\<And>x. keeps_disk (g x)) \<Longrightarrow> keeps_disk (\<lambda>d. and_then r (\<lambda>x. g x d))"
  unfolding keeps_disk_def by auto

lemma disk_ignore: "keeps_disk f \<Longrightarrow> keeps_disk (ignore_failure f)"
  unfolding keeps_disk_def by (auto simp: ignore_failure_def same split: res.splits)

lemma disk_log: "keeps_disk (append_log_entry raw)"
proof -
  have "keeps_disk (disk_append entries_path bs)" for bs by (auto simp: keeps_disk_def dest: log_append)
  then show ?thesis unfolding append_log_entry_def [abs_def] by (intro disk_then disk_res disk_mkdir_kept)
qed

lemma disk_chunks: "(\<And>n. chunk_path H i n \<notin> guarded) \<Longrightarrow> keeps_disk (write_chunks H i k chunks)"
proof (induction chunks arbitrary: k)
  case Nil then show ?case by (simp add: keeps_disk_def same)
next
  case (Cons c chunks)
  have eq: "write_chunks H i k (c # chunks) = (\<lambda>d. and_then (disk_write (chunk_path H i k) c d) (write_chunks H i (Suc k) chunks))"
    by (simp add: fun_eq_iff chunk_path_def)
  show ?case unfolding eq by (intro disk_then disk_write_kept Cons)
qed

lemma disk_contact: "contacts_path \<notin> guarded \<Longrightarrow> keeps_disk (add_contact H name signing_hex ecdh_hex hybrid)"
  unfolding keeps_disk_def add_contact_def by (auto simp: Let_def split: if_splits dest: writes)

lemmas disk_intros = disk_Ok disk_write_kept disk_mkdir_kept disk_then disk_res disk_ignore disk_log disk_chunks disk_contact

text \<open>Actions.\<close>

lemma keeps_then:
  assumes "keeps disk m" "\<And>x. keeps disk (f x)"
  shows "keeps disk (act_then m f)"
  unfolding keeps_def
proof (intro allI impI)
  fix s r s'
  assume run: "act_then m f s = Some (r, s')"
  then obtain r1 s1 where m: "m s = Some (r1, s1)" by (auto simp: act_then_def split: option.splits)
  have "R (disk s1) (disk s')"
  proof (cases r1)
    case (Ok x)
    then have "f x s1 = Some (r, s')" using run m by (simp add: act_then_def)
    then show ?thesis by (rule keepsD [OF assms(2)])
  qed (use run m in \<open>simp_all add: act_then_def same\<close>)
  with keepsD [OF assms(1) m] show "R (disk s) (disk s')" by (rule step)
qed

lemma keeps_res: "keeps disk (act_res r)"
  by (simp add: keeps_def act_res_def same)

lemma keeps_if: "keeps disk m \<Longrightarrow> keeps disk m' \<Longrightarrow> keeps disk (if b then m else m')"
  by simp

lemma keeps_option: "keeps disk m \<Longrightarrow> (\<And>x. keeps disk (f x)) \<Longrightarrow> keeps disk (case o' of None \<Rightarrow> m | Some x \<Rightarrow> f x)"
  by (cases o') simp_all

lemma keeps_pair: "(\<And>x y. keeps disk (f x y)) \<Longrightarrow> keeps disk (case p of (x, y) \<Rightarrow> f x y)"
  by (cases p) simp

lemma keeps_if_state: "keeps disk m \<Longrightarrow> keeps disk m' \<Longrightarrow> keeps disk (\<lambda>s. if b s then m s else m' s)"
  unfolding keeps_def by auto

lemma keeps_act:
  "keeps w_disk (act_read g)" "keeps w_disk (act_rng h)" "keeps w_disk (act_rng_res k)" "keeps w_disk now_unix"
  "keeps w_disk (act_mine C signer root nonce)"
  by (auto simp: keeps_def act_defs now_unix_def act_mine_def same case_prod_beta split: res.splits list.splits option.splits)

lemma keeps_act_disk: "keeps_disk f \<Longrightarrow> keeps w_disk (act_disk f)"
  unfolding keeps_def keeps_disk_def by (auto simp: act_disk_def same split: res.splits)

lemmas keeps_intros = keeps_then keeps_res keeps_if keeps_option keeps_pair keeps_act keeps_act_disk disk_intros

text \<open>The operations of the store.\<close>

lemma keeps_hybrid_or_create: "hybrid_path \<notin> guarded \<Longrightarrow> keeps w_disk (hybrid_or_create C H)"
  unfolding hybrid_or_create_def [abs_def] save_hybrid_def [abs_def] by (intro keeps_if_state keeps_intros)

lemma keeps_hybrid_public: "hybrid_path \<notin> guarded \<Longrightarrow> keeps w_disk (hybrid_public_bytes C H)"
  unfolding hybrid_public_bytes_def Let_def by (intro keeps_intros keeps_hybrid_or_create)

lemma keeps_mldsa_or_create: "mldsa_path \<notin> guarded \<Longrightarrow> keeps w_disk (mldsa_or_create C H)"
  unfolding mldsa_or_create_def [abs_def] save_mldsa_def [abs_def] by (intro keeps_if_state keeps_intros)

lemma keeps_log_identity: "log_key_path \<notin> guarded \<Longrightarrow> keeps w_disk (log_identity H)"
proof -
  assume free: "log_key_path \<notin> guarded"
  have "keeps w_disk (act_then (act_rng Identity_generate) (\<lambda>identity.
      act_then (act_disk (disk_create_dir_all log_dir)) (\<lambda>_.
      act_then (act_disk (disk_write log_key_path (str_bytes (identity_text H identity)))) (\<lambda>_.
      act_res (Ok identity)))))" by (intro keeps_intros free)
  then show ?thesis
    unfolding keeps_def log_identity_def by (auto simp: act_res_def same split: option.splits)
qed

lemma keeps_signed_tree_head: "log_key_path \<notin> guarded \<Longrightarrow> keeps w_disk (signed_tree_head C H)"
  unfolding signed_tree_head_def Let_def by (intro keeps_intros keeps_log_identity)

lemma keeps_verify: "log_key_path \<notin> guarded \<Longrightarrow> keeps w_disk (Store_verify C H i)"
  unfolding Store_verify_def Let_def case_prod_beta by (intro keeps_intros keeps_log_identity)

lemma keeps_publish:
  assumes "mldsa_path \<notin> guarded" "\<And>i. drop_path H i \<notin> guarded" "\<And>i n. chunk_path H i n \<notin> guarded"
  shows "keeps w_disk (publish_drop C H hybrid_mode identity body chunks n)"
  unfolding publish_drop_def Let_def by (intro keeps_intros keeps_mldsa_or_create assms)

lemma keeps_create:
  assumes "mldsa_path \<notin> guarded" "\<And>i. drop_path H i \<notin> guarded" "\<And>i n. chunk_path H i n \<notin> guarded"
  shows "keeps w_disk (create_drop C H A shuffle to lat lng res ring ttl suite plaintext)"
  unfolding create_drop_def Let_def case_prod_beta by (intro keeps_intros keeps_publish assms)

end

text \<open>A relation that also allows the first identity file to be written.\<close>

locale key_relation = disk_relation +
  assumes new_identity: "\<not> has_identity d \<Longrightarrow> disk_write identity_path bs d = Ok d' \<Longrightarrow> R d d'"
begin

lemma keeps_keygen:
  assumes "hybrid_path \<notin> guarded" "mldsa_path \<notin> guarded"
  shows "keeps w_disk (keygen C H)"
proof -
  define rest where "rest identity = act_then (act_rng (HybridKeypair_generate C)) (\<lambda>hybrid.
      act_then (act_disk (save_hybrid H hybrid)) (\<lambda>_.
      act_then (act_rng MlDsaKeypair_generate) (\<lambda>mldsa.
      act_then (act_disk (save_mldsa H mldsa)) (\<lambda>_.
      act_res (Ok identity)))))" for identity :: Identity
  have rest: "keeps w_disk (rest identity)" for identity
    unfolding rest_def save_hybrid_def [abs_def] save_mldsa_def [abs_def] by (intro keeps_intros assms)
  show ?thesis
    unfolding keeps_def
  proof (intro allI impI)
    fix w r w'
    assume run: "keygen C H w = Some (r, w')"
    obtain i rng where i: "Identity_generate (w_rng w) = (i, rng)" by fastforce
    show "R (w_disk w) (w_disk w')"
    proof (cases "\<not> has_identity (w_disk w) \<and> is_ok (save_identity H i (w_disk w))")
      case True
      then obtain d where d: "save_identity H i (w_disk w) = Ok d" by (auto simp: is_ok_iff)
      then have "rest i (w\<lparr>w_rng := rng, w_disk := d\<rparr>) = Some (r, w')"
        using run True i by (simp add: keygen_def rest_def [symmetric] act_then_def act_rng_def act_disk_def)
      from keepsD [OF rest this] have "R d (w_disk w')" by simp
      moreover have "R (w_disk w) d" using new_identity True d by (simp add: save_identity_def)
      ultimately show ?thesis by (rule step [rotated])
    next
      case False
      then have "w_disk w' = w_disk w"
        using run i by (cases "save_identity H i (w_disk w)") (auto simp: keygen_def act_then_def act_rng_def act_disk_def split: if_splits)
      then show ?thesis by (simp add: same)
    qed
  qed
qed

end

lemma mkdir_reads: "disk_create_dir_all p d = Ok d' \<Longrightarrow> disk_read d' = disk_read d"
  by (auto simp: disk_create_dir_all_def disk_read_def fun_eq_iff Let_def split: if_splits)

text \<open>Two such relations. The first: only these files and the log may differ.\<close>

definition unchanged :: "path set \<Rightarrow> Disk \<Rightarrow> Disk \<Rightarrow> bool" where
  "unchanged S d d' \<longleftrightarrow> (\<forall>q. q \<notin> insert entries_path S \<longrightarrow> disk_read d' q = disk_read d q)"

interpretation frame: disk_relation "unchanged S" "- S" for S
  by unfold_locales (auto simp: unchanged_def disk_read_write disk_append_def mkdir_reads)

text \<open>The second: an identity once written stays as it is, and the log file only grows.\<close>

definition log_file :: "Disk \<Rightarrow> bytes" where
  "log_file d = unwrap_or [] (disk_read d entries_path)"

definition secured :: "Disk \<Rightarrow> Disk \<Rightarrow> bool" where
  "secured d d' \<longleftrightarrow> (\<forall>bs. disk_read d identity_path = Some bs \<longrightarrow> disk_read d' identity_path = Some bs)
    \<and> prefix (log_file d) (log_file d')"

interpretation secure: key_relation secured "{identity_path, entries_path}"
proof
  fix p bs d d'
  assume w: "disk_write p bs d = Ok d'" and "p \<notin> {identity_path, entries_path}"
  then show "secured d d'" by (auto simp: secured_def log_file_def disk_read_write [OF w])
next
  fix bs d d'
  assume "disk_append entries_path bs d = Ok d'"
  then show "secured d d'"
    by (auto simp: secured_def log_file_def disk_append_def disk_read_write path_defs)
next
  fix bs d d'
  assume w: "disk_write identity_path bs d = Ok d'" and "\<not> has_identity d"
  then show "secured d d'"
    by (auto simp: secured_def log_file_def disk_read_write [OF w] has_identity_def disk_exists_def path_defs)
qed (auto simp: secured_def log_file_def mkdir_reads intro: prefix_order.trans)

text \<open>The entries of a log file that grew are the old ones and then new ones.\<close>

lemma split_entries_prefix: "prefix a b \<Longrightarrow> prefix (split_entries a) (split_entries b)"
proof (induction a arbitrary: b rule: split_entries.induct)
  case (1 a)
  then obtain c where b: "b = a @ c" by (auto simp: prefix_def)
  let ?len = "unat (u32_of_be (take 4 a))"
  show ?case
  proof (cases "length a < 4 \<or> ?len > length (drop 4 a)")
    case True
    then show ?thesis by (subst split_entries.simps) (auto simp: Let_def)
  next
    case False
    then have "prefix (split_entries (drop ?len (drop 4 a))) (split_entries (drop ?len (drop 4 b)))"
      using False b by (intro "1.IH" [OF _ refl refl]) (simp_all add: prefix_def)
    moreover have "split_entries a = take ?len (drop 4 a) # split_entries (drop ?len (drop 4 a))"
      "split_entries b = take ?len (drop 4 a) # split_entries (drop ?len (drop 4 b))"
      using False b by (auto simp: split_entries.simps [of a] split_entries.simps [of "a @ c"] Let_def)
    ultimately show ?thesis by simp
  qed
qed

lemma secured_log: "secured d d' \<Longrightarrow> prefix (log_entries d) (log_entries d')"
proof -
  have "log_entries x = split_entries (log_file x)" for x
    by (cases "disk_read x entries_path") (simp_all add: log_entries_def log_file_def split_entries_Nil)
  then show "secured d d' \<Longrightarrow> ?thesis" using split_entries_prefix by (simp add: secured_def)
qed

end
