(* ===== verification/P2p.thy ===== *)
theory P2p
  imports Net Address "HOL-Library.Multiset"
begin

text \<open>
  The libp2p transport of \<open>crates/p2p/src/lib.rs\<close>: the message codec, the request handler, the
  event loops of the servers and clients, and the lookup that hides its target. The swarm is
  third-party: what it reports are the events of a list, what the program asks of it are
  calls that are recorded in order, and which of its fallible calls fail and which identifiers
  it gives to requests are the fields of the record \<open>swarm\<close>. A server loop is the fold of its
  handler over the events so far. A client loop runs over the events that happen before
  its deadline, so that the end of the list is the timeout.
\<close>

section \<open>The swarm\<close>

definition DROP_PROTOCOL :: string where "DROP_PROTOCOL = ''/keepstone/drop/1''"

definition cell_topic :: "string \<Rightarrow> string" where
  "cell_topic cell = ''keepstone/drops/v1/cell/'' @ cell"

datatype p2p_error =
    Transport string
  | ConnectionFailed
  | ProtocolError
  | Timeout

type_synonym multiaddr = string
type_synonym peer_id = string

datatype swarm_event =
    NewListenAddr multiaddr
  | ConnectionEstablished peer_id
  | OutgoingConnectionError
  | IdentifyReceived peer_id "multiaddr list"
  | DropRequest Message nat
  | DropResponse nat Message
  | GossipMessage bytes
  | FoundProviders "peer_id list"
  | OtherEvent

datatype swarm_call =
    ListenOn multiaddr
  | Dial multiaddr
  | SendRequest peer_id Message
  | SendResponse nat Message
  | Subscribe string
  | Publish string bytes
  | StartProviding bytes
  | Bootstrap
  | AddAddress peer_id multiaddr
  | GetProviders bytes

record swarm =
  sw_build :: "(unit, string) res"
  sw_listen_on :: "multiaddr \<Rightarrow> (unit, string) res"
  sw_dial :: "multiaddr \<Rightarrow> (unit, string) res"
  sw_subscribe :: "string \<Rightarrow> (unit, string) res"
  sw_publish :: "string \<Rightarrow> bytes \<Rightarrow> (unit, string) res"
  sw_request_id :: "nat \<Rightarrow> nat"

section \<open>The codec\<close>

text \<open>
  Reading until the end of the stream; the pieces are what the reads return, an empty one is
  the end, \<open>None\<close> an I/O error.
\<close>

fun read_until_end :: "bytes \<Rightarrow> bytes option list \<Rightarrow> (bytes, io_error) res" where
  "read_until_end got [] = Ok got"
| "read_until_end got (None # pieces) = Err ConnectionReset"
| "read_until_end got (Some chunk # pieces) =
    (if chunk = [] then Ok got
     else if length (got @ chunk) > MAX_FRAME then Err (InvalidData ''frame too large'')
     else read_until_end (got @ chunk) pieces)"

definition read_message :: "bytes option list \<Rightarrow> (Message, io_error) res" where
  "read_message pieces =
    and_then (read_until_end [] pieces) (\<lambda>got. map_err (\<lambda>_. InvalidData ''protocol'') (Message_decode got))"

text \<open>Writing sends the message and then closes the stream; \<open>close\<close> is the outcome of that.\<close>

definition write_message ::
    "(Stream \<Rightarrow> (unit, io_error) res \<times> Stream) \<Rightarrow> Message \<Rightarrow> Stream \<Rightarrow> (unit, io_error) res \<times> Stream" where
  "write_message close message st =
    (case stream_write_all (Message_encode message) st of (Ok _, st) \<Rightarrow> close st | failed \<Rightarrow> failed)"

text \<open>The codec of the request-response protocol reads and writes both directions alike.\<close>

definition codec_read_request :: "bytes option list \<Rightarrow> (Message, io_error) res" where
  "codec_read_request io = read_message io"

definition codec_read_response :: "bytes option list \<Rightarrow> (Message, io_error) res" where
  "codec_read_response io = read_message io"

definition codec_write_request ::
    "(Stream \<Rightarrow> (unit, io_error) res \<times> Stream) \<Rightarrow> Message \<Rightarrow> Stream \<Rightarrow> (unit, io_error) res \<times> Stream" where
  "codec_write_request close req = write_message close req"

definition codec_write_response ::
    "(Stream \<Rightarrow> (unit, io_error) res \<times> Stream) \<Rightarrow> Message \<Rightarrow> Stream \<Rightarrow> (unit, io_error) res \<times> Stream" where
  "codec_write_response close response = write_message close response"

section \<open>Serving\<close>

definition p2p_respond :: "SharedStore \<Rightarrow> Message \<Rightarrow> Message" where
  "p2p_respond s req =
    (case req of
       Want i \<Rightarrow>
         if ss_poisoned s then Missing i
         else (case get_drop (ss_store s) i of Some bs \<Rightarrow> Drop bs | None \<Rightarrow> Missing i)
     | WantChunk i index \<Rightarrow>
         if ss_poisoned s then Missing i
         else (case get_chunk (ss_store s) i index of Some bs \<Rightarrow> Chunk i index bs | None \<Rightarrow> Missing i)
     | other \<Rightarrow> other)"

text \<open>A server: its store, whether \<open>ready\<close> is still to be told, what it was told, and the calls.\<close>

record Server =
  sv_store :: SharedStore
  sv_ready :: bool
  sv_told :: "multiaddr list"
  sv_calls :: "swarm_call list"

definition call :: "swarm_call \<Rightarrow> Server \<Rightarrow> Server" where
  "call c sv = sv\<lparr>sv_calls := sv_calls sv @ [c]\<rparr>"

definition tell_ready :: "multiaddr \<Rightarrow> Server \<Rightarrow> Server" where
  "tell_ready address sv = (if sv_ready sv then sv\<lparr>sv_ready := False, sv_told := sv_told sv @ [address]\<rparr> else sv)"

fun serve_event :: "swarm_event \<Rightarrow> Server \<Rightarrow> Server" where
  "serve_event (NewListenAddr address) sv = tell_ready address sv"
| "serve_event (DropRequest req channel) sv = call (SendResponse channel (p2p_respond (sv_store sv) req)) sv"
| "serve_event _ sv = sv"

definition serve_with_ready ::
    "swarm \<Rightarrow> multiaddr \<Rightarrow> SharedStore \<Rightarrow> bool \<Rightarrow> swarm_event list \<Rightarrow> (Server, p2p_error) res" where
  "serve_with_ready sw listen s ready events =
    and_then (map_err Transport (sw_build sw)) (\<lambda>_.
    and_then (map_err Transport (sw_listen_on sw listen)) (\<lambda>_.
    Ok (fold serve_event events
      \<lparr>sv_store = s, sv_ready = ready, sv_told = [], sv_calls = [ListenOn listen]\<rparr>)))"

definition p2p_serve :: "swarm \<Rightarrow> multiaddr \<Rightarrow> SharedStore \<Rightarrow> swarm_event list \<Rightarrow> (Server, p2p_error) res" where
  "p2p_serve sw listen s events = serve_with_ready sw listen s False events"

text \<open>The loop of \<open>serve_cells\<close>; a store with a poisoned lock is left as it is.\<close>

definition store_gossip :: "crypto \<Rightarrow> bytes \<Rightarrow> SharedStore \<Rightarrow> SharedStore" where
  "store_gossip C data s =
    (case SignedDrop_decode data of
       Ok sd \<Rightarrow>
         if is_ok (SignedDrop_verify C sd) \<and> \<not> ss_poisoned s
         then s\<lparr>ss_store := put_drop (SignedDrop_id C sd) data (ss_store s)\<rparr> else s
     | _ \<Rightarrow> s)"

fun serve_cells_event :: "crypto \<Rightarrow> swarm_event \<Rightarrow> Server \<Rightarrow> Server" where
  "serve_cells_event C (NewListenAddr address) sv = tell_ready address sv"
| "serve_cells_event C (ConnectionEstablished peer) sv = call Bootstrap sv"
| "serve_cells_event C (IdentifyReceived peer addrs) sv =
    call Bootstrap (fold (\<lambda>addr. call (AddAddress peer addr)) addrs sv)"
| "serve_cells_event C (DropRequest req channel) sv =
    call (SendResponse channel (p2p_respond (sv_store sv) req)) sv"
| "serve_cells_event C (GossipMessage data) sv = sv\<lparr>sv_store := store_gossip C data (sv_store sv)\<rparr>"
| "serve_cells_event C _ sv = sv"

fun subscribe_cells :: "swarm \<Rightarrow> string list \<Rightarrow> swarm_call list \<Rightarrow> (swarm_call list, p2p_error) res" where
  "subscribe_cells sw [] calls = Ok calls"
| "subscribe_cells sw (cell # cells) calls =
    and_then (map_err Transport (sw_subscribe sw (cell_topic cell))) (\<lambda>_.
    subscribe_cells sw cells (calls @ [Subscribe (cell_topic cell), StartProviding (str_bytes cell)]))"

definition serve_cells ::
    "swarm \<Rightarrow> crypto \<Rightarrow> multiaddr \<Rightarrow> SharedStore \<Rightarrow> string list \<Rightarrow> bool \<Rightarrow> swarm_event list
      \<Rightarrow> (Server, p2p_error) res" where
  "serve_cells sw C listen s cells ready events =
    and_then (map_err Transport (sw_build sw)) (\<lambda>_.
    and_then (subscribe_cells sw cells []) (\<lambda>calls.
    and_then (map_err Transport (sw_listen_on sw listen)) (\<lambda>_.
    Ok (fold (serve_cells_event C) events
      \<lparr>sv_store = s, sv_ready = ready, sv_told = [], sv_calls = calls @ [ListenOn listen]\<rparr>))))"

text \<open>The loop of \<open>serve_witness_cell\<close>, over the readings of the clock; \<open>None\<close> once it has panicked.\<close>

record Witness_Server =
  ws_clock :: "u64 option list"
  ws_ready :: bool
  ws_told :: "multiaddr list"
  ws_calls :: "swarm_call list"

definition witness_reply :: "crypto \<Rightarrow> Identity \<Rightarrow> string \<Rightarrow> Message \<Rightarrow> u64 option list \<Rightarrow> (Message \<times> u64 option list) option" where
  "witness_reply C witness cell req clock =
    (case req of
       Presence bs \<Rightarrow>
         (case PresenceRequest_from_canonical bs of
            Ok presence \<Rightarrow>
              if pr_cell presence = cell then
                let (reading, clock) = next_reading clock in
                Some (Attestation (PresenceAttestation_to_canonical
                  (PresenceAttestation_sign C witness presence 0 (SystemClock_now_unix reading))), clock)
              else Some (Bye, clock)
          | Err _ \<Rightarrow> Some (Bye, clock)
          | Panic \<Rightarrow> None)
     | other \<Rightarrow> Some (other, clock))"

fun serve_witness_event :: "crypto \<Rightarrow> Identity \<Rightarrow> string \<Rightarrow> swarm_event \<Rightarrow> Witness_Server \<Rightarrow> Witness_Server option" where
  "serve_witness_event C witness cell (NewListenAddr address) ws =
    Some (if ws_ready ws then ws\<lparr>ws_ready := False, ws_told := ws_told ws @ [address]\<rparr> else ws)"
| "serve_witness_event C witness cell (DropRequest req channel) ws =
    map_option (\<lambda>(response, clock). ws\<lparr>ws_clock := clock, ws_calls := ws_calls ws @ [SendResponse channel response]\<rparr>)
      (witness_reply C witness cell req (ws_clock ws))"
| "serve_witness_event C witness cell _ ws = Some ws"

definition serve_witness_cell ::
    "swarm \<Rightarrow> crypto \<Rightarrow> multiaddr \<Rightarrow> Identity \<Rightarrow> string \<Rightarrow> bool \<Rightarrow> u64 option list \<Rightarrow> swarm_event list
      \<Rightarrow> (Witness_Server option, p2p_error) res" where
  "serve_witness_cell sw C listen witness cell ready clock events =
    and_then (map_err Transport (sw_build sw)) (\<lambda>_.
    and_then (map_err Transport (sw_listen_on sw listen)) (\<lambda>_.
    Ok (foldl (\<lambda>ws e. Option.bind ws (serve_witness_event C witness cell e))
      (Some \<lparr>ws_clock = clock, ws_ready = ready, ws_told = [], ws_calls = [ListenOn listen]\<rparr>) events)))"

section \<open>Clients\<close>

text \<open>The loop of \<open>request\<close>: the number of requests sent, the one a response is awaited for.\<close>

fun await_response ::
    "swarm \<Rightarrow> Message \<Rightarrow> nat \<Rightarrow> nat option \<Rightarrow> swarm_call list \<Rightarrow> swarm_event list
      \<Rightarrow> (Message, p2p_error) res \<times> swarm_call list" where
  "await_response sw req n sent calls [] = (Err Timeout, calls)"
| "await_response sw req n sent calls (ConnectionEstablished peer # events) =
    await_response sw req (Suc n) (Some (sw_request_id sw n)) (calls @ [SendRequest peer req]) events"
| "await_response sw req n sent calls (DropResponse request_id response # events) =
    (if Some request_id = sent then (Ok response, calls)
     else await_response sw req n sent calls events)"
| "await_response sw req n sent calls (OutgoingConnectionError # events) = (Err ConnectionFailed, calls)"
| "await_response sw req n sent calls (_ # events) = await_response sw req n sent calls events"

definition p2p_request ::
    "swarm \<Rightarrow> multiaddr \<Rightarrow> Message \<Rightarrow> swarm_event list \<Rightarrow> (Message, p2p_error) res \<times> swarm_call list" where
  "p2p_request sw addr req events =
    (case and_then (map_err Transport (sw_build sw)) (\<lambda>_. map_err Transport (sw_dial sw addr)) of
       Ok _ \<Rightarrow> await_response sw req 0 None [Dial addr] events
     | Err e \<Rightarrow> (Err e, [])
     | Panic \<Rightarrow> (Panic, []))"

definition fetch_drop :: "swarm \<Rightarrow> multiaddr \<Rightarrow> DropId \<Rightarrow> swarm_event list \<Rightarrow> (bytes option, p2p_error) res" where
  "fetch_drop sw addr i events =
    and_then (fst (p2p_request sw addr (Want i) events)) (\<lambda>reply.
    case reply of Drop bs \<Rightarrow> Ok (Some bs) | Missing _ \<Rightarrow> Ok None | _ \<Rightarrow> Err ProtocolError)"

definition p2p_fetch_chunk ::
    "swarm \<Rightarrow> multiaddr \<Rightarrow> DropId \<Rightarrow> u32 \<Rightarrow> swarm_event list \<Rightarrow> (bytes option, p2p_error) res" where
  "p2p_fetch_chunk sw addr i index events =
    and_then (fst (p2p_request sw addr (WantChunk i index) events)) (\<lambda>reply.
    case reply of Chunk _ _ bs \<Rightarrow> Ok (Some bs) | Missing _ \<Rightarrow> Ok None | _ \<Rightarrow> Err ProtocolError)"

definition p2p_request_presence ::
    "swarm \<Rightarrow> multiaddr \<Rightarrow> PresenceRequest \<Rightarrow> swarm_event list \<Rightarrow> (PresenceAttestation option, p2p_error) res" where
  "p2p_request_presence sw addr presence events =
    and_then (fst (p2p_request sw addr (Presence (PresenceRequest_to_canonical presence)) events)) (\<lambda>reply.
    case reply of
      Attestation bs \<Rightarrow>
        (case PresenceAttestation_from_canonical bs of Ok a \<Rightarrow> Ok (Some a) | Err _ \<Rightarrow> Ok None | Panic \<Rightarrow> Panic)
    | _ \<Rightarrow> Ok None)"

text \<open>
  The loop of \<open>find_providers\<close>: every identified peer is added to the routing table, the first
  one also starts the query, and an empty answer is waited past.
\<close>

fun await_providers ::
    "bytes \<Rightarrow> bool \<Rightarrow> swarm_call list \<Rightarrow> swarm_event list \<Rightarrow> peer_id list \<times> swarm_call list" where
  "await_providers key queried calls [] = ([], calls)"
| "await_providers key queried calls (ConnectionEstablished peer # events) =
    await_providers key queried (calls @ [Bootstrap]) events"
| "await_providers key queried calls (IdentifyReceived peer addrs # events) =
    await_providers key True
      (calls @ map (AddAddress peer) addrs @ [Bootstrap] @ (if queried then [] else [GetProviders key])) events"
| "await_providers key queried calls (FoundProviders providers # events) =
    (if providers \<noteq> [] then (providers, calls) else await_providers key queried calls events)"
| "await_providers key queried calls (_ # events) = await_providers key queried calls events"

definition find_providers ::
    "swarm \<Rightarrow> multiaddr \<Rightarrow> string \<Rightarrow> swarm_event list \<Rightarrow> (peer_id list, p2p_error) res \<times> swarm_call list" where
  "find_providers sw peer cell events =
    (case and_then (map_err Transport (sw_build sw)) (\<lambda>_. map_err Transport (sw_dial sw peer)) of
       Ok _ \<Rightarrow> map_prod Ok id (await_providers (str_bytes cell) False [Dial peer] events)
     | Err e \<Rightarrow> (Err e, [])
     | Panic \<Rightarrow> (Panic, []))"

text \<open>
  \<open>gossip_publish\<close> waits for a connection without a deadline: \<open>None\<close> when none is ever made.
  \<open>settle\<close> only lets the swarm work for a while.
\<close>

definition gossip_publish ::
    "swarm \<Rightarrow> multiaddr \<Rightarrow> string \<Rightarrow> bytes \<Rightarrow> swarm_event list \<Rightarrow> ((unit, p2p_error) res \<times> swarm_call list) option" where
  "gossip_publish sw peer cell payload events =
    (let topic = cell_topic cell in
     case and_then (map_err Transport (sw_build sw)) (\<lambda>_. map_err Transport (sw_subscribe sw topic)) of
       Err e \<Rightarrow> Some (Err e, [])
     | Panic \<Rightarrow> Some (Panic, [])
     | Ok _ \<Rightarrow>
         (case map_err Transport (sw_dial sw peer) of
            Err e \<Rightarrow> Some (Err e, [Subscribe topic])
          | Panic \<Rightarrow> Some (Panic, [Subscribe topic])
          | Ok _ \<Rightarrow>
              if list_ex (\<lambda>e. case e of ConnectionEstablished _ \<Rightarrow> True | _ \<Rightarrow> False) events
              then Some (map_err (\<lambda>e. Transport (''publish: '' @ e)) (sw_publish sw topic payload),
                [Subscribe topic, Dial peer, Publish topic payload])
              else None))"

section \<open>Private lookups\<close>

definition nearby_cells :: "('f, 'l, 'r, 'c) h3 \<Rightarrow> string \<Rightarrow> u32 \<Rightarrow> (string list, p2p_error) res" where
  "nearby_cells A cell ring =
    and_then (map_err (\<lambda>_. ProtocolError) (CellId_parse_hex A cell)) (\<lambda>center.
    Ok (map (CellId_to_hex A) (CellId_ring A center ring)))"

text \<open>
  All lookups are started, in the order of the shuffled cells; \<open>finish\<close> is the order in which
  they end. The result also lists the cells that were asked for.
\<close>

fun first_target :: "string \<Rightarrow> (string \<Rightarrow> peer_id list) \<Rightarrow> string list \<Rightarrow> peer_id list" where
  "first_target cell found [] = []"
| "first_target cell found (candidate # rest) =
    (if candidate = cell then found candidate else first_target cell found rest)"

definition find_providers_private ::
    "('f, 'l, 'r, 'c) h3 \<Rightarrow> (string list \<Rightarrow> string list) \<Rightarrow> (string list \<Rightarrow> string list)
      \<Rightarrow> (string \<Rightarrow> (peer_id list, p2p_error) res) \<Rightarrow> string \<Rightarrow> u32 \<Rightarrow> (peer_id list, p2p_error) res \<times> string list" where
  "find_providers_private A shuffle finish lookup cell ring =
    (case nearby_cells A cell ring of
       Err e \<Rightarrow> (Err e, [])
     | Panic \<Rightarrow> (Panic, [])
     | Ok cells \<Rightarrow>
         let cells = shuffle cells;
             found = (\<lambda>candidate. case lookup candidate of Ok providers \<Rightarrow> providers | _ \<Rightarrow> [])
         in (Ok (first_target cell found (finish cells)), cells))"

section \<open>Messages in pieces\<close>

lemma read_until_end_pieces:
  "\<forall>c \<in> set chunks. c \<noteq> [] \<Longrightarrow> length (got @ concat chunks) \<le> MAX_FRAME \<Longrightarrow>
    read_until_end got (map Some chunks) = Ok (got @ concat chunks)"
  by (induction chunks arbitrary: got) simp_all

lemma read_message_pieces:
  assumes "\<forall>c \<in> set chunks. c \<noteq> []" "concat chunks = Message_encode m" "fits m" "message_wf m"
  shows "read_message (map Some chunks) = Ok m"
proof -
  have "length (message_payload m) + 32 \<le> usize_max"
    using assms(3) payload_le_encode [of m] by (simp add: fits_def MAX_FRAME_def usize_max_def)
  then show ?thesis
    using read_until_end_pieces [of chunks "[]"] assms message_roundtrip [of m] by (simp add: read_message_def fits_def)
qed

section \<open>The abstract server of a cell\<close>

text \<open>
  Two maps, as in the abstract relay: gossip adds valid envelopes under their hash, a request
  for something held returns it, and every other message is sent back.
\<close>

fun cell_answer :: "relay_state \<Rightarrow> Message \<Rightarrow> Message" where
  "cell_answer (drops, chunks) (Want i) = (case drops i of Some raw \<Rightarrow> Drop raw | None \<Rightarrow> Missing i)"
| "cell_answer (drops, chunks) (WantChunk i n) = (case chunks (i, n) of Some data \<Rightarrow> Chunk i n data | None \<Rightarrow> Missing i)"
| "cell_answer st m = m"

fun cell_answers :: "crypto \<Rightarrow> swarm_event list \<Rightarrow> relay_state \<Rightarrow> (nat \<times> Message) list \<times> relay_state" where
  "cell_answers C [] st = ([], st)"
| "cell_answers C (DropRequest req channel # events) st =
    (let (answers, st') = cell_answers C events st in ((channel, cell_answer st req) # answers, st'))"
| "cell_answers C (GossipMessage data # events) (drops, chunks) =
    cell_answers C events (if valid_envelope C data then drops(DropId_of C data \<mapsto> data) else drops, chunks)"
| "cell_answers C (_ # events) st = cell_answers C events st"

definition responses :: "swarm_call list \<Rightarrow> (nat \<times> Message) list" where
  "responses calls = List.map_filter (\<lambda>c. case c of SendResponse channel m \<Rightarrow> Some (channel, m) | _ \<Rightarrow> None) calls"

lemma responses_simps [simp]:
  "responses [] = []" "responses (as @ bs) = responses as @ responses bs"
  "responses [SendResponse channel m] = [(channel, m)]" "responses [Bootstrap] = []" "responses [AddAddress p a] = []"
  by (simp_all add: responses_def List.map_filter_def)

lemma p2p_respond_abs: "\<not> ss_poisoned s \<Longrightarrow> p2p_respond s req = cell_answer (abs_relay s) req"
  by (cases req) (simp_all add: p2p_respond_def abs_relay_def)

lemma store_gossip_valid:
  "store_gossip C data s =
    (if valid_envelope C data \<and> \<not> ss_poisoned s then s\<lparr>ss_store := put_drop (DropId_of C data) data (ss_store s)\<rparr> else s)"
  by (auto simp: store_gossip_def valid_envelope_def SignedDrop_id_def SignedDrop_decode_raw split: res.splits)

lemma fold_add_address:
  "sv_store (fold (\<lambda>addr. call (AddAddress peer addr)) addrs sv) = sv_store sv
    \<and> responses (sv_calls (fold (\<lambda>addr. call (AddAddress peer addr)) addrs sv)) = responses (sv_calls sv)"
  by (induction addrs arbitrary: sv) (simp_all add: call_def)

lemma abs_relay_put_drop:
  "abs_relay (s\<lparr>ss_store := put_drop i raw (ss_store s)\<rparr>) = ((fst (abs_relay s))(i \<mapsto> raw), snd (abs_relay s))"
  by (auto simp: abs_relay_def memory.getd_putd memory.get_putd fun_eq_iff)

text \<open>One event, concretely and abstractly; the lock is never poisoned by the loop itself.\<close>

lemma serve_cells_step:
  fixes C e
  assumes "\<not> ss_poisoned (sv_store sv)"
  defines "sv' \<equiv> serve_cells_event C e sv"
  shows "\<not> ss_poisoned (sv_store sv')"
    and "responses (sv_calls sv') = responses (sv_calls sv) @ fst (cell_answers C [e] (abs_relay (sv_store sv)))"
    and "abs_relay (sv_store sv') = snd (cell_answers C [e] (abs_relay (sv_store sv)))"
proof -
  obtain drops chunks where a: "abs_relay (sv_store sv) = (drops, chunks)" by (cases "abs_relay (sv_store sv)")
  show "\<not> ss_poisoned (sv_store sv')"
    using assms(1) fold_add_address by (cases e) (simp_all add: sv'_def tell_ready_def call_def store_gossip_valid)
  show "responses (sv_calls sv') = responses (sv_calls sv) @ fst (cell_answers C [e] (abs_relay (sv_store sv)))"
    using assms(1) fold_add_address a
    by (cases e) (simp_all add: sv'_def tell_ready_def call_def p2p_respond_abs)
  show "abs_relay (sv_store sv') = snd (cell_answers C [e] (abs_relay (sv_store sv)))"
    using assms(1) fold_add_address a
    by (cases e) (simp_all add: sv'_def tell_ready_def call_def store_gossip_valid abs_relay_put_drop)
qed

lemma cell_answers_Cons:
  "cell_answers C (e # events) st =
    (let (answers, st') = cell_answers C [e] st; (more, st'') = cell_answers C events st' in (answers @ more, st''))"
  by (cases st; cases e) (simp_all add: case_prod_beta Let_def)

lemma serve_cells_run:
  assumes "\<not> ss_poisoned (sv_store sv)"
  shows "let sv' = fold (serve_cells_event C) events sv in
    responses (sv_calls sv') = responses (sv_calls sv) @ fst (cell_answers C events (abs_relay (sv_store sv)))
    \<and> abs_relay (sv_store sv') = snd (cell_answers C events (abs_relay (sv_store sv)))"
  using assms
proof (induction events arbitrary: sv)
  case (Cons e events)
  note step = serve_cells_step [OF Cons.prems, of C e]
  from Cons.IH [OF step(1)] show ?case
    by (subst (1 2) cell_answers_Cons) (simp add: step(2,3) case_prod_beta Let_def)
qed simp

lemma subscribe_cells_responses: "subscribe_cells sw cells calls = Ok calls' \<Longrightarrow> responses calls' = responses calls"
  by (induction cells arbitrary: calls) (auto simp: responses_def List.map_filter_def)

lemma cell_answers_gossip:
  "fst (snd (cell_answers C events st)) i = Some raw \<Longrightarrow>
    fst st i = Some raw \<or> GossipMessage raw \<in> set events \<and> valid_envelope C raw \<and> i = DropId_of C raw"
proof (induction C events st rule: cell_answers.induct)
  case (3 C data events drops chunks)
  then show ?case by (auto split: if_splits)
qed (auto simp: case_prod_beta)

section \<open>Properties\<close>

text \<open>
  C32. A node that serves cells implements the abstract server. Whatever events the swarm
  reports, the responses it sends and the store it reaches are those of the two maps, and
  every drop it holds that was not there at the start came as gossip, decodes with a valid
  signature and is filed under its hash.
\<close>

theorem serve_cells_refines:
  assumes "serve_cells sw C listen s cells ready events = Ok sv" and "\<not> ss_poisoned s"
  shows "(responses (sv_calls sv), abs_relay (sv_store sv)) = cell_answers C events (abs_relay s)
    \<and> (\<forall>i raw. get_drop (ss_store (sv_store sv)) i = Some raw \<longrightarrow>
        get_drop (ss_store s) i = Some raw
        \<or> GossipMessage raw \<in> set events \<and> valid_envelope C raw \<and> i = DropId_of C raw)"
proof -
  obtain calls where c: "subscribe_cells sw cells [] = Ok calls"
    and sv: "sv = fold (serve_cells_event C) events
      \<lparr>sv_store = s, sv_ready = ready, sv_told = [], sv_calls = calls @ [ListenOn listen]\<rparr>"
    using assms(1) by (auto simp: serve_cells_def)
  have "responses (calls @ [ListenOn listen]) = []"
    using subscribe_cells_responses [OF c] by (simp add: responses_def List.map_filter_def)
  then have run: "responses (sv_calls sv) = fst (cell_answers C events (abs_relay s))"
    "abs_relay (sv_store sv) = snd (cell_answers C events (abs_relay s))"
    using serve_cells_run [of "\<lparr>sv_store = s, sv_ready = ready, sv_told = [], sv_calls = calls @ [ListenOn listen]\<rparr>" C events]
      assms(2) sv by (simp_all add: Let_def)
  have "get_drop (ss_store t) = fst (abs_relay t)" for t by (simp add: abs_relay_def fun_eq_iff)
  with cell_answers_gossip [of C events "abs_relay s"] run show ?thesis by (auto simp: prod_eq_iff)
qed

text \<open>Events a client passes over while it waits for the response \<open>k\<close> on the only connection.\<close>

fun passed_over :: "nat option \<Rightarrow> swarm_event \<Rightarrow> bool" where
  "passed_over k (ConnectionEstablished _) = False"
| "passed_over k OutgoingConnectionError = False"
| "passed_over k (DropResponse j _) = (Some j \<noteq> k)"
| "passed_over k _ = True"

lemma await_response_skip:
  "list_all (passed_over sent) noise \<Longrightarrow>
    await_response sw req n sent calls (noise @ events) = await_response sw req n sent calls events"
proof (induction noise)
  case (Cons e noise)
  then show ?case by (cases e) simp_all
qed simp

lemma p2p_request_answered:
  assumes "sw_build sw = Ok ()" "sw_dial sw addr = Ok ()"
    and "list_all (passed_over None) before" "list_all (passed_over (Some (sw_request_id sw 0))) between"
  shows "p2p_request sw addr req (before @ ConnectionEstablished peer # between @ DropResponse (sw_request_id sw 0) m # later)
    = (Ok m, [Dial addr, SendRequest peer req])"
  using assms by (simp add: p2p_request_def await_response_skip)

text \<open>
  Fetching over libp2p. A request for a drop or a chunk reaches the serving node whole, however
  the stream cuts it; the response does too; and the client, whatever else the swarm reports
  before the response and between, returns exactly what the node holds, or nothing if it
  holds nothing.
\<close>

lemma p2p_fetch_served:
  assumes "relay_ok C s" and "\<not> ss_poisoned s" and "length (as_bytes i) = 32"
    and "sw_build sw = Ok ()" and "sw_dial sw addr = Ok ()"
    and "list_all (passed_over None) before" and "list_all (passed_over (Some (sw_request_id sw 0))) between"
    and "m \<in> {Want i, WantChunk i n}"
    and "\<forall>c \<in> set (there @ ret). c \<noteq> []" and "concat there = Message_encode m"
    and "concat ret = Message_encode (p2p_respond s m)"
  shows "codec_read_request (map Some there) = Ok m
    \<and> (\<exists>response. codec_read_response (map Some ret) = Ok response
      \<and> (let events = before @ ConnectionEstablished peer # between @ DropResponse (sw_request_id sw 0) response # later in
          (m = Want i \<longrightarrow> fetch_drop sw addr i events = Ok (get_drop (ss_store s) i))
          \<and> (m = WantChunk i n \<longrightarrow> p2p_fetch_chunk sw addr i n events = Ok (get_chunk (ss_store s) i n))))"
proof -
  have small: "fits (Want i)" "fits (WantChunk i n)" "fits (Missing i)" using assms(3) by (simp_all add: small_fits)
  have "fits (p2p_respond s m)" "message_wf (p2p_respond s m)"
    using assms(1-3,8) small by (auto simp: p2p_respond_def relay_ok_def split: option.splits)
  with read_message_pieces [of ret] assms(9,11) have ret: "read_message (map Some ret) = Ok (p2p_respond s m)" by simp
  have there: "read_message (map Some there) = Ok m" using read_message_pieces [of there m] assms(3,8-10) small by auto
  show ?thesis
    unfolding codec_read_request_def codec_read_response_def there ret using assms(2)
    by (auto simp: Let_def fetch_drop_def p2p_fetch_chunk_def p2p_request_answered [OF assms(4-7)] p2p_respond_def
        split: option.splits)
qed

text \<open>
  A witness attests a request for its own cell and no other; what it sends is its
  attestation of that request.
\<close>

lemma witness_reply_own_cell:
  assumes "request_wf r" "length (PresenceRequest_to_canonical r) \<le> usize_max"
  shows "\<exists>bs clock'. witness_reply C witness cell (Presence (PresenceRequest_to_canonical r)) clock
      = Some (if pr_cell r = cell then Attestation bs else Bye, clock')
    \<and> (pr_cell r = cell \<longrightarrow> (\<exists>t. bs = PresenceAttestation_to_canonical (PresenceAttestation_sign C witness r 0 t)))"
  using assms by (auto simp: witness_reply_def request_complete case_prod_beta Let_def)


section \<open>Witnesses\<close>

definition demo_swarm :: swarm where
  "demo_swarm = \<lparr>sw_build = Ok (), sw_listen_on = \<lambda>_. Ok (), sw_dial = \<lambda>_. Ok (), sw_subscribe = \<lambda>_. Ok (),
    sw_publish = \<lambda>_ _. Ok (), sw_request_id = \<lambda>n. n\<rparr>"

definition demo_id :: DropId where "demo_id = DropId (replicate 32 0)"

abbreviation empty_shared :: SharedStore where
  "empty_shared \<equiv> \<lparr>ss_poisoned = False, ss_store = MemoryStore_new\<rparr>"

theorem serve_cells_refines_witness:
  "\<exists>sv. serve_cells demo_swarm toy_crypto ''/a'' empty_shared [''1''] True
      [NewListenAddr ''/a'', GossipMessage [], DropRequest (Want demo_id) 7] = Ok sv
    \<and> responses (sv_calls sv) = [(7, Missing demo_id)]"
proof -
  let ?events = "[NewListenAddr ''/a'', GossipMessage [], DropRequest (Want demo_id) 7]"
  obtain sv where sv: "serve_cells demo_swarm toy_crypto ''/a'' empty_shared [''1''] True ?events = Ok sv"
    by (simp add: serve_cells_def demo_swarm_def)
  have "read_head (Decoder_new []) = Err (Cbor ''unexpected end'')" by (simp add: read_head_def read_u8_def Decoder_new_def)
  then have "\<not> is_ok (SignedDrop_decode [])" by (simp add: SignedDrop_decode_def Decoder_array_def Decoder_expect_def)
  then have "\<not> valid_envelope toy_crypto []" by (cases "SignedDrop_decode []") (simp_all add: valid_envelope_def)
  with serve_cells_refines [OF sv] sv show ?thesis
    by (simp add: abs_relay_def memory.getd_empty)
qed

lemma p2p_fetch_served_witness:
  "fetch_drop demo_swarm ''/a'' demo_id
     [OtherEvent, ConnectionEstablished ''p'', GossipMessage [], DropResponse 0 (Missing demo_id)] = Ok None"
proof -
  let ?there = "[Message_encode (Want demo_id)]" and ?ret = "[Message_encode (p2p_respond empty_shared (Want demo_id))]"
  have id: "length (as_bytes demo_id) = 32" by (simp add: demo_id_def)
  have ne: "Message_encode (Want demo_id) \<noteq> []" "Message_encode (Missing demo_id) \<noteq> []"
    using payload_le_encode [of "Want demo_id"] payload_le_encode [of "Missing demo_id"] id by auto
  have r: "p2p_respond empty_shared (Want demo_id) = Missing demo_id" by (simp add: p2p_respond_def memory.getd_empty)
  have "\<forall>c \<in> set (?there @ ?ret). c \<noteq> []" using ne by (simp add: r)
  moreover have "Missing demo_id = m" if "read_message (map Some ?ret) = Ok m" for m
    using read_message_pieces [of ?ret "Missing demo_id"] that ne id r by (simp add: small_fits)
  ultimately show ?thesis
    using p2p_fetch_served [where C = toy_crypto and s = empty_shared and sw = demo_swarm and addr = "''/a''" and i = demo_id
        and before = "[OtherEvent]" and between = "[GossipMessage []]" and m = "Want demo_id" and there = ?there and ret = ?ret
        and peer = "''p''" and later = "[]", OF relay_ok_new _ id]
    by (auto simp: demo_swarm_def Let_def memory.getd_empty codec_read_response_def)
qed


end
