(* ===== verification/Commands.thy ===== *)
theory Commands
  imports Frame Anchor P2p Http
begin

text \<open>
  The commands of \<open>crates/cli/src/main.rs\<close> on a data directory: identity, contacts, drops, the
  log and its anchors, and the exchange of drops with peers. A command is a step on a \<open>Console\<close>:
  the world of the store, the files of the machine outside the data directory, what was
  printed, and the state of the network as the peer functions see it. Those functions are
  arguments, so that the commands over TCP and over libp2p are instances of the same
  definitions. An error carries the outermost message of its \<open>anyhow\<close> chain.

  The external \<open>ots\<close> client is an argument too. Not represented: parsing of the command line
  (the crate \<open>clap\<close>) and names with path separators; a file named on the command line is
  outside the data directory.
\<close>

section \<open>The console\<close>

record 's Console =
  co_world :: World
  co_files :: Disk
  co_out :: bytes
  co_net :: 's

datatype cli_error =
    CliStore store_error
  | CliCore core_error
  | CliNet io_error
  | CliP2p p2p_error
  | CliJson string
  | CliInt
  | Bail string

type_synonym ('a, 's) command = "('a, cli_error, 's Console) act"

definition on_store :: "(store_error \<Rightarrow> cli_error) \<Rightarrow> 'a action \<Rightarrow> ('a, 's) command" where
  "on_store err m c = map_option (\<lambda>(r, w). (map_err err r, c\<lparr>co_world := w\<rparr>)) (m (co_world c))"

definition on_files :: "(store_error \<Rightarrow> cli_error) \<Rightarrow> (Disk \<Rightarrow> (Disk, store_error) res) \<Rightarrow> (unit, 's) command" where
  "on_files err f c =
    (case f (co_files c) of
       Ok d \<Rightarrow> Some (Ok (), c\<lparr>co_files := d\<rparr>)
     | Err e \<Rightarrow> Some (Err (err e), c)
     | Panic \<Rightarrow> Some (Panic, c))"

definition on_net :: "('s \<Rightarrow> ('a, cli_error) res \<times> 's) \<Rightarrow> ('a, 's) command" where
  "on_net f c = (let (r, n) = f (co_net c) in Some (r, c\<lparr>co_net := n\<rparr>))"

definition print_bytes :: "bytes \<Rightarrow> (unit, 's) command" where
  "print_bytes bs c = Some (Ok (), c\<lparr>co_out := co_out c @ bs\<rparr>)"

definition println :: "string \<Rightarrow> (unit, 's) command" where
  "println s = print_bytes (str_bytes (s @ newline))"

fun print_lines :: "string list \<Rightarrow> (unit, 's) command" where
  "print_lines [] = act_res (Ok ())"
| "print_lines (s # rest) = act_then (println s) (\<lambda>_. print_lines rest)"

definition bail :: "string \<Rightarrow> ('a, 's) command" where
  "bail message = act_res (Err (Bail message))"

definition path_text :: "path \<Rightarrow> string" where
  "path_text p = join_with (CHR ''/'') p"

definition cli_hex32 :: "hex_codec \<Rightarrow> string \<Rightarrow> (bytes, cli_error) res" where
  "cli_hex32 H s =
    and_then (ok_or (Bail ''decoding hex'') (hex_decode H (trim s))) (\<lambda>bs.
    if length bs = 32 then Ok bs else Err (Bail ''expected 32 bytes''))"

definition cli_id :: "hex_codec \<Rightarrow> string \<Rightarrow> (DropId, 's) command" where
  "cli_id H id_text = act_res (map_err CliCore (DropId_from_hex (hex_decode H) id_text))"

abbreviation id_hex :: "hex_codec \<Rightarrow> DropId \<Rightarrow> string" where
  "id_hex H i \<equiv> DropId_to_hex (hex_encode H) i"

lemma id_hex_parses: "hex_laws H \<Longrightarrow> length (as_bytes i) = 32 \<Longrightarrow> cli_id H (id_hex H i) c = Some (Ok i, c)"
  by (cases i) (simp add: cli_id_def act_res_def DropId_from_hex_def DropId_to_hex_def hex_laws_def)

section \<open>Identity and contacts\<close>

definition cmd_keygen :: "crypto \<Rightarrow> hex_codec \<Rightarrow> (unit, 's) command" where
  "cmd_keygen C H =
    act_then (on_store CliStore (keygen C H)) (\<lambda>identity.
    act_then (print_lines [''identity created'',
      ''  signing: '' @ hex_encode H (signing_public C identity),
      ''  ecdh:    '' @ hex_encode H (ecdh_public C identity)]) (\<lambda>_.
    act_then (on_store CliStore (hybrid_public_bytes C H)) (\<lambda>hybrid.
    println (''  hybrid:  '' @ hex_encode H hybrid))))"

definition print_id :: "crypto \<Rightarrow> hex_codec \<Rightarrow> (unit, 's) command" where
  "print_id C H =
    act_then (on_store CliStore (act_read (Store_identity H))) (\<lambda>identity.
    act_then (print_lines [
      ''signing: '' @ hex_encode H (signing_public C identity),
      ''ecdh:    '' @ hex_encode H (ecdh_public C identity)]) (\<lambda>_.
    act_then (on_store CliStore (hybrid_public_bytes C H)) (\<lambda>hybrid.
    println (''hybrid:  '' @ hex_encode H hybrid))))"

definition contact_add :: "hex_codec \<Rightarrow> string \<Rightarrow> string \<Rightarrow> string \<Rightarrow> string option \<Rightarrow> (unit, 's) command" where
  "contact_add H name signing_hex ecdh_hex hybrid =
    act_then (on_store CliStore (act_disk (add_contact H name signing_hex ecdh_hex hybrid))) (\<lambda>_.
    println (''contact `'' @ name @ ''` added''))"

definition load_contacts :: "hex_codec \<Rightarrow> (Contact list, 's) command" where
  "load_contacts H = on_store CliStore (act_read (Store_contacts H))"

text \<open>The names in the order they are first seen, and the lines printed for one of them.\<close>

definition first_seen :: "Contact list \<Rightarrow> string list" where
  "first_seen contacts = fold (\<lambda>c names. if ct_name c \<in> set names then names else names @ [ct_name c]) contacts []"

definition contact_lines :: "hex_codec \<Rightarrow> Contact list \<Rightarrow> string \<Rightarrow> string list" where
  "contact_lines H contacts name =
    (let own = filter (\<lambda>c. ct_name c = name) contacts;
         key = (case own of [] \<Rightarrow> replicate 32 0 | c # _ \<Rightarrow> ct_signing c) in
     (name @ newline @ ''  signing: '' @ hex_encode H key)
     # concat (map (\<lambda>c. (''  device:  '' @ hex_encode H (ct_ecdh c))
         # (case ct_hybrid c of Some bs \<Rightarrow> [''    hybrid: '' @ hex_encode H bs] | None \<Rightarrow> [])) own))"

definition contact_list :: "hex_codec \<Rightarrow> (unit, 's) command" where
  "contact_list H =
    act_then (load_contacts H) (\<lambda>contacts.
    if contacts = [] then println ''(no contacts)''
    else print_lines (concat (map (contact_lines H contacts) (first_seen contacts))))"

section \<open>Drops\<close>

definition drop_create ::
    "crypto \<Rightarrow> hex_codec \<Rightarrow> ('f, 'l, 'r, 'c) h3 \<Rightarrow> (WrappedKey list \<Rightarrow> rng \<Rightarrow> WrappedKey list \<times> rng)
      \<Rightarrow> string list \<Rightarrow> 'f \<Rightarrow> 'f \<Rightarrow> u8 \<Rightarrow> u32 \<Rightarrow> string option \<Rightarrow> path option \<Rightarrow> u64 \<Rightarrow> string \<Rightarrow> (CreatedDrop, 's) command" where
  "drop_create C H A shuffle to lat lng res ring message payload ttl suite =
    act_then
      (case (message, payload) of
         (Some text', None) \<Rightarrow> act_res (Ok (str_bytes text'))
       | (None, Some p) \<Rightarrow>
           (\<lambda>c. act_res (ok_or (Bail (''reading payload '' @ path_text p)) (disk_read (co_files c) p)) c)
       | (None, None) \<Rightarrow> bail ''provide --message or --file''
       | (Some _, Some _) \<Rightarrow> bail ''provide only one of --message or --file'') (\<lambda>plaintext.
    on_store CliStore (create_drop C H A shuffle to lat lng res ring ttl suite plaintext))"

definition cmd_drop_create ::
    "crypto \<Rightarrow> hex_codec \<Rightarrow> ('f, 'l, 'r, 'c) h3 \<Rightarrow> (WrappedKey list \<Rightarrow> rng \<Rightarrow> WrappedKey list \<times> rng)
      \<Rightarrow> string list \<Rightarrow> 'f \<Rightarrow> 'f \<Rightarrow> u8 \<Rightarrow> u32 \<Rightarrow> string option \<Rightarrow> path option \<Rightarrow> u64 \<Rightarrow> string \<Rightarrow> (unit, 's) command" where
  "cmd_drop_create C H A shuffle to lat lng res ring message payload ttl suite =
    act_then (drop_create C H A shuffle to lat lng res ring message payload ttl suite) (\<lambda>created.
    print_lines [''drop created'', ''  id:      '' @ id_hex H (cd_id created), ''  cell:    '' @ cd_cell created,
      ''  chunks:  '' @ decimal (unat (cd_chunks created)), ''  bytes:   '' @ decimal (cd_bytes created)])"

definition drop_open :: "crypto \<Rightarrow> hex_codec \<Rightarrow> string \<Rightarrow> path option \<Rightarrow> (unit, 's) command" where
  "drop_open C H id_text out =
    act_then (cli_id H id_text) (\<lambda>i.
    act_then (on_store (\<lambda>_. Bail (''opening '' @ id_text)) (act_read (\<lambda>d. open_drop C H d i))) (\<lambda>plaintext.
    case out of
      Some p \<Rightarrow>
        act_then (on_files (\<lambda>_. Bail (''writing '' @ path_text p)) (disk_write p plaintext)) (\<lambda>_.
        println (''wrote '' @ decimal (length plaintext) @ '' bytes to '' @ path_text p))
    | None \<Rightarrow> act_then (print_bytes plaintext) (\<lambda>_. println [])))"

definition summary_line :: "hex_codec \<Rightarrow> DropSummary \<Rightarrow> string" where
  "summary_line H s =
    (let expiry = (if ds_expiry s = 0 then ''never'' else decimal (unat (ds_expiry s))) in
     id_hex H (ds_id s) @ ''  cell='' @ ds_cell s @ '' ring='' @ decimal (unat (ds_ring s))
       @ '' chunks='' @ decimal (unat (ds_chunks s)) @ '' created='' @ decimal (unat (ds_created s)) @ '' expiry='' @ expiry)"

definition drop_list ::
    "crypto \<Rightarrow> hex_codec \<Rightarrow> ('f, 'l, 'r, 'c) h3 \<Rightarrow> 'f option \<Rightarrow> 'f option \<Rightarrow> u32 \<Rightarrow> (unit, 's) command" where
  "drop_list C H A lat lng ring =
    (let near = Option.bind lat (\<lambda>a. map_option (\<lambda>b. (a, b)) lng) in
     act_then (on_store CliStore (act_read (\<lambda>d. list_drops C A d near ring))) (\<lambda>drops.
     if drops = [] then println ''(no drops)'' else print_lines (map (summary_line H) drops)))"

section \<open>The log and its anchors\<close>

definition sig_kind_text :: "u8 \<Rightarrow> string" where
  "sig_kind_text kind = (if kind = SIG_HYBRID then ''hybrid (Ed25519 + ML-DSA-65)'' else ''Ed25519'')"

definition ok_text :: "bool \<Rightarrow> string" where
  "ok_text b = (if b then ''ok'' else ''FAILED'')"

definition log_verify :: "crypto \<Rightarrow> hex_codec \<Rightarrow> string \<Rightarrow> (unit, 's) command" where
  "log_verify C H id_text =
    act_then (cli_id H id_text) (\<lambda>i.
    act_then (on_store (\<lambda>_. Bail (''verifying '' @ id_text)) (Store_verify C H i)) (\<lambda>v.
    act_then (print_lines [
      ''signature:   '' @ ok_text (vf_signature v) @ '' ('' @ sig_kind_text (vf_sig_kind v) @ '')'',
      ''inclusion:   '' @ ok_text (vf_inclusion v), ''tree size:   '' @ decimal (vf_tree_size v),
      ''leaf index:  '' @ decimal (vf_leaf_index v), ''merkle root: '' @ hex_encode H (vf_root v),
      ''sth:         '' @ ok_text (vf_sth v)]) (\<lambda>_.
    if \<not> vf_signature v \<or> \<not> vf_inclusion v \<or> \<not> vf_sth v then bail ''verification failed''
    else act_res (Ok ()))))"

definition anchors_path :: path where "anchors_path = log_dir @ [''anchors.txt'']"

definition parse_u64 :: "string \<Rightarrow> u64 option" where
  "parse_u64 s = map_option of_nat (from_str_radix 10 u64_max s)"

text \<open>One line of the anchor file: nothing if it has fewer than five words.\<close>

definition parse_receipt :: "hex_codec \<Rightarrow> string \<Rightarrow> (AnchorReceipt option, cli_error) res" where
  "parse_receipt H line =
    (case split_whitespace line of
       size' # root # stamp # previous # link # _ \<Rightarrow>
         and_then (ok_or (Bail ''anchor tree size'') (parse_u64 size')) (\<lambda>n.
         and_then (cli_hex32 H root) (\<lambda>r.
         and_then (ok_or (Bail ''anchor timestamp'') (parse_u64 stamp)) (\<lambda>t.
         and_then (cli_hex32 H previous) (\<lambda>p.
         and_then (cli_hex32 H link) (\<lambda>l.
         Ok (Some \<lparr>ar_anchor = ''local-hashchain'', ar_tree_size = n, ar_root = r, anchored_at = t,
           ar_previous = p, ar_link = l\<rparr>))))))
     | _ \<Rightarrow> Ok None)"

definition load_receipts :: "hex_codec \<Rightarrow> Disk \<Rightarrow> (AnchorReceipt list, cli_error) res" where
  "load_receipts H d =
    (case disk_read_to_string d anchors_path of
       None \<Rightarrow> Ok []
     | Some content \<Rightarrow>
         and_then (collect_res (parse_receipt H) (lines content)) (\<lambda>found. Ok (List.map_filter (\<lambda>r. r) found)))"

definition receipt_line :: "hex_codec \<Rightarrow> AnchorReceipt \<Rightarrow> string" where
  "receipt_line H r = decimal (unat (ar_tree_size r)) @ '' '' @ hex_encode H (ar_root r) @ '' ''
     @ decimal (unat (anchored_at r)) @ '' '' @ hex_encode H (ar_previous r) @ '' '' @ hex_encode H (ar_link r) @ newline"

definition save_receipts :: "hex_codec \<Rightarrow> AnchorReceipt list \<Rightarrow> Disk \<Rightarrow> (Disk, store_error) res" where
  "save_receipts H receipts d =
    and_then (ignore_failure (disk_create_dir_all log_dir) d) (\<lambda>d.
    disk_write anchors_path (str_bytes (concat (map (receipt_line H) receipts))) d)"

definition log_anchor :: "crypto \<Rightarrow> hex_codec \<Rightarrow> string \<Rightarrow> (unit, 's) command" where
  "log_anchor C H id_text =
    act_then (cli_id H id_text) (\<lambda>i.
    act_then (on_store CliStore (act_read (\<lambda>d. Ok (log_entries d)))) (\<lambda>entries.
    let leaves = map (leaf_hash (sha256 C)) entries in
    if \<not> list_ex (\<lambda>e. sha256 C e = as_bytes i) entries then bail ''drop is not present in the local log'' else
    act_then (act_res (ok_or CliInt (try_u64 (length leaves)))) (\<lambda>tree_size.
    let root = mth (sha256 C) leaves in
    act_then (on_store CliStore (log_identity H)) (\<lambda>log.
    act_then (on_store CliStore now_unix) (\<lambda>now.
    let sth = SignedTreeHead_sign C log tree_size root now in
    act_then (act_res (map_err (\<lambda>_. Bail ''tree head invalid'') (SignedTreeHead_verify C sth))) (\<lambda>_.
    act_then (\<lambda>c. Some (load_receipts H (w_disk (co_world c)), c)) (\<lambda>receipts.
    let chain = HashChainAnchor_from_links (map ar_link receipts);
        (receipt, chain) = HashChainAnchor_submit (sha256 C) (sth_tree_size sth) (sth_root sth) (sth_timestamp sth) chain;
        receipts = receipts @ [receipt] in
    act_then (on_store (\<lambda>_. Bail ''writing anchors'') (act_disk (save_receipts H receipts))) (\<lambda>_.
    print_lines [''anchored'', ''  drop:      '' @ id_hex H i, ''  tree size: '' @ decimal (unat (ar_tree_size receipt)),
      ''  root:      '' @ hex_encode H (ar_root receipt), ''  anchor:    '' @ ar_anchor receipt,
      ''  link:      '' @ hex_encode H (ar_link receipt), ''  anchors:   '' @ decimal (length receipts)]))))))))"

definition log_anchors :: "crypto \<Rightarrow> hex_codec \<Rightarrow> (unit, 's) command" where
  "log_anchors C H =
    act_then (\<lambda>c. Some (load_receipts H (w_disk (co_world c)), c)) (\<lambda>receipts.
    if receipts = [] then println ''(no anchors)''
    else
      let ok = verify_receipts (sha256 C) receipts in
      act_then (print_lines [''anchors:     '' @ decimal (length receipts), ''chain:       '' @ ok_text ok,
        ''latest link: '' @ hex_encode H (ar_link (last receipts))]) (\<lambda>_.
      if ok then act_res (Ok ()) else bail ''anchor chain verification failed''))"

definition write_ots_digest :: "hex_codec \<Rightarrow> hash \<Rightarrow> Disk \<Rightarrow> (Disk, store_error) res" where
  "write_ots_digest H root d =
    and_then (ignore_failure (disk_create_dir_all [''anchors'']) d) (\<lambda>d.
    disk_write [''anchors'', hex_encode H root @ ''.digest''] root d)"

text \<open>The external client: whether it starts, and what stamping and verifying a file do.\<close>

record ots =
  ots_available :: bool
  ots_stamp :: "path \<Rightarrow> Disk \<Rightarrow> bool option \<times> Disk"
  ots_verify :: "path \<Rightarrow> Disk \<Rightarrow> bool option"

definition run_stamp :: "ots \<Rightarrow> path \<Rightarrow> (bool, 's) command" where
  "run_stamp T p c =
    (case ots_stamp T p (w_disk (co_world c)) of
       (status, d) \<Rightarrow> Some (ok_or (Bail ''running `ots stamp`'') status, c\<lparr>co_world := (co_world c)\<lparr>w_disk := d\<rparr>\<rparr>))"

definition log_anchor_ots :: "crypto \<Rightarrow> hex_codec \<Rightarrow> ots \<Rightarrow> string \<Rightarrow> (unit, 's) command" where
  "log_anchor_ots C H T id_text =
    act_then (cli_id H id_text) (\<lambda>i.
    act_then (on_store (\<lambda>_. Bail (''no such drop: '' @ id_text)) (act_read (\<lambda>d. read_drop H d i))) (\<lambda>_.
    act_then (on_store CliStore (signed_tree_head C H)) (\<lambda>sth.
    act_then (on_store (\<lambda>_. Bail ''writing OTS digest'') (act_disk (write_ots_digest H (sth_root sth)))) (\<lambda>_.
    let digest_path = [''anchors'', hex_encode H (sth_root sth) @ ''.digest''] in
    act_then (print_lines [''digest:     '' @ path_text digest_path, ''tree size:  '' @ decimal (unat (sth_tree_size sth))]) (\<lambda>_.
    if \<not> ots_available T then bail ''the OpenTimestamps client `ots` was not found on PATH.'' else
    act_then (run_stamp T digest_path) (\<lambda>success.
    if \<not> success then bail ''`ots stamp` failed'' else
    println (''stamped:    '' @ path_text digest_path @ ''.ots (upgrade later with `ots upgrade`)'')))))))"

definition log_ots_verify :: "ots \<Rightarrow> path \<Rightarrow> (unit, 's) command" where
  "log_ots_verify T p =
    (if \<not> ots_available T then bail ''the OpenTimestamps client `ots` was not found on PATH''
     else act_then (\<lambda>c. Some (ok_or (Bail ''running `ots verify`'') (ots_verify T p (co_files c)), c)) (\<lambda>success.
       if success then act_res (Ok ()) else bail ''`ots verify` failed''))"

definition local_sth :: "crypto \<Rightarrow> hex_codec \<Rightarrow> (SignedTreeHead, 's) command" where
  "local_sth C H =
    act_then (on_store CliStore (act_read (\<lambda>d. Ok (log_entries d)))) (\<lambda>entries.
    let leaves = map (leaf_hash (sha256 C)) entries; root = mth (sha256 C) leaves in
    act_then (on_store CliStore (log_identity H)) (\<lambda>log.
    act_then (act_res (ok_or CliInt (try_u64 (length leaves)))) (\<lambda>tree_size.
    act_then (on_store CliStore now_unix) (\<lambda>now.
    act_res (Ok (SignedTreeHead_sign C log tree_size root now))))))"

section \<open>The anchor file\<close>

text \<open>A receipt as the chain issues it.\<close>

definition receipt_ok :: "AnchorReceipt \<Rightarrow> bool" where
  "receipt_ok r \<longleftrightarrow> ar_anchor r = ''local-hashchain'' \<and> length (ar_root r) = 32 \<and> length (ar_previous r) = 32
    \<and> length (ar_link r) = 32"

definition receipt_text :: "hex_codec \<Rightarrow> AnchorReceipt \<Rightarrow> string" where
  "receipt_text H r = decimal (unat (ar_tree_size r)) @ CHR '' '' # hex_encode H (ar_root r)
     @ CHR '' '' # decimal (unat (anchored_at r)) @ CHR '' '' # hex_encode H (ar_previous r)
     @ CHR '' '' # hex_encode H (ar_link r)"

lemma receipt_line_text: "receipt_line H r = receipt_text H r @ CHR 0x0A # []"
  by (simp add: receipt_line_def receipt_text_def newline_def)

lemma cli_hex32_encode: "hex_laws H \<Longrightarrow> length bs = 32 \<Longrightarrow> cli_hex32 H (hex_encode H bs) = Ok bs"
  using hex_no_whitespace [of H bs] by (simp add: cli_hex32_def trim_id hex_laws_def del: and_then_eq_Ok)

lemma parse_u64_decimal: "parse_u64 (decimal (unat w)) = Some w"
  using unat_bound [of w] by (simp add: parse_u64_def from_str_radix_decimal u64_max_def)

lemma receipt_words:
  assumes "hex_laws H" "receipt_ok r"
  shows "split_whitespace (receipt_text H r) = [decimal (unat (ar_tree_size r)), hex_encode H (ar_root r),
    decimal (unat (anchored_at r)), hex_encode H (ar_previous r), hex_encode H (ar_link r)]"
proof -
  have sp: "ws_len (CHR '' '' # r) = 1" for r by (rule ws_len_first) (simp add: ascii_ws_def)
  have ne: "hex_encode H bs \<noteq> []" if "length bs = 32" for bs using that by (auto simp: hex_Nil [OF assms(1)])
  note w = words_from_word [where c = "CHR '' ''", OF _ _ sp]
  show ?thesis
    using assms(2) hex_no_whitespace [OF assms(1)] ne
    by (simp add: split_whitespace_def receipt_text_def receipt_ok_def w words_from_last decimal_no_whitespace)
qed

lemma parse_receipt_text: "hex_laws H \<Longrightarrow> receipt_ok r \<Longrightarrow> parse_receipt H (receipt_text H r) = Ok (Some r)"
  by (cases r) (simp add: parse_receipt_def receipt_words cli_hex32_encode receipt_ok_def parse_u64_decimal
      del: and_then_eq_Ok Ok_eq_and_then)

lemma receipt_text_chars:
  assumes "hex_laws H"
  shows "c \<in> set (receipt_text H r) \<Longrightarrow> 32 \<le> (of_char c :: nat) \<and> (of_char c :: nat) < 0x80"
  using hex_ascii [OF assms] decimal_chars unfolding receipt_text_def by fastforce

lemma receipts_lines:
  "hex_laws H \<Longrightarrow> lines (concat (map (receipt_line H) rs)) = map (receipt_text H) rs"
proof (induction rs)
  case (Cons r rs)
  have "CHR 0x0A \<notin> set (receipt_text H r)" "CHR 0x0D \<notin> set (receipt_text H r)"
    using receipt_text_chars [OF Cons.prems, of "CHR 0x0A" r] receipt_text_chars [OF Cons.prems, of "CHR 0x0D" r] by auto
  then show ?case using Cons by (simp add: receipt_line_text lines_Cons)
qed (simp add: lines_def)

lemma str_ok_receipts:
  assumes "hex_laws H"
  shows "str_ok (concat (map (receipt_line H) rs))"
proof (rule str_ok_ascii)
  fix c assume "c \<in> set (concat (map (receipt_line H) rs))"
  then consider r where "c \<in> set (receipt_text H r)" | "c = CHR 0x0A" by (auto simp: receipt_line_text split: if_splits)
  then show "(of_char c :: nat) < 0x80" using receipt_text_chars [OF assms] by cases auto
qed

text \<open>The anchor file holds exactly these receipts, and they form a chain.\<close>

definition anchors_hold :: "crypto \<Rightarrow> hex_codec \<Rightarrow> AnchorReceipt list \<Rightarrow> Disk \<Rightarrow> bool" where
  "anchors_hold C H rs d \<longleftrightarrow> (\<forall>r \<in> set rs. receipt_ok r) \<and> verify_receipts (sha256 C) rs
    \<and> unwrap_or [] (disk_read_to_string d anchors_path) = concat (map (receipt_line H) rs)"

lemma load_receipts_hold:
  assumes "hex_laws H" "anchors_hold C H rs d"
  shows "load_receipts H d = Ok rs"
proof -
  have "collect_res (parse_receipt H) (map (receipt_text H) rs) = Ok (map Some rs)"
    using assms by (simp add: collect_res_Ok_iff anchors_hold_def parse_receipt_text)
  moreover have "List.map_filter (\<lambda>r. r) (map Some xs) = xs" for xs :: "AnchorReceipt list"
    by (induction xs) (simp_all add: List.map_filter_simps)
  ultimately show ?thesis
    using assms(2) receipts_lines [OF assms(1), of rs]
    by (cases "disk_read_to_string d anchors_path") (auto simp: load_receipts_def anchors_hold_def receipt_line_text)
qed

lemma verify_receipts_snoc:
  "verify_receipts sha (rs @ [r]) \<longleftrightarrow> verify_receipts sha rs \<and> verify_link sha r
    \<and> ar_previous r = (if rs = [] then GENESIS else ar_link (last rs))"
proof -
  have "verify_receipts_from sha p (rs @ [r]) \<longleftrightarrow> verify_receipts_from sha p rs \<and> verify_link sha r
    \<and> ar_previous r = (if rs = [] then p else ar_link (last rs))" for p
    by (induction rs arbitrary: p) auto
  then show ?thesis by (simp add: verify_receipts_def)
qed

text \<open>Submitting to the chain rebuilt from the receipts on disk extends them to a chain.\<close>

lemma submit_extends:
  assumes "sha256_laws C" "length root = 32" "\<forall>r \<in> set rs. receipt_ok r" "verify_receipts (sha256 C) rs"
  shows "let r = fst (HashChainAnchor_submit (sha256 C) n root t (HashChainAnchor_from_links (map ar_link rs))) in
    receipt_ok r \<and> verify_receipts (sha256 C) (rs @ [r]) \<and> ar_tree_size r = n \<and> ar_root r = root \<and> anchored_at r = t"
proof -
  have "length GENESIS = 32" by (simp add: GENESIS_def)
  moreover have "length (ar_link (last rs)) = 32" if "rs \<noteq> []" using assms(3) that by (simp add: receipt_ok_def)
  ultimately show ?thesis
    using assms by (auto simp: HashChainAnchor_submit_def HashChainAnchor_from_links_def Let_def receipt_ok_def verify_receipts_snoc
        verify_link_def link_hash_def sha256_laws_def last_map HashChainAnchor_name_def)
qed

lemma save_receipts_ok:
  assumes "hex_laws H" "layout_ok d"
  obtains d' where "save_receipts H rs d = Ok d'" "layout_ok d'"
    "disk_read_to_string d' anchors_path = Some (concat (map (receipt_line H) rs))"
    "\<And>q. q \<noteq> anchors_path \<Longrightarrow> disk_read d' q = disk_read d q"
proof -
  obtain d1 where d1: "disk_create_dir_all log_dir d = Ok d1" "layout_ok d1" "log_dir \<in> set (dk_dirs d1)"
    "\<And>q. disk_read d1 q = disk_read d q" by (rule mkdir_in_layout [OF assms(2) layout_paths(9)]) (rule that)
  have p: "file_path_ok anchors_path" "butlast anchors_path = [] \<or> butlast anchors_path \<in> set (dk_dirs d1)"
    using d1(3) by (simp_all add: file_path_ok_def top_dirs_def anchors_path_def path_defs)
  define txt' where "txt' = concat (map (receipt_line H) rs)"
  obtain d2 where d2: "disk_write anchors_path (str_bytes txt') d1 = Ok d2" "layout_ok d2"
    "\<And>q. disk_read d2 q = (if q = anchors_path then Some (str_bytes txt') else disk_read d1 q)"
    using write_in_layout [OF d1(2) p, of "str_bytes txt'"] by blast
  have "disk_read_to_string d2 anchors_path = Some txt'"
    using read_text_written [OF d2(1)] str_ok_receipts [OF assms(1), of rs] by (simp add: txt'_def)
  moreover have "save_receipts H rs d = Ok d2" using d1(1) d2(1) by (simp add: save_receipts_def ignore_failure_def txt'_def)
  ultimately show ?thesis using that [of d2] d1(4) d2(2,3) txt'_def by simp
qed

lemma act_then_step: "m c = Some (Ok x, c') \<Longrightarrow> act_then m f c = f x c'"
  by (simp add: act_then_def)

lemma act_res_fails [simp]: "act_then (act_res (Err e)) f c = Some (Err e, c)" "act_then (act_res Panic) f c = Some (Panic, c)"
  by (simp_all add: act_then_def act_res_def)

lemma act_then_Ok: "act_then m f c = Some (Ok y, c') \<Longrightarrow> \<exists>x c1. m c = Some (Ok x, c1) \<and> f x c1 = Some (Ok y, c')"
  by (auto simp: act_then_def split: option.splits res.splits)

lemma on_store_step: "m (co_world c) = Some (Ok x, w) \<Longrightarrow> act_then (on_store e m) f c = f x (c\<lparr>co_world := w\<rparr>)"
  by (simp add: act_then_def on_store_def)

lemma act_res_step [simp]: "act_then (act_res (Ok x)) f c = f x c"
  by (simp add: act_then_def act_res_def)

lemma print_lines_step: "print_lines ls c = Some (Ok (), c\<lparr>co_out := co_out c @ str_bytes (concat (map (\<lambda>s. s @ newline) ls))\<rparr>)"
  by (induction ls arbitrary: c)
    (simp_all add: act_then_def act_res_def println_def print_bytes_def str_bytes_def)

declare print_lines.simps [simp del]

lemma SignedTreeHead_sel:
  "sth_tree_size (SignedTreeHead_sign C l n root t) = n" "sth_root (SignedTreeHead_sign C l n root t) = root"
  "sth_timestamp (SignedTreeHead_sign C l n root t) = t"
  by (simp_all add: SignedTreeHead_sign_def Let_def)

lemma now_unix_step: obtains t clock where "now_unix w = Some (Ok t, w\<lparr>w_clock := clock\<rparr>)"
  by (cases "w_clock w") (auto simp: now_unix_def intro: that [of _ "[]"])

section \<open>Frames of commands\<close>

abbreviation console_disk :: "'s Console \<Rightarrow> Disk" where
  "console_disk c \<equiv> w_disk (co_world c)"

context disk_relation
begin

lemma keeps_on_store: "keeps w_disk m \<Longrightarrow> keeps console_disk (on_store e m)"
  unfolding keeps_def by (auto simp: on_store_def)

lemma keeps_outside:
  "keeps console_disk (bail message)" "keeps console_disk (println s)" "keeps console_disk (print_bytes bs)"
  "keeps console_disk (on_files e f)" "keeps console_disk (on_net g)" "keeps console_disk (cli_id H id_text)"
  "keeps console_disk (print_lines ls)" "keeps console_disk (\<lambda>c. Some (h c, c))"
  by (auto simp: keeps_def bail_def act_res_def println_def print_bytes_def on_files_def on_net_def cli_id_def print_lines_step
      same case_prod_beta split: res.splits)

lemmas command_intros = keeps_intros keeps_on_store keeps_outside

lemma keeps_save_receipts: "anchors_path \<notin> guarded \<Longrightarrow> keeps_disk (save_receipts H rs)"
  unfolding save_receipts_def [abs_def] by (intro disk_intros)

lemma keeps_write_ots_digest: "(\<And>f. [''anchors'', f] \<notin> guarded) \<Longrightarrow> keeps_disk (write_ots_digest H root)"
  unfolding write_ots_digest_def [abs_def] by (intro disk_intros)

lemma keeps_identity_commands:
  "hybrid_path \<notin> guarded \<Longrightarrow> keeps console_disk (print_id C H)"
  "contacts_path \<notin> guarded \<Longrightarrow> keeps console_disk (contact_add H name sg ec hybrid)"
  "keeps console_disk (contact_list H)"
  unfolding print_id_def contact_add_def contact_list_def load_contacts_def
  by (intro command_intros keeps_hybrid_public; assumption)+

end

section \<open>Properties\<close>

text \<open>
  C35. The anchor file is always a verifiable chain. When the file holds a chain of receipts,
  anchoring a drop of the log succeeds, appends exactly one receipt for the size and the
  Merkle root of the whole log, leaves the log as it was, and the file holds a chain again,
  which \<open>log anchors\<close> reads back and accepts. Anchoring a drop the log does not contain
  fails and changes nothing.
\<close>

theorem anchors_chain:
  assumes "hex_laws H" and "sha256_laws C" and "ed25519_laws C"
    and "layout_ok (w_disk (co_world c))" and "log_key_ok H (w_disk (co_world c))"
    and "log_holds es (w_disk (co_world c))" and "length es \<le> u64_max"
    and "anchors_hold C H rs (w_disk (co_world c))"
    and "DropId_from_hex (hex_decode H) id_text = Ok i"
  shows "if \<exists>e \<in> set es. sha256 C e = as_bytes i
    then \<exists>r c'. log_anchor C H id_text c = Some (Ok (), c')
      \<and> ar_tree_size r = of_nat (length es) \<and> ar_root r = mth (sha256 C) (map (leaf_hash (sha256 C)) es)
      \<and> anchors_hold C H (rs @ [r]) (w_disk (co_world c'))
      \<and> layout_ok (w_disk (co_world c')) \<and> log_holds es (w_disk (co_world c'))
      \<and> load_receipts H (w_disk (co_world c')) = Ok (rs @ [r])
      \<and> (\<exists>c''. log_anchors C H c' = Some (Ok (), c''))
    else log_anchor C H id_text c = Some (Err (Bail ''drop is not present in the local log''), c)"
proof (cases "\<exists>e \<in> set es. sha256 C e = as_bytes i")
  case False
  then show ?thesis
    using assms(9) log_entries_hold [OF assms(6)]
    by (simp add: log_anchor_def cli_id_def bail_def act_defs on_store_def list_ex_iff Let_def)
next
  case True
  let ?w = "co_world c" and ?root = "mth (sha256 C) (map (leaf_hash (sha256 C)) es)" and ?n = "of_nat (length es) :: u64"
  let ?chain = "HashChainAnchor_from_links (map ar_link rs)"
  obtain l w1 where w1: "log_identity H ?w = Some (Ok l, w1)" "identity_wf l" "layout_ok (w_disk w1)"
    "\<And>q. q \<noteq> log_key_path \<Longrightarrow> disk_read (w_disk w1) q = disk_read (w_disk ?w) q"
    using log_identity_ok [OF assms(4,5)] by metis
  obtain t clock where now: "now_unix w1 = Some (Ok t, w1\<lparr>w_clock := clock\<rparr>)" using now_unix_step by metis
  define r where "r = fst (HashChainAnchor_submit (sha256 C) ?n ?root t ?chain)"
  have root: "length ?root = 32"
    using assms(2) by (intro length_mth) (auto simp: digest32_def sha256_laws_def leaf_hash_def)
  have hold: "anchors_hold C H rs (w_disk w1)"
    using assms(8) w1(4) [of anchors_path]
    by (simp add: anchors_hold_def disk_read_to_string_def anchors_path_def log_key_path_def)
  have r: "receipt_ok r" "verify_receipts (sha256 C) (rs @ [r])" "ar_tree_size r = ?n" "ar_root r = ?root"
    using submit_extends [OF assms(2) root, of rs ?n t] assms(8) by (simp_all add: anchors_hold_def Let_def r_def)
  obtain d2 where d2: "save_receipts H (rs @ [r]) (w_disk w1) = Ok d2" "layout_ok d2"
    "disk_read_to_string d2 anchors_path = Some (concat (map (receipt_line H) (rs @ [r])))"
    "\<And>q. q \<noteq> anchors_path \<Longrightarrow> disk_read d2 q = disk_read (w_disk w1) q"
    using save_receipts_ok [OF assms(1) w1(3)] by metis
  have hold2: "anchors_hold C H (rs @ [r]) d2"
    using d2(3) r(1,2) assms(8) by (simp add: anchors_hold_def)
  define w2 where "w2 = w1\<lparr>w_clock := clock, w_disk := d2\<rparr>"
  have log: "log_holds es d2"
    using assms(6) d2(4) [of entries_path] w1(4) [of entries_path]
    by (simp add: log_holds_def anchors_path_def log_key_path_def path_defs)
  have "\<exists>out. log_anchor C H id_text c = Some (Ok (), c\<lparr>co_world := w2, co_out := out\<rparr>)"
    using True assms(9,7,3) log_entries_hold [OF assms(6)] w1(1,2) now d2(1) load_receipts_hold [OF assms(1) hold] w2_def
    by (auto simp: log_anchor_def cli_id_def act_defs on_store_def list_ex_iff try_u64_def SignedTreeHead_sel
        case_prod_beta Let_def print_lines_step r_def [symmetric])
  then obtain out where done': "log_anchor C H id_text c = Some (Ok (), c\<lparr>co_world := w2, co_out := out\<rparr>)" ..
  have load: "load_receipts H d2 = Ok (rs @ [r])" by (rule load_receipts_hold [OF assms(1) hold2])
  have "\<exists>c''. log_anchors C H (c\<lparr>co_world := w2, co_out := out\<rparr>) = Some (Ok (), c'')"
    using load r(2) by (simp add: log_anchors_def act_defs print_lines_step w2_def Let_def)
  then show ?thesis
    using True done' r(3,4) hold2 d2(2) log load by (auto simp: w2_def)
qed

section \<open>Witness\<close>

definition demo_console :: "unit Console" where
  "demo_console = \<lparr>co_world = \<lparr>w_disk = \<lparr>dk_files = [(entries_path, log_bytes [[7]])], dk_dirs = []\<rparr>,
     w_rng = \<lambda>_. 0, w_clock = [Some 9]\<rparr>, co_files = \<lparr>dk_files = [], dk_dirs = []\<rparr>, co_out = [], co_net = ()\<rparr>"

theorem anchors_chain_witness:
  "\<exists>r c'. log_anchor toy_crypto hex_impl (id_hex hex_impl (DropId_of toy_crypto [7])) demo_console = Some (Ok (), c')
    \<and> load_receipts hex_impl (w_disk (co_world c')) = Ok [r] \<and> ar_tree_size r = 1"
proof -
  let ?i = "DropId_of toy_crypto [7]" and ?d = "w_disk (co_world demo_console)"
  have sha: "sha256 toy_crypto [7] = as_bytes ?i" "length (as_bytes ?i) = 32"
    using toy_sha256_laws by (simp_all add: DropId_of_def sha256_laws_def)
  have i: "DropId_from_hex (hex_decode hex_impl) (id_hex hex_impl ?i) = Ok ?i"
    using sha(2) hex_impl_laws by (cases ?i) (simp add: DropId_from_hex_def DropId_to_hex_def hex_laws_def)
  have lay: "layout_ok ?d" using layout_paths(5) by (auto simp: layout_ok_def demo_console_def disk_read_def split: if_splits)
  have files: "log_key_ok hex_impl ?d" "log_holds [[7]] ?d" "anchors_hold toy_crypto hex_impl [] ?d"
    by (simp_all add: log_key_ok_def log_holds_def anchors_hold_def demo_console_def disk_read_to_string_def disk_read_def
        anchors_path_def log_key_path_def path_defs verify_receipts_def u32_max_def)
  have "length [[7 :: u8]] \<le> u64_max" by (simp add: u64_max_def)
  from anchors_chain [OF hex_impl_laws toy_sha256_laws toy_ed25519_laws lay files(1,2) this files(3) i] sha(1)
  show ?thesis by auto
qed

end
