(* ===== verification/Serving.thy ===== *)
theory Serving
  imports Commands
begin

text \<open>
  \<open>load_store\<close> of \<open>crates/cli/src/main.rs\<close>: the data directory is read into the in-memory store
  that a node serves. Directory listings come in the order of the disk; names are strings, so
  the cases of names that are not UTF-8 do not arise.
\<close>

section \<open>Loading the data directory\<close>

text \<open>\<open>read_dir\<close>: the entries of a directory, files and directories, in the disk's order.\<close>

definition read_dir :: "Disk \<Rightarrow> path \<Rightarrow> path list option" where
  "read_dir d p =
    (if p = [] \<or> p \<in> set (dk_dirs d)
     then Some (filter (\<lambda>q. q \<noteq> [] \<and> butlast q = p) (map fst (dk_files d) @ dk_dirs d)) else None)"

definition file_stem :: "string \<Rightarrow> string" where
  "file_stem f = (case extension f of None \<Rightarrow> f | Some e \<Rightarrow> take (length f - Suc (length e)) f)"

definition parse_u32 :: "string \<Rightarrow> u32 option" where
  "parse_u32 s = map_option of_nat (from_str_radix 10 u32_max s)"

fun load_drops :: "crypto \<Rightarrow> Disk \<Rightarrow> path list \<Rightarrow> MemoryStore \<Rightarrow> (MemoryStore, store_error) res" where
  "load_drops C d [] s = Ok s"
| "load_drops C d (p # entries) s =
    (if extension (last p) \<noteq> Some ''signed'' then load_drops C d entries s
     else and_then (ok_or StoreIo (disk_read d p)) (\<lambda>raw.
       load_drops C d entries (put_drop (DropId_of C raw) raw s)))"

fun load_chunk_files :: "Disk \<Rightarrow> DropId \<Rightarrow> path list \<Rightarrow> MemoryStore \<Rightarrow> (MemoryStore, store_error) res" where
  "load_chunk_files d i [] s = Ok s"
| "load_chunk_files d i (p # files) s =
    (case parse_u32 (file_stem (last p)) of
       None \<Rightarrow> load_chunk_files d i files s
     | Some index \<Rightarrow>
         and_then (ok_or StoreIo (disk_read d p)) (\<lambda>bs. load_chunk_files d i files (put_chunk i index bs s)))"

fun load_chunk_dirs :: "hex_codec \<Rightarrow> Disk \<Rightarrow> path list \<Rightarrow> MemoryStore \<Rightarrow> (MemoryStore, store_error) res" where
  "load_chunk_dirs H d [] s = Ok s"
| "load_chunk_dirs H d (p # entries) s =
    (case DropId_from_hex (hex_decode H) (last p) of
       Ok i \<Rightarrow>
         and_then (case read_dir d p of Some files \<Rightarrow> load_chunk_files d i files s | None \<Rightarrow> Ok s) (\<lambda>s.
         load_chunk_dirs H d entries s)
     | _ \<Rightarrow> load_chunk_dirs H d entries s)"

definition load_store :: "crypto \<Rightarrow> hex_codec \<Rightarrow> Disk \<Rightarrow> (MemoryStore, store_error) res" where
  "load_store C H d =
    and_then (case read_dir d [''drops''] of
        Some entries \<Rightarrow> load_drops C d entries MemoryStore_new | None \<Rightarrow> Ok MemoryStore_new) (\<lambda>s.
    case read_dir d [''chunks''] of Some entries \<Rightarrow> load_chunk_dirs H d entries s | None \<Rightarrow> Ok s)"

section \<open>The store that is served\<close>

text \<open>
  A data directory as the store leaves it: every envelope is under the name of its own hash,
  chunk directories and chunk files have the names the store gives them, and the directories
  of files are there.
\<close>

definition named_files :: "crypto \<Rightarrow> hex_codec \<Rightarrow> Disk \<Rightarrow> bool" where
  "named_files C H d \<longleftrightarrow> layout_ok d
    \<and> (\<forall>p. disk_read d p \<noteq> None \<longrightarrow> (\<forall>n. 0 < n \<and> n < length p \<longrightarrow> take n p \<in> set (dk_dirs d)))
    \<and> (\<forall>f raw. disk_read d [''drops'', f] = Some raw \<longrightarrow> extension f = Some ''signed'' \<longrightarrow> [''drops'', f] = drop_path H (DropId_of C raw))
    \<and> (\<forall>f i. DropId_from_hex (hex_decode H) f = Ok i \<longrightarrow> [''chunks'', f] \<in> set (dk_dirs d) \<longrightarrow> [''chunks'', f] = chunk_dir H i)
    \<and> (\<forall>i f n. disk_read d (chunk_dir H i @ [f]) \<noteq> None \<longrightarrow> parse_u32 (file_stem f) = Some n \<longrightarrow> f = decimal (unat n) @ ''.bin'')"

lemma extension_append: "x \<noteq> [] \<Longrightarrow> CHR ''.'' \<notin> set e \<Longrightarrow> extension (x @ CHR ''.'' # e) = Some e"
  by (auto simp: extension_def Let_def takeWhile_append)

lemma file_stem_append: "x \<noteq> [] \<Longrightarrow> CHR ''.'' \<notin> set e \<Longrightarrow> file_stem (x @ CHR ''.'' # e) = x"
  by (simp add: file_stem_def extension_append)

lemma parse_u32_decimal: "parse_u32 (decimal (unat w)) = Some w"
  using unat_bound [of w] by (simp add: parse_u32_def from_str_radix_decimal u32_max_def)

lemma drop_path_inject: "hex_laws H \<Longrightarrow> drop_path H i = drop_path H j \<longleftrightarrow> i = j"
  by (cases i; cases j) (simp add: drop_path_def DropId_to_hex_def hex_inject)

lemma ms_put: "ms_drops (put_chunk i n bs s) = ms_drops s" "ms_chunks (put_drop i bs s) = ms_chunks s"
  by (simp_all add: put_chunk_def put_drop_def)

lemma load_drops_exact:
  assumes "hex_laws H"
    and "\<forall>p \<in> set entries. \<exists>f raw. p = [''drops'', f] \<and> disk_read d p = Some raw
      \<and> (extension f = Some ''signed'' \<longrightarrow> p = drop_path H (DropId_of C raw))"
  shows "\<exists>s'. load_drops C d entries s = Ok s' \<and> ms_chunks s' = ms_chunks s \<and> (store_inv s \<longrightarrow> store_inv s')
    \<and> (\<forall>i. length (as_bytes i) = 32 \<longrightarrow>
        get_drop s' i = (if drop_path H i \<in> set entries then disk_read d (drop_path H i) else get_drop s i))"
  using assms(2)
proof (induction entries arbitrary: s)
  case (Cons p entries)
  obtain f raw where p: "p = [''drops'', f]" "disk_read d p = Some raw"
    "extension f = Some ''signed'' \<longrightarrow> p = drop_path H (DropId_of C raw)" using Cons.prems by auto
  show ?case
  proof (cases "extension f = Some ''signed''")
    case True
    from Cons.IH [of "put_drop (DropId_of C raw) raw s"] Cons.prems obtain s' where
      s': "load_drops C d entries (put_drop (DropId_of C raw) raw s) = Ok s'" "ms_chunks s' = ms_chunks s" "store_inv s \<longrightarrow> store_inv s'"
        "\<forall>i. length (as_bytes i) = 32 \<longrightarrow> get_drop s' i =
          (if drop_path H i \<in> set entries then disk_read d (drop_path H i) else get_drop (put_drop (DropId_of C raw) raw s) i)"
      using memory.inv_putd [of s "DropId_of C raw" raw] by (fastforce simp: ms_put)
    have "drop_path H i = p \<longleftrightarrow> i = DropId_of C raw" for i using True p(3) drop_path_inject [OF assms(1)] by auto
    then have "get_drop s' i = (if drop_path H i \<in> set (p # entries) then disk_read d (drop_path H i) else get_drop s i)"
      if "length (as_bytes i) = 32" for i
      using that s'(4) p(2) by (metis list.set_intros(1) set_ConsD list.set_intros(2) memory.getd_putd)
    moreover have "load_drops C d (p # entries) s = Ok s'" using s'(1) p(1,2) True by simp
    ultimately show ?thesis using s'(2,3) by blast
  next
    case False
    have "drop_path H i \<noteq> p" if "length (as_bytes i) = 32" for i
    proof
      assume "drop_path H i = p"
      moreover have "id_hex H i \<noteq> []" using that hex_Nil [OF assms(1), of "as_bytes i"] by (cases i) (auto simp: DropId_to_hex_def)
      ultimately show False using False p(1) extension_append [of "id_hex H i" "''signed''"] by (simp add: drop_path_def)
    qed
    moreover have "load_drops C d (p # entries) s = load_drops C d entries s" using False p(1) by simp
    ultimately show ?thesis using Cons.IH [of s] Cons.prems by auto
  qed
qed simp

lemma load_chunk_files_exact:
  assumes "\<forall>p \<in> set files. \<exists>f. p = chunk_dir H i @ [f] \<and> disk_read d p \<noteq> None
      \<and> (\<forall>n. parse_u32 (file_stem f) = Some n \<longrightarrow> f = decimal (unat n) @ ''.bin'')"
  shows "\<exists>s'. load_chunk_files d i files s = Ok s' \<and> ms_drops s' = ms_drops s \<and> (store_inv s \<longrightarrow> store_inv s')
    \<and> (\<forall>j n. get_chunk s' j n = (if j = i \<and> chunk_path H i (unat n) \<in> set files
        then disk_read d (chunk_path H i (unat n)) else get_chunk s j n))"
  using assms
proof (induction files arbitrary: s)
  case (Cons p files)
  obtain f bs where p: "p = chunk_dir H i @ [f]" "disk_read d p = Some bs"
    "\<forall>n. parse_u32 (file_stem f) = Some n \<longrightarrow> f = decimal (unat n) @ ''.bin''" using Cons.prems by auto
  have stem: "parse_u32 (file_stem (decimal (unat n) @ ''.bin'')) = Some n" for n :: u32
    by (simp add: file_stem_append decimal_not_Nil parse_u32_decimal)
  show ?case
  proof (cases "parse_u32 (file_stem f)")
    case None
    then have "chunk_path H i (unat n) \<noteq> p" for n :: u32 using p(1) stem [of n] by (auto simp: chunk_path_def)
    moreover have "load_chunk_files d i (p # files) s = load_chunk_files d i files s" using p(1) None by simp
    ultimately show ?thesis using Cons.IH [of s] Cons.prems by auto
  next
    case (Some m)
    from Cons.IH [of "put_chunk i m bs s"] Cons.prems obtain s' where
      s': "load_chunk_files d i files (put_chunk i m bs s) = Ok s'" "ms_drops s' = ms_drops s" "store_inv s \<longrightarrow> store_inv s'"
        "\<forall>j n. get_chunk s' j n = (if j = i \<and> chunk_path H i (unat n) \<in> set files
          then disk_read d (chunk_path H i (unat n)) else get_chunk (put_chunk i m bs s) j n)"
      using memory.inv_put [of s i m bs] by (fastforce simp: ms_put)
    have pm: "chunk_path H i (unat m) = p" using p(1,3) Some by (simp add: chunk_path_def)
    have "get_chunk s' j n = (if j = i \<and> chunk_path H i (unat n) \<in> set (p # files)
        then disk_read d (chunk_path H i (unat n)) else get_chunk s j n)" for j n
    proof (cases "j = i \<and> n = m")
      case True then show ?thesis using s'(4) p(2) pm by (simp add: memory.get_put)
    next
      case False
      then have "j = i \<Longrightarrow> chunk_path H i (unat n) \<noteq> p" using pm [symmetric] by (simp add: word_unat_eq_iff)
      with False show ?thesis using s'(4) by (auto simp: memory.get_put)
    qed
    moreover have "load_chunk_files d i (p # files) s = Ok s'" using s'(1) p(1,2) Some by simp
    ultimately show ?thesis using s'(2,3) by blast
  qed
qed simp

definition chunk_listing :: "hex_codec \<Rightarrow> Disk \<Rightarrow> DropId \<Rightarrow> path list \<Rightarrow> bool" where
  "chunk_listing H d i files \<longleftrightarrow> read_dir d (chunk_dir H i) = Some files
    \<and> (\<forall>n. chunk_path H i n \<in> set files \<longleftrightarrow> disk_read d (chunk_path H i n) \<noteq> None)
    \<and> (\<forall>p \<in> set files. \<exists>f. p = chunk_dir H i @ [f] \<and> disk_read d p \<noteq> None
      \<and> (\<forall>n. parse_u32 (file_stem f) = Some n \<longrightarrow> f = decimal (unat n) @ ''.bin''))"

lemma load_chunk_dirs_exact:
  assumes "hex_laws H"
    and "\<forall>p \<in> set entries. \<exists>f. p = [''chunks'', f] \<and> (\<forall>i. DropId_from_hex (hex_decode H) f = Ok i \<longrightarrow> p = chunk_dir H i
      \<and> (\<exists>files. chunk_listing H d i files))"
  shows "\<exists>s'. load_chunk_dirs H d entries s = Ok s' \<and> ms_drops s' = ms_drops s \<and> (store_inv s \<longrightarrow> store_inv s')
    \<and> (\<forall>j n. length (as_bytes j) = 32 \<longrightarrow> get_chunk s' j n =
        (if chunk_dir H j \<in> set entries \<and> disk_read d (chunk_path H j (unat n)) \<noteq> None
         then disk_read d (chunk_path H j (unat n)) else get_chunk s j n))"
  using assms(2)
proof (induction entries arbitrary: s)
  case (Cons p entries)
  obtain f where p: "p = [''chunks'', f]" using Cons.prems by auto
  have dir: "p = chunk_dir H j \<longleftrightarrow> f = id_hex H j" for j using p by (auto simp: chunk_dir_def)
  have hx: "DropId_from_hex (hex_decode H) (id_hex H j) = Ok j" if "length (as_bytes j) = 32" for j
    using id_hex_parses [OF assms(1) that] by (cases "DropId_from_hex (hex_decode H) (id_hex H j)") (auto simp: cli_id_def act_res_def)
  show ?case
  proof (cases "DropId_from_hex (hex_decode H) f")
    case (Ok i)
    then obtain files where f: "p = chunk_dir H i" "read_dir d p = Some files"
      "\<forall>n. chunk_path H i n \<in> set files \<longleftrightarrow> disk_read d (chunk_path H i n) \<noteq> None"
      "\<forall>p \<in> set files. \<exists>f. p = chunk_dir H i @ [f] \<and> disk_read d p \<noteq> None
          \<and> (\<forall>n. parse_u32 (file_stem f) = Some n \<longrightarrow> f = decimal (unat n) @ ''.bin'')"
      using Cons.prems p by (auto simp: chunk_listing_def)
    from load_chunk_files_exact [OF f(4), of s] obtain s1 where s1: "load_chunk_files d i files s = Ok s1" "ms_drops s1 = ms_drops s"
      "store_inv s \<longrightarrow> store_inv s1" "\<forall>j n. get_chunk s1 j n = (if j = i \<and> disk_read d (chunk_path H i (unat n)) \<noteq> None
        then disk_read d (chunk_path H i (unat n)) else get_chunk s j n)" using f(3) by auto
    have "chunk_dir H j = p \<longleftrightarrow> j = i" for j
      using f(1) by (cases i; cases j) (simp add: chunk_dir_def DropId_to_hex_def hex_inject [OF assms(1)])
    moreover have "load_chunk_dirs H d (p # entries) s = load_chunk_dirs H d entries s1" using Ok f(2) s1(1) p by simp
    moreover obtain s' where s': "load_chunk_dirs H d entries s1 = Ok s'" "ms_drops s' = ms_drops s1" "store_inv s1 \<longrightarrow> store_inv s'"
      "\<forall>j n. length (as_bytes j) = 32 \<longrightarrow> get_chunk s' j n =
        (if chunk_dir H j \<in> set entries \<and> disk_read d (chunk_path H j (unat n)) \<noteq> None
         then disk_read d (chunk_path H j (unat n)) else get_chunk s1 j n)" using Cons.IH [of s1] Cons.prems by auto
    moreover have "get_chunk s' j n = (if chunk_dir H j \<in> set (p # entries) \<and> disk_read d (chunk_path H j (unat n)) \<noteq> None
         then disk_read d (chunk_path H j (unat n)) else get_chunk s j n)" if "length (as_bytes j) = 32" for j n
      using that s'(4) s1(4) calculation(1) [of j] by (cases "j = i") auto
    ultimately show ?thesis using s1(2,3) by (intro exI [of _ s']) simp
  next
    case (Err e)
    then have "chunk_dir H j \<noteq> p" if "length (as_bytes j) = 32" for j using dir [of j] hx [OF that] by auto
    moreover have "load_chunk_dirs H d (p # entries) s = load_chunk_dirs H d entries s" using Err p by simp
    ultimately show ?thesis using Cons.IH [of s] Cons.prems by auto
  next
    case Panic
    then have "chunk_dir H j \<noteq> p" if "length (as_bytes j) = 32" for j using dir [of j] hx [OF that] by auto
    moreover have "load_chunk_dirs H d (p # entries) s = load_chunk_dirs H d entries s" using Panic p by simp
    ultimately show ?thesis using Cons.IH [of s] Cons.prems by auto
  qed
qed simp

lemma read_dir_entries:
  "read_dir d p = Some es \<Longrightarrow> q \<in> set es \<longleftrightarrow> q \<noteq> [] \<and> butlast q = p \<and> (disk_read d q \<noteq> None \<or> q \<in> set (dk_dirs d))"
  by (force simp: read_dir_def disk_read_def map_of_eq_None_iff split: if_splits)

lemma butlast_eq: "q \<noteq> [] \<and> butlast q = p \<longleftrightarrow> (\<exists>f. q = p @ [f])"
  by (cases q rule: rev_cases) auto

lemma named_drops:
  assumes "hex_laws H" "named_files C H d"
  obtains s where "(case read_dir d [''drops''] of Some entries \<Rightarrow> load_drops C d entries MemoryStore_new | None \<Rightarrow> Ok MemoryStore_new) = Ok s"
    "ms_chunks s = []" "store_inv s" "\<forall>i. length (as_bytes i) = 32 \<longrightarrow> get_drop s i = disk_read d (drop_path H i)"
proof (cases "read_dir d [''drops'']")
  case None
  then have "disk_read d (drop_path H i) = None" for i
    using assms(2) [unfolded named_files_def] by (auto simp: read_dir_def drop_path_def dest!: conjunct1 [OF conjunct2] spec [of _ "[''drops'', _]"] spec [of _ 1])
  then show ?thesis using that [of MemoryStore_new] None memory.inv_empty memory.getd_empty by (simp add: MemoryStore_new_def)
next
  case (Some entries)
  have lay: "layout_ok d" using assms(2) by (simp add: named_files_def)
  have e: "q \<in> set entries \<longleftrightarrow> (\<exists>f. q = [''drops'', f]) \<and> disk_read d q \<noteq> None" for q
    using read_dir_entries [OF Some, of q] butlast_eq [of q "[''drops'']"] lay
    by (auto simp: layout_ok_def dir_path_ok_def top_dirs_def)
  have "\<forall>p \<in> set entries. \<exists>f raw. p = [''drops'', f] \<and> disk_read d p = Some raw
      \<and> (extension f = Some ''signed'' \<longrightarrow> p = drop_path H (DropId_of C raw))"
    using assms(2) e by (fastforce simp: named_files_def)
  from load_drops_exact [OF assms(1) this, of MemoryStore_new] obtain s where s: "load_drops C d entries MemoryStore_new = Ok s"
    "ms_chunks s = ms_chunks MemoryStore_new" "store_inv s"
    "\<forall>i. length (as_bytes i) = 32 \<longrightarrow> get_drop s i = (if drop_path H i \<in> set entries then disk_read d (drop_path H i) else get_drop MemoryStore_new i)"
    using memory.inv_empty by blast
  have "get_drop s i = disk_read d (drop_path H i)" if "length (as_bytes i) = 32" for i
    using s(4) that e [of "drop_path H i"] by (auto simp: memory.getd_empty drop_path_def)
  then show ?thesis using that [of s] s(1-3) Some by (simp add: MemoryStore_new_def)
qed

lemma named_parents:
  "named_files C H d \<Longrightarrow> disk_read d p \<noteq> None \<Longrightarrow> 0 < n \<Longrightarrow> n < length p \<Longrightarrow> take n p \<in> set (dk_dirs d)"
  unfolding named_files_def by blast

lemma named_listing:
  assumes "named_files C H d" "chunk_dir H i \<in> set (dk_dirs d)"
  shows "\<exists>files. chunk_listing H d i files"
proof -
  obtain files where files: "read_dir d (chunk_dir H i) = Some files" using assms(2) by (simp add: read_dir_def)
  have "layout_ok d" using assms(1) by (simp add: named_files_def)
  then have f: "q \<in> set files \<longleftrightarrow> (\<exists>f. q = chunk_dir H i @ [f]) \<and> disk_read d q \<noteq> None" for q
    using read_dir_entries [OF files, of q] butlast_eq [of q "chunk_dir H i"]
    by (auto simp: layout_ok_def dir_path_ok_def top_dirs_def chunk_dir_def)
  have "f = decimal (unat n) @ ''.bin''" if "disk_read d (chunk_dir H i @ [f]) \<noteq> None" "parse_u32 (file_stem f) = Some n" for f n
    using assms(1) that unfolding named_files_def by blast
  then show ?thesis using files f by (intro exI [of _ files]) (auto simp: chunk_path_def chunk_listing_def)
qed

lemma named_chunks:
  assumes "hex_laws H" "named_files C H d" "ms_chunks s = []" "store_inv s"
  obtains s' where "(case read_dir d [''chunks''] of Some entries \<Rightarrow> load_chunk_dirs H d entries s | None \<Rightarrow> Ok s) = Ok s'"
    "ms_drops s' = ms_drops s" "store_inv s'" "\<forall>i n. length (as_bytes i) = 32 \<longrightarrow> get_chunk s' i n = disk_read d (chunk_path H i (unat n))"
proof (cases "read_dir d [''chunks'']")
  case None
  then have no: "[''chunks''] \<notin> set (dk_dirs d)" by (simp add: read_dir_def split: if_splits)
  have "disk_read d (chunk_path H i n) = None" for i n
  proof (rule ccontr)
    assume "disk_read d (chunk_path H i n) \<noteq> None"
    with no show False using named_parents [OF assms(2), of "chunk_path H i n" 1] by (simp add: chunk_path_def chunk_dir_def)
  qed
  then show ?thesis using that [of s] None assms(3,4) by (simp add: get_chunk_def)
next
  case (Some entries)
  have lay: "layout_ok d" using assms(2) by (simp add: named_files_def)
  have e: "q \<in> set entries \<longleftrightarrow> (\<exists>f. q = [''chunks'', f]) \<and> q \<in> set (dk_dirs d)" for q
    using read_dir_entries [OF Some, of q] butlast_eq [of q "[''chunks'']"] lay by (auto simp: layout_ok_def file_path_ok_def top_dirs_def)
  have "\<forall>p \<in> set entries. \<exists>f. p = [''chunks'', f] \<and> (\<forall>i. DropId_from_hex (hex_decode H) f = Ok i \<longrightarrow> p = chunk_dir H i
      \<and> (\<exists>files. chunk_listing H d i files))"
  proof
    fix p assume "p \<in> set entries"
    then obtain f where p: "p = [''chunks'', f]" "p \<in> set (dk_dirs d)" using e by blast
    have "p = chunk_dir H i" if "DropId_from_hex (hex_decode H) f = Ok i" for i
      using assms(2) that p unfolding named_files_def by blast
    then show "\<exists>f. p = [''chunks'', f] \<and> (\<forall>i. DropId_from_hex (hex_decode H) f = Ok i \<longrightarrow> p = chunk_dir H i
        \<and> (\<exists>files. chunk_listing H d i files))"
      using p named_listing [OF assms(2)] by (intro exI [of _ f]) auto
  qed
  from load_chunk_dirs_exact [OF assms(1) this, of s] obtain s' where s': "load_chunk_dirs H d entries s = Ok s'" "ms_drops s' = ms_drops s"
    "store_inv s'" "\<forall>j n. length (as_bytes j) = 32 \<longrightarrow> get_chunk s' j n =
      (if chunk_dir H j \<in> set entries \<and> disk_read d (chunk_path H j (unat n)) \<noteq> None then disk_read d (chunk_path H j (unat n))
       else get_chunk s j n)"
    using assms(4) by auto
  have in_entries: "chunk_dir H i \<in> set entries" if "disk_read d (chunk_path H i n) \<noteq> None" for i n
    using named_parents [OF assms(2) that, of 2] e [of "chunk_dir H i"] by (simp add: chunk_path_def chunk_dir_def)
  have "get_chunk s' i n = disk_read d (chunk_path H i (unat n))" if "length (as_bytes i) = 32" for i n
    using s'(4) that in_entries [of i "unat n"] assms(3) by (cases "disk_read d (chunk_path H i (unat n))") (simp_all add: get_chunk_def)
  then show ?thesis using that [of s'] s'(1-3) Some by simp
qed

section \<open>Properties\<close>

text \<open>
  C34. What is served is what is on disk. On a data directory whose files have the names the store
  gives them, \<open>load_store\<close> succeeds, and the store it builds answers every request for a drop
  or a chunk with the content of the corresponding file, and with nothing if there is none.
\<close>

theorem load_store_exact:
  assumes "hex_laws H" and "named_files C H d"
  shows "\<exists>s. load_store C H d = Ok s \<and> store_inv s
    \<and> (\<forall>i n. length (as_bytes i) = 32 \<longrightarrow> get_drop s i = disk_read d (drop_path H i)
        \<and> get_chunk s i n = disk_read d (chunk_path H i (unat n)))"
proof -
  obtain s where s: "(case read_dir d [''drops''] of Some entries \<Rightarrow> load_drops C d entries MemoryStore_new | None \<Rightarrow> Ok MemoryStore_new) = Ok s"
    "ms_chunks s = []" "store_inv s" "\<forall>i. length (as_bytes i) = 32 \<longrightarrow> get_drop s i = disk_read d (drop_path H i)"
    using named_drops [OF assms] by blast
  obtain s' where s': "(case read_dir d [''chunks''] of Some entries \<Rightarrow> load_chunk_dirs H d entries s | None \<Rightarrow> Ok s) = Ok s'"
    "ms_drops s' = ms_drops s" "store_inv s'" "\<forall>i n. length (as_bytes i) = 32 \<longrightarrow> get_chunk s' i n = disk_read d (chunk_path H i (unat n))"
    using named_chunks [OF assms s(2,3)] by blast
  have "load_store C H d = Ok s'" unfolding load_store_def s(1) using s'(1) by (cases "read_dir d [''chunks'']") simp_all
  moreover have "get_drop s' i = get_drop s i" for i using s'(2) by (simp add: get_drop_def)
  ultimately show ?thesis using s(4) s'(3,4) by auto
qed

section \<open>Witness\<close>

theorem load_store_exact_witness:
  "let i = DropId_of toy_crypto [7]; d = \<lparr>dk_files = [(drop_path hex_impl i, [7]), (chunk_path hex_impl i 0, [8, 9])],
     dk_dirs = [[''drops''], [''chunks''], chunk_dir hex_impl i]\<rparr>
   in \<exists>s. load_store toy_crypto hex_impl d = Ok s \<and> get_drop s i = Some [7] \<and> get_chunk s i 0 = Some [8, 9] \<and> get_chunk s i 1 = None"
proof -
  define i where "i = DropId_of toy_crypto [7]"
  define d where "d = \<lparr>dk_files = [(drop_path hex_impl i, [7 :: u8]), (chunk_path hex_impl i 0, [8, 9])],
     dk_dirs = [[''drops''], [''chunks''], chunk_dir hex_impl i]\<rparr>"
  have len: "length (as_bytes i) = 32" using length_DropId_of [OF toy_sha256_laws] by (simp add: i_def)
  have rd: "disk_read d p = (if p = drop_path hex_impl i then Some [7] else if p = chunk_path hex_impl i 0 then Some [8, 9] else None)" for p
    by (simp add: d_def disk_read_def)
  have hx: "DropId_from_hex (hex_decode hex_impl) (id_hex hex_impl i) = Ok i"
    using len hex_impl_laws by (cases i) (simp add: DropId_from_hex_def DropId_to_hex_def hex_laws_def)
  have stem: "parse_u32 (file_stem (decimal 0 @ ''.bin'')) = Some 0"
    using parse_u32_decimal [of 0] by (simp add: file_stem_append decimal_not_Nil)
  have "layout_ok d" using layout_paths(7) [of hex_impl i] layout_paths(8) [of hex_impl i]
    by (auto simp: layout_ok_def rd chunk_path_def split: if_splits) (auto simp: d_def dir_path_ok_def top_dirs_def chunk_dir_def)
  then have "named_files toy_crypto hex_impl d"
    unfolding named_files_def rd
    using stem hx by (auto simp: d_def drop_path_def chunk_path_def chunk_dir_def file_path_ok_def dir_path_ok_def top_dirs_def i_def
        less_Suc_eq numeral_2_eq_2 split: if_splits)
  from load_store_exact [OF hex_impl_laws this] len show ?thesis
    unfolding Let_def i_def [symmetric] d_def [symmetric] by (auto simp: rd drop_path_def chunk_path_def chunk_dir_def)
qed

end
