(* ===== verification/Exchange.thy ===== *)
theory Exchange
  imports Serving
begin

text \<open>
  The commands of \<open>crates/cli/src/main.rs\<close> that exchange drops with peers: \<open>push\<close>, \<open>fetch\<close>
  over TCP and over libp2p, \<open>verify-file\<close>, the lookup of providers and fetching a signed
  tree head. A TCP network is a function: what connecting to a peer gives when the
  connection carries this request, and the network after the exchange. A libp2p network is
  the events the swarm reports when it sends this request to this address.
\<close>

section \<open>Peers\<close>

type_synonym 's tcp = "string \<Rightarrow> Message \<Rightarrow> 's \<Rightarrow> (Stream, io_error) res \<times> 's"
type_synonym 's p2p = "multiaddr \<Rightarrow> Message \<Rightarrow> 's \<Rightarrow> swarm_event list \<times> 's"

definition tcp_fetch :: "'s tcp \<Rightarrow> string \<Rightarrow> DropId \<Rightarrow> 's \<Rightarrow> (bytes option, io_error) res \<times> 's" where
  "tcp_fetch tcp peer i n = (case tcp peer (Want i) n of (conn, n) \<Rightarrow> (fst (fetch conn i), n))"

definition tcp_fetch_chunk :: "'s tcp \<Rightarrow> string \<Rightarrow> DropId \<Rightarrow> u32 \<Rightarrow> 's \<Rightarrow> (bytes option, io_error) res \<times> 's" where
  "tcp_fetch_chunk tcp peer i index n =
    (case tcp peer (WantChunk i index) n of (conn, n) \<Rightarrow> (fst (fetch_chunk conn i index), n))"

definition tcp_push_drop :: "'s tcp \<Rightarrow> string \<Rightarrow> bytes \<Rightarrow> 's \<Rightarrow> (bool, io_error) res \<times> 's" where
  "tcp_push_drop tcp peer raw n = (case tcp peer (Put raw) n of (conn, n) \<Rightarrow> (fst (push_drop conn raw), n))"

definition tcp_push_chunk :: "'s tcp \<Rightarrow> string \<Rightarrow> DropId \<Rightarrow> u32 \<Rightarrow> bytes \<Rightarrow> 's \<Rightarrow> (bool, io_error) res \<times> 's" where
  "tcp_push_chunk tcp peer i index data n =
    (case tcp peer (PutChunk i index data) n of (conn, n) \<Rightarrow> (fst (push_chunk conn i index data), n))"

definition p2p_get :: "swarm \<Rightarrow> 's p2p \<Rightarrow> multiaddr \<Rightarrow> DropId \<Rightarrow> 's \<Rightarrow> (bytes option, p2p_error) res \<times> 's" where
  "p2p_get sw p2p addr i n = (case p2p addr (Want i) n of (events, n) \<Rightarrow> (fetch_drop sw addr i events, n))"

definition p2p_get_chunk :: "swarm \<Rightarrow> 's p2p \<Rightarrow> multiaddr \<Rightarrow> DropId \<Rightarrow> u32 \<Rightarrow> 's \<Rightarrow> (bytes option, p2p_error) res \<times> 's" where
  "p2p_get_chunk sw p2p addr i index n =
    (case p2p addr (WantChunk i index) n of (events, n) \<Rightarrow> (p2p_fetch_chunk sw addr i index events, n))"

text \<open>A call of a peer function from a command, its error put into context.\<close>

definition ask :: "('e \<Rightarrow> cli_error) \<Rightarrow> ('s \<Rightarrow> ('a, 'e) res \<times> 's) \<Rightarrow> ('a, 's) command" where
  "ask err f = on_net (\<lambda>n. case f n of (r, n) \<Rightarrow> (map_err err r, n))"

section \<open>Fetching\<close>

text \<open>The loop over the chunks, from \<open>k\<close> on, for the remaining number of them.\<close>

fun receive_chunks ::
    "hex_codec \<Rightarrow> ('e \<Rightarrow> nat \<Rightarrow> cli_error) \<Rightarrow> (DropId \<Rightarrow> u32 \<Rightarrow> 's \<Rightarrow> (bytes option, 'e) res \<times> 's)
      \<Rightarrow> DropId \<Rightarrow> nat \<Rightarrow> nat \<Rightarrow> (unit, 's) command" where
  "receive_chunks H err getc i k 0 = act_res (Ok ())"
| "receive_chunks H err getc i k (Suc left) =
    act_then (ask (\<lambda>e. err e k) (getc i (of_nat k))) (\<lambda>found.
    act_then (act_res (ok_or (Bail (''peer is missing chunk '' @ decimal k)) found)) (\<lambda>chunk.
    act_then (on_store CliStore (act_disk (disk_write (chunk_path H i k) chunk))) (\<lambda>_.
    receive_chunks H err getc i (Suc k) left)))"

text \<open>What \<open>fetch\<close> and \<open>p2p_fetch\<close> do with the envelope a peer returned for the id.\<close>

definition receive_drop ::
    "crypto \<Rightarrow> hex_codec \<Rightarrow> ('e \<Rightarrow> nat \<Rightarrow> cli_error) \<Rightarrow> (DropId \<Rightarrow> u32 \<Rightarrow> 's \<Rightarrow> (bytes option, 'e) res \<times> 's)
      \<Rightarrow> DropId \<Rightarrow> bytes \<Rightarrow> (u32, 's) command" where
  "receive_drop C H err getc i raw =
    act_then (act_res (map_err CliCore (SignedDrop_decode raw))) (\<lambda>signed.
    act_then (act_res (map_err (\<lambda>_. Bail ''peer sent an invalid signature'') (SignedDrop_verify C signed))) (\<lambda>_.
    act_then (act_res (map_err CliCore (SignedDrop_body signed))) (\<lambda>body.
    if \<not> DropBody_pow_ok C body (sd_signer signed) then bail ''peer sent a drop with invalid proof-of-work'' else
    act_then (on_store CliStore (act_disk (ignore_failure (disk_create_dir_all [''drops''])))) (\<lambda>_.
    act_then (on_store (\<lambda>_. Bail ''writing fetched drop'') (act_disk (disk_write (drop_path H i) raw))) (\<lambda>_.
    act_then (on_store CliStore (act_disk (ignore_failure (disk_create_dir_all (chunk_dir H i))))) (\<lambda>_.
    act_then (receive_chunks H err getc i 0 (unat (db_chunk_count body))) (\<lambda>_.
    act_then (on_store CliStore (act_disk (ignore_failure (append_log_entry raw)))) (\<lambda>_.
    act_res (Ok (db_chunk_count body))))))))))"

definition cmd_fetch :: "crypto \<Rightarrow> hex_codec \<Rightarrow> 's tcp \<Rightarrow> string \<Rightarrow> string \<Rightarrow> (unit, 's) command" where
  "cmd_fetch C H tcp peer id_text =
    act_then (cli_id H id_text) (\<lambda>i.
    act_then (ask (\<lambda>_. Bail (''fetching '' @ id_text @ '' from '' @ peer)) (tcp_fetch tcp peer i)) (\<lambda>found.
    act_then (act_res (ok_or (Bail (''peer does not have drop '' @ id_text)) found)) (\<lambda>raw.
    act_then (receive_drop C H (\<lambda>_ k. Bail (''fetching chunk '' @ decimal k)) (tcp_fetch_chunk tcp peer) i raw) (\<lambda>received.
    println (''fetched '' @ id_hex H i @ '' ('' @ decimal (unat received) @ '' chunks) from '' @ peer)))))"

definition parse_multiaddr :: "(string \<Rightarrow> multiaddr option) \<Rightarrow> string \<Rightarrow> (multiaddr, 's) command" where
  "parse_multiaddr parse s = act_res (ok_or (Bail (''invalid multiaddr: '' @ s)) (parse s))"

definition cmd_p2p_fetch ::
    "crypto \<Rightarrow> hex_codec \<Rightarrow> (string \<Rightarrow> multiaddr option) \<Rightarrow> swarm \<Rightarrow> 's p2p \<Rightarrow> string \<Rightarrow> string \<Rightarrow> (unit, 's) command" where
  "cmd_p2p_fetch C H parse sw p2p peer id_text =
    act_then (parse_multiaddr parse peer) (\<lambda>addr.
    act_then (cli_id H id_text) (\<lambda>i.
    act_then (ask CliP2p (p2p_get sw p2p addr i)) (\<lambda>found.
    act_then (act_res (ok_or (Bail (''peer does not have drop '' @ id_text)) found)) (\<lambda>raw.
    act_then (receive_drop C H (\<lambda>e _. CliP2p e) (p2p_get_chunk sw p2p addr) i raw) (\<lambda>received.
    println (''fetched '' @ id_hex H i @ '' ('' @ decimal (unat received) @ '' chunks) via libp2p from '' @ peer))))))"

section \<open>Pushing\<close>

fun push_chunks ::
    "hex_codec \<Rightarrow> (DropId \<Rightarrow> u32 \<Rightarrow> bytes \<Rightarrow> 's \<Rightarrow> (bool, io_error) res \<times> 's) \<Rightarrow> DropId \<Rightarrow> nat \<Rightarrow> nat \<Rightarrow> (unit, 's) command" where
  "push_chunks H putc i k 0 = act_res (Ok ())"
| "push_chunks H putc i k (Suc left) =
    act_then (on_store (\<lambda>_. Bail (''reading '' @ path_text (chunk_path H i k)))
      (act_read (\<lambda>d. ok_or StoreIo (disk_read d (chunk_path H i k))))) (\<lambda>data.
    act_then (ask CliNet (putc i (of_nat k) data)) (\<lambda>stored.
    if \<not> stored then bail (''peer rejected chunk '' @ decimal k)
    else push_chunks H putc i (Suc k) left))"

definition cmd_push :: "crypto \<Rightarrow> hex_codec \<Rightarrow> 's tcp \<Rightarrow> string \<Rightarrow> string \<Rightarrow> (unit, 's) command" where
  "cmd_push C H tcp peer id_text =
    act_then (cli_id H id_text) (\<lambda>i.
    act_then (on_store (\<lambda>_. Bail (''no such drop: '' @ id_text))
      (act_read (\<lambda>d. ok_or StoreIo (disk_read d (drop_path H i))))) (\<lambda>raw.
    act_then (act_res (map_err CliCore (SignedDrop_decode raw))) (\<lambda>signed.
    act_then (act_res (map_err CliCore (SignedDrop_body signed))) (\<lambda>body.
    act_then (ask CliNet (tcp_push_drop tcp peer raw)) (\<lambda>stored.
    if \<not> stored then bail ''peer rejected the drop'' else
    act_then (push_chunks H (tcp_push_chunk tcp peer) i 0 (unat (db_chunk_count body))) (\<lambda>_.
    println (''pushed '' @ id_hex H i @ '' to '' @ peer @ '' ('' @ decimal (unat (db_chunk_count body))
      @ '' chunks, stored as ciphertext)'')))))))"

section \<open>Other commands\<close>

definition verify_file :: "crypto \<Rightarrow> hex_codec \<Rightarrow> path \<Rightarrow> (unit, 's) command" where
  "verify_file C H p =
    act_then (\<lambda>c. Some (ok_or (Bail (''reading '' @ path_text p)) (disk_read (co_files c) p), c)) (\<lambda>raw.
    act_then (act_res (map_err (\<lambda>_. Bail ''malformed drop envelope'') (SignedDrop_decode raw))) (\<lambda>signed.
    act_then (act_res (map_err (\<lambda>_. Bail ''signature invalid'') (SignedDrop_verify C signed))) (\<lambda>_.
    act_then (act_res (map_err (\<lambda>_. Bail ''malformed drop body'') (SignedDrop_body signed))) (\<lambda>body.
    print_lines [''id:         '' @ id_hex H (SignedDrop_id C signed),
      ''signature:  ok ('' @ sig_kind_text (sd_sig_kind signed) @ '')'',
      ''suite:      '' @ decimal (unat (db_suite body)),
      ''pow:        '' @ ok_text (DropBody_pow_ok C body (sd_signer signed)),
      ''cell:       '' @ db_cell body, ''ring:       '' @ decimal (unat (db_ring body)),
      ''created:    '' @ decimal (unat (db_created_at body)), ''expiry:     '' @ decimal (unat (db_expiry body)),
      ''chunks:     '' @ decimal (unat (db_chunk_count body)), ''content:    '' @ hex_encode H (db_content_root body)]))))"

definition sth_fetch :: "crypto \<Rightarrow> hex_codec \<Rightarrow> 's tcp \<Rightarrow> string \<Rightarrow> (unit, 's) command" where
  "sth_fetch C H tcp peer =
    act_then (ask (\<lambda>_. Bail (''fetching STH from '' @ peer))
      (\<lambda>n. case tcp peer GetSth n of (conn, n) \<Rightarrow> (fst (fetch_sth conn), n))) (\<lambda>found.
    act_then (act_res (ok_or (Bail (''peer '' @ peer @ '' did not return an STH'')) found)) (\<lambda>sth.
    act_then (act_res (map_err (\<lambda>_. Bail ''STH signature invalid'') (SignedTreeHead_verify C sth))) (\<lambda>_.
    print_lines [''tree size:  '' @ decimal (unat (sth_tree_size sth)), ''root:       '' @ hex_encode H (sth_root sth),
      ''timestamp:  '' @ decimal (unat (sth_timestamp sth)), ''log:        '' @ hex_encode H (sth_log_public sth),
      ''signature:  ok''])))"

definition find_providers_cmd ::
    "('f, 'l, 'r, 'c) h3 \<Rightarrow> (string list \<Rightarrow> string list) \<Rightarrow> (string list \<Rightarrow> string list)
      \<Rightarrow> (string \<Rightarrow> multiaddr option) \<Rightarrow> (multiaddr \<Rightarrow> string \<Rightarrow> (peer_id list, p2p_error) res)
      \<Rightarrow> string \<Rightarrow> string \<Rightarrow> u32 \<Rightarrow> (unit, 's) command" where
  "find_providers_cmd A shuffle finish parse lookup peer cell ring =
    act_then (parse_multiaddr parse peer) (\<lambda>addr.
    act_then (act_res (map_err CliP2p (fst (find_providers_private A shuffle finish (lookup addr) cell ring)))) (\<lambda>providers.
    act_then (if providers = [] then println (''(no providers for '' @ cell @ '')'') else act_res (Ok ())) (\<lambda>_.
    print_lines providers)))"

text \<open>The commands that serve: what they serve once the address is bound.\<close>

definition cmd_serve :: "crypto \<Rightarrow> hex_codec \<Rightarrow> (string \<Rightarrow> (unit, io_error) res) \<Rightarrow> string \<Rightarrow> (SharedStore, 's) command" where
  "cmd_serve C H bind' listen =
    act_then (on_store CliStore (act_read (load_store C H))) (\<lambda>s.
    act_then (act_res (map_err (\<lambda>_. Bail (''binding '' @ listen)) (bind' listen))) (\<lambda>_.
    act_then (println (''serving drops on '' @ listen @ '' (ciphertext only)'')) (\<lambda>_.
    act_res (Ok \<lparr>ss_poisoned = False, ss_store = s\<rparr>))))"

definition sth_serve :: "crypto \<Rightarrow> hex_codec \<Rightarrow> (string \<Rightarrow> (unit, io_error) res) \<Rightarrow> string \<Rightarrow> (SignedTreeHead, 's) command" where
  "sth_serve C H bind' listen =
    act_then (local_sth C H) (\<lambda>sth.
    act_then (act_res (map_err (\<lambda>_. Bail (''binding '' @ listen)) (bind' listen))) (\<lambda>_.
    act_then (println (''serving STH (tree size '' @ decimal (unat (sth_tree_size sth)) @ '') on '' @ listen)) (\<lambda>_.
    act_res (Ok sth))))"

definition cmd_p2p_serve ::
    "crypto \<Rightarrow> hex_codec \<Rightarrow> (string \<Rightarrow> multiaddr option) \<Rightarrow> swarm \<Rightarrow> string \<Rightarrow> swarm_event list \<Rightarrow> (Server, 's) command" where
  "cmd_p2p_serve C H parse sw listen events =
    act_then (parse_multiaddr parse listen) (\<lambda>addr.
    act_then (on_store CliStore (act_read (load_store C H))) (\<lambda>s.
    act_then (println (''libp2p serving on '' @ listen @ '' (QUIC + TCP, ciphertext only)'')) (\<lambda>_.
    act_res (map_err CliP2p (p2p_serve sw addr \<lparr>ss_poisoned = False, ss_store = s\<rparr> events)))))"

text \<open>The files a fetch writes, on a directory in order.\<close>

lemma received_files:
  assumes "layout_ok d0" "log_holds es d0" "length raw \<le> u32_max"
  obtains d1 d2 d3 d4 d where
    "disk_create_dir_all [''drops''] d0 = Ok d1" "disk_write (drop_path H i) raw d1 = Ok d2"
    "disk_create_dir_all (chunk_dir H i) d2 = Ok d3" "write_chunks H i 0 cs d3 = Ok d4" "append_log_entry raw d4 = Ok d"
    "layout_ok d" "log_holds (es @ [raw]) d" "holds_drop H d i raw cs"
    "\<And>q. length q = 1 \<Longrightarrow> disk_read d q = disk_read d0 q"
proof -
  obtain d1 where d1: "disk_create_dir_all [''drops''] d0 = Ok d1" "layout_ok d1" "[''drops''] \<in> set (dk_dirs d1)"
    "\<And>q. disk_read d1 q = disk_read d0 q"
    by (rule mkdir_in_layout [OF assms(1) layout_paths(11)]) (rule that)
  have p: "butlast (drop_path H i) = [] \<or> butlast (drop_path H i) \<in> set (dk_dirs d1)" using d1(3) by (simp add: drop_path_def)
  obtain d2 where d2: "disk_write (drop_path H i) raw d1 = Ok d2" "layout_ok d2"
    "\<And>q. disk_read d2 q = (if q = drop_path H i then Some raw else disk_read d1 q)"
    by (rule write_in_layout [OF d1(2) layout_paths(7) p]) (rule that)
  obtain d3 where d3: "disk_create_dir_all (chunk_dir H i) d2 = Ok d3" "layout_ok d3" "chunk_dir H i \<in> set (dk_dirs d3)"
    "\<And>q. disk_read d3 q = disk_read d2 q"
    by (rule mkdir_in_layout [OF d2(2) layout_paths(10)]) (rule that)
  obtain d4 where d4: "write_chunks H i 0 cs d3 = Ok d4" "layout_ok d4"
    "\<forall>k < length cs. disk_read d4 (chunk_path H i k) = Some (cs ! k)"
    "\<And>q. (\<forall>n. q \<noteq> chunk_path H i n) \<Longrightarrow> disk_read d4 q = disk_read d3 q"
    using write_chunks_ok [OF d3(2,3), of 0 cs] by auto
  have paths: "drop_path H i \<noteq> chunk_path H i k" "entries_path \<noteq> drop_path H i" "entries_path \<noteq> chunk_path H i k"
    "length q = 1 \<Longrightarrow> q \<noteq> drop_path H i \<and> q \<noteq> chunk_path H i k \<and> q \<noteq> entries_path" for k q
    by (auto simp: path_defs chunk_path_def)
  have "log_holds es d4" using assms(2) paths d4(4) d3(4) d2(3) d1(4) by (simp add: log_holds_def)
  then obtain d where d: "append_log_entry raw d4 = Ok d" "layout_ok d" "log_holds (es @ [raw]) d"
    "\<And>q. q \<noteq> entries_path \<Longrightarrow> disk_read d q = disk_read d4 q"
    by (rule append_log_entry_ok [OF d4(2) _ assms(3)]) (rule that)
  have "holds_drop H d i raw cs" using d(4) d4(3,4) d3(4) d2(3) paths by (simp add: holds_drop_def paths(1-3) [symmetric])
  moreover have "disk_read d q = disk_read d0 q" if "length q = 1" for q
    using that paths d(4) d4(4) d3(4) d2(3) d1(4) by metis
  ultimately show ?thesis using that d1(1) d2(1) d3(1) d4(1) d(1-3) by metis
qed

section \<open>Frames\<close>

context disk_relation
begin

lemma keeps_ask: "keeps console_disk (ask err f)"
  unfolding ask_def by (rule keeps_outside)

lemma keeps_receive_chunks:
  "(\<And>n. chunk_path H i n \<notin> guarded) \<Longrightarrow> keeps console_disk (receive_chunks H err getc i k left)"
proof (induction left arbitrary: k)
  case (Suc left)
  then show ?case unfolding receive_chunks.simps by (intro command_intros keeps_ask Suc)
qed (simp add: keeps_res)

lemma keeps_receive_drop:
  assumes "drop_path H i \<notin> guarded" "\<And>n. chunk_path H i n \<notin> guarded"
  shows "keeps console_disk (receive_drop C H err getc i raw)"
  unfolding receive_drop_def by (intro command_intros keeps_receive_chunks assms)

end

section \<open>Interfaces of a peer\<close>

text \<open>
  What the fetching commands rely on: a peer in order answers a request for a drop or a chunk
  with what it holds, and asking changes nothing. A peer that also takes drops stores a valid
  envelope under its hash, and a chunk under its number.
\<close>

locale drop_source =
  fixes inv :: "'s \<Rightarrow> bool"
    and drops :: "'s \<Rightarrow> DropId \<Rightarrow> bytes option"
    and chunks :: "'s \<Rightarrow> DropId \<Rightarrow> u32 \<Rightarrow> bytes option"
    and get :: "DropId \<Rightarrow> 's \<Rightarrow> (bytes option, 'e) res \<times> 's"
    and getc :: "DropId \<Rightarrow> u32 \<Rightarrow> 's \<Rightarrow> (bytes option, 'e) res \<times> 's"
  assumes get_held: "inv n \<Longrightarrow> length (as_bytes i) = 32 \<Longrightarrow> get i n = (Ok (drops n i), n)"
    and getc_held: "inv n \<Longrightarrow> length (as_bytes i) = 32 \<Longrightarrow> getc i k n = (Ok (chunks n i k), n)"
begin

lemma ask_drop: "inv (co_net c) \<Longrightarrow> length (as_bytes i) = 32 \<Longrightarrow> ask err (get i) c = Some (Ok (drops (co_net c) i), c)"
  by (simp add: ask_def on_net_def get_held)

text \<open>Receiving chunks writes them as creating the drop did.\<close>

lemma receive_chunks_writes:
  assumes "inv (co_net c)" "length (as_bytes i) = 32"
    and "\<forall>j < length cs. chunks (co_net c) i (of_nat (k + j)) = Some (cs ! j)"
    and "write_chunks H i k cs (w_disk (co_world c)) = Ok d"
  shows "receive_chunks H err getc i k (length cs) c = Some (Ok (), c\<lparr>co_world := co_world c\<lparr>w_disk := d\<rparr>\<rparr>)"
  using assms
proof (induction cs arbitrary: k c)
  case (Cons b cs)
  obtain d1 where d1: "disk_write (chunk_path H i k) b (w_disk (co_world c)) = Ok d1" "write_chunks H i (Suc k) cs d1 = Ok d"
    using Cons.prems(4) by (auto simp: chunk_path_def)
  let ?c = "c\<lparr>co_world := co_world c\<lparr>w_disk := d1\<rparr>\<rparr>"
  have "\<forall>j < length cs. chunks (co_net ?c) i (of_nat (Suc k + j)) = Some (cs ! j)"
  proof (intro allI impI)
    fix j assume "j < length cs"
    then show "chunks (co_net ?c) i (of_nat (Suc k + j)) = Some (cs ! j)"
      using Cons.prems(3) [rule_format, of "Suc j"] by (simp add: add.left_commute)
  qed
  then have "receive_chunks H err getc i (Suc k) (length cs) ?c = Some (Ok (), ?c\<lparr>co_world := co_world ?c\<lparr>w_disk := d\<rparr>\<rparr>)"
    using Cons.prems(1,2) d1(2) by (intro Cons.IH) simp_all
  moreover have "chunks (co_net c) i (of_nat k) = Some b" using Cons.prems(3) by auto
  ultimately show ?case
    using Cons.prems(1,2) d1(1) by (simp add: act_defs ask_def on_net_def getc_held on_store_def)
qed (simp add: act_res_def)

lemma receive_drop_stores:
  assumes "inv (co_net c)" "length (as_bytes i) = 32"
    and "SignedDrop_decode raw = Ok sd" "SignedDrop_verify C sd = Ok ()" "SignedDrop_body sd = Ok body"
    and "DropBody_pow_ok C body (sd_signer sd)" "length cs = unat (db_chunk_count body)"
    and "\<forall>j < length cs. chunks (co_net c) i (of_nat j) = Some (cs ! j)"
    and "layout_ok (w_disk (co_world c))" "log_holds es (w_disk (co_world c))" "length raw \<le> u32_max"
  obtains d where "receive_drop C H err getc i raw c
      = Some (Ok (db_chunk_count body), c\<lparr>co_world := co_world c\<lparr>w_disk := d\<rparr>\<rparr>)"
    "layout_ok d" "log_holds (es @ [raw]) d" "holds_drop H d i raw cs"
    "\<And>q. length q = 1 \<Longrightarrow> disk_read d q = disk_read (w_disk (co_world c)) q"
proof -
  obtain d1 d2 d3 d4 d where d:
    "disk_create_dir_all [''drops''] (w_disk (co_world c)) = Ok d1" "disk_write (drop_path H i) raw d1 = Ok d2"
    "disk_create_dir_all (chunk_dir H i) d2 = Ok d3" "write_chunks H i 0 cs d3 = Ok d4" "append_log_entry raw d4 = Ok d"
    and r: "layout_ok d" "log_holds (es @ [raw]) d" "holds_drop H d i raw cs"
      "\<And>q. length q = 1 \<Longrightarrow> disk_read d q = disk_read (w_disk (co_world c)) q"
    by (rule received_files [OF assms(9-11), of H i cs]) (rule that)
  have "receive_chunks H err getc i 0 (length cs) (c\<lparr>co_world := co_world c\<lparr>w_disk := d3\<rparr>\<rparr>)
      = Some (Ok (), c\<lparr>co_world := co_world c\<lparr>w_disk := d4\<rparr>\<rparr>)"
    using receive_chunks_writes [of "c\<lparr>co_world := co_world c\<lparr>w_disk := d3\<rparr>\<rparr>" i cs 0 H d4 err] assms(1,2,8) d(4) by simp
  then have "receive_drop C H err getc i raw c = Some (Ok (db_chunk_count body), c\<lparr>co_world := co_world c\<lparr>w_disk := d\<rparr>\<rparr>)"
    using assms(3-6) d(1-3,5)
    by (simp add: receive_drop_def act_defs on_store_def ignore_failure_def assms(7) [symmetric])
  then show ?thesis using r that by metis
qed

end

locale relay_link = drop_source inv drops chunks get getc
  for inv :: "'s \<Rightarrow> bool"
    and drops :: "'s \<Rightarrow> DropId \<Rightarrow> bytes option"
    and chunks :: "'s \<Rightarrow> DropId \<Rightarrow> u32 \<Rightarrow> bytes option"
    and get :: "DropId \<Rightarrow> 's \<Rightarrow> (bytes option, io_error) res \<times> 's"
    and getc :: "DropId \<Rightarrow> u32 \<Rightarrow> 's \<Rightarrow> (bytes option, io_error) res \<times> 's" +
  fixes good :: "bytes \<Rightarrow> bool"
    and name :: "bytes \<Rightarrow> DropId"
    and put :: "bytes \<Rightarrow> 's \<Rightarrow> (bool, io_error) res \<times> 's"
    and putc :: "DropId \<Rightarrow> u32 \<Rightarrow> bytes \<Rightarrow> 's \<Rightarrow> (bool, io_error) res \<times> 's"
  assumes put_good: "inv n \<Longrightarrow> good raw \<Longrightarrow> length raw \<le> 8000000 \<Longrightarrow>
      fst (put raw n) = Ok True \<and> inv (snd (put raw n)) \<and> drops (snd (put raw n)) = (drops n)(name raw \<mapsto> raw)
      \<and> chunks (snd (put raw n)) = chunks n"
    and putc_any: "inv n \<Longrightarrow> length (as_bytes i) = 32 \<Longrightarrow> length bs \<le> 7000000 \<Longrightarrow>
      fst (putc i k bs n) = Ok True \<and> inv (snd (putc i k bs n)) \<and> drops (snd (putc i k bs n)) = drops n
      \<and> chunks (snd (putc i k bs n)) = (chunks n)(i := (chunks n i)(k \<mapsto> bs))"
begin

lemma push_chunks_stores:
  assumes "inv (co_net c)" "length (as_bytes i) = 32" "\<forall>b \<in> set cs. length b \<le> 7000000"
    and "\<forall>j < length cs. disk_read (w_disk (co_world c)) (chunk_path H i (k + j)) = Some (cs ! j)"
    and "k + length cs < 2 ^ 32"
  shows "\<exists>n. push_chunks H putc i k (length cs) c = Some (Ok (), c\<lparr>co_net := n\<rparr>) \<and> inv n \<and> drops n = drops (co_net c)
    \<and> (\<forall>w. chunks n i w = (if k \<le> unat w \<and> unat w < k + length cs then Some (cs ! (unat w - k)) else chunks (co_net c) i w))"
  using assms
proof (induction cs arbitrary: k c)
  case (Cons b cs)
  let ?n = "snd (putc i (of_nat k) b (co_net c))"
  have p: "fst (putc i (of_nat k) b (co_net c)) = Ok True" "inv ?n" "drops ?n = drops (co_net c)"
    "chunks ?n = (chunks (co_net c))(i := (chunks (co_net c) i)(of_nat k \<mapsto> b))"
    using putc_any [OF Cons.prems(1,2), of b "of_nat k"] Cons.prems(3) by auto
  have "\<forall>j < length cs. disk_read (w_disk (co_world c)) (chunk_path H i (Suc k + j)) = Some (cs ! j)"
    using Cons.prems(4) [rule_format, of "Suc _"] by simp
  with Cons.IH [of "c\<lparr>co_net := ?n\<rparr>" "Suc k"] p(2) Cons.prems(2,3,5) obtain n where
    n: "push_chunks H putc i (Suc k) (length cs) (c\<lparr>co_net := ?n\<rparr>) = Some (Ok (), c\<lparr>co_net := n\<rparr>)" "inv n" "drops n = drops ?n"
      "\<forall>w. chunks n i w = (if Suc k \<le> unat w \<and> unat w < Suc k + length cs then Some (cs ! (unat w - Suc k)) else chunks ?n i w)"
    by auto
  have "disk_read (w_disk (co_world c)) (chunk_path H i k) = Some b" using Cons.prems(4) by auto
  then have run: "push_chunks H putc i k (length (b # cs)) c = Some (Ok (), c\<lparr>co_net := n\<rparr>)"
    using n(1) p(1) by (simp add: act_defs on_store_def ask_def on_net_def case_prod_beta)
  have k: "unat (of_nat k :: u32) = k" using Cons.prems(5) by (simp add: unat_of_nat take_bit_nat_eq_self)
  have "chunks n i w = (if k \<le> unat w \<and> unat w < k + length (b # cs) then Some ((b # cs) ! (unat w - k)) else chunks (co_net c) i w)" for w
  proof (cases "w = of_nat k")
    case True then show ?thesis using n(4) p(4) k by simp
  next
    case False
    then have "unat w \<noteq> k" by auto
    then show ?thesis using n(4) p(4) False by (auto simp: nth_Cons' Suc_diff_Suc)
  qed
  then show ?case using run n(2,3) p(3) by auto
qed (auto simp: act_res_def intro!: exI [of _ "co_net _"])

end

section \<open>A relay on the network\<close>

text \<open>
  The network in which every TCP connection reaches one relay: the relay runs on the greeting
  and the request, and what it writes is what the client reads. That is a session of the two
  ends in the sense of the transport. Over libp2p the events are a connection and the answer
  of the node.
\<close>

definition relay_tcp :: "crypto \<Rightarrow> SharedStore tcp" where
  "relay_tcp C peer m s =
    (case respond C (open_stream (frame_bytes (Hello PROTO_VERSION) @ frame_bytes m)) s of
       (r, st, s') \<Rightarrow> (Ok (open_stream (st_outbox st)), s'))"

definition node_p2p :: "peer_id \<Rightarrow> swarm \<Rightarrow> SharedStore p2p" where
  "node_p2p peer sw addr m s = ([ConnectionEstablished peer, DropResponse (sw_request_id sw 0) (p2p_respond s m)], s)"

lemma relay_tcp_answers:
  assumes "fits m" "message_wf m" "respond_message C m s = (Ok (reply, True), s')" "fits reply" "message_wf reply"
  shows "snd (relay_tcp C peer m s) = s'" "fst (request (fst (relay_tcp C peer m s)) m) = Ok (Some reply)"
    "session (respond C) s (\<lambda>conn. request conn m) (fst (request (fst (relay_tcp C peer m s)) m)) s'"
proof -
  let ?h = "frame_bytes (Hello PROTO_VERSION)"
  have server: "respond C (open_stream (?h @ frame_bytes m)) s
      = (Ok (), \<lparr>st_inbox = [], st_reset = False, st_room = None, st_outbox = ?h @ frame_bytes reply\<rparr>, s')"
    by (simp add: respond_def relay_server.loop_greeting relay_server.loop_request [OF assms(1-4)])
  have client: "request (Ok (open_stream (?h @ frame_bytes reply))) m = (Ok (Some reply), ?h @ frame_bytes m)"
    using assms(1) relay_server.greeting_fits(1) net_recv_frame [OF relay_server.greeting_fits, where rest = "frame_bytes reply"]
      net_recv_frame [OF assms(4,5), where rest = "[]"]
    by (simp add: request_def open_stream_def net_send_open)
  show "snd (relay_tcp C peer m s) = s'" by (simp add: relay_tcp_def server)
  show r: "fst (request (fst (relay_tcp C peer m s)) m) = Ok (Some reply)" by (simp add: relay_tcp_def server client)
  show "session (respond C) s (\<lambda>conn. request conn m) (fst (request (fst (relay_tcp C peer m s)) m)) s'"
    unfolding r respond_def using relay_server.request_served [OF assms] by blast
qed

abbreviation relay_good :: "crypto \<Rightarrow> SharedStore \<Rightarrow> bool" where
  "relay_good C s \<equiv> sha256_laws C \<and> relay_ok C s \<and> \<not> ss_poisoned s"

lemma tcp_fetch_held:
  assumes "relay_good C s" "length (as_bytes i) = 32"
  shows "tcp_fetch (relay_tcp C) peer i s = (Ok (get_drop (ss_store s) i), s)"
    and "tcp_fetch_chunk (relay_tcp C) peer i k s = (Ok (get_chunk (ss_store s) i k), s)"
proof -
  let ?d = "case get_drop (ss_store s) i of Some raw \<Rightarrow> Drop raw | None \<Rightarrow> Missing i"
  let ?c = "case get_chunk (ss_store s) i k of Some bs \<Rightarrow> Chunk i k bs | None \<Rightarrow> Missing i"
  have fit: "fits (Want i)" "fits (WantChunk i k)" "fits (Missing i)" using assms(2) by (simp_all add: small_fits)
  have h: "respond_message C (Want i) s = (Ok (?d, True), s)" "respond_message C (WantChunk i k) s = (Ok (?c, True), s)"
    using assms(1) by (simp_all split: option.split)
  have fr: "fits ?d" "message_wf ?d" "fits ?c" "message_wf ?c"
    using assms fit(3) by (auto simp: relay_ok_def split: option.split)
  note d = relay_tcp_answers(1,2) [OF fit(1) _ h(1) fr(1,2), of peer] and c = relay_tcp_answers(1,2) [OF fit(2) _ h(2) fr(3,4), of peer]
  show "tcp_fetch (relay_tcp C) peer i s = (Ok (get_drop (ss_store s) i), s)"
    using d assms(2) by (cases "get_drop (ss_store s) i") (simp_all add: tcp_fetch_def fetch_def on_reply_def case_prod_beta)
  show "tcp_fetch_chunk (relay_tcp C) peer i k s = (Ok (get_chunk (ss_store s) i k), s)"
    using c assms(2) by (cases "get_chunk (ss_store s) i k")
      (simp_all add: tcp_fetch_chunk_def fetch_chunk_def on_reply_def case_prod_beta)
qed

lemma tcp_push_stored:
  assumes "relay_good C s"
  shows "valid_envelope C raw \<Longrightarrow> length raw \<le> 8000000 \<Longrightarrow> tcp_push_drop (relay_tcp C) peer raw s
      = (Ok True, s\<lparr>ss_store := put_drop (DropId_of C raw) raw (ss_store s)\<rparr>)"
    and "length (as_bytes i) = 32 \<Longrightarrow> length bs \<le> 7000000 \<Longrightarrow> tcp_push_chunk (relay_tcp C) peer i k bs s
      = (Ok True, s\<lparr>ss_store := put_chunk i k bs (ss_store s)\<rparr>)"
proof -
  have len: "length (as_bytes (DropId_of C raw)) = 32" using assms length_DropId_of by blast
  show "tcp_push_drop (relay_tcp C) peer raw s = (Ok True, s\<lparr>ss_store := put_drop (DropId_of C raw) raw (ss_store s)\<rparr>)"
    if "valid_envelope C raw" "length raw \<le> 8000000"
    using relay_tcp_answers(1,2) [of "Put raw" C s "Stored (DropId_of C raw)" _ peer] that assms len
    by (simp add: tcp_push_drop_def push_drop_def on_reply_def case_prod_beta respond_put small_fits del: respond_message.simps)
  show "tcp_push_chunk (relay_tcp C) peer i k bs s = (Ok True, s\<lparr>ss_store := put_chunk i k bs (ss_store s)\<rparr>)"
    if "length (as_bytes i) = 32" "length bs \<le> 7000000"
    using relay_tcp_answers(1,2) [of "PutChunk i k bs" C s "Stored i" _ peer] that assms
    by (simp add: tcp_push_chunk_def push_chunk_def on_reply_def case_prod_beta small_fits)
qed

lemma p2p_get_held:
  assumes "\<not> ss_poisoned s" "sw_build sw = Ok ()" "sw_dial sw addr = Ok ()"
  shows "p2p_get sw (node_p2p peer sw) addr i s = (Ok (get_drop (ss_store s) i), s)"
    and "p2p_get_chunk sw (node_p2p peer sw) addr i k s = (Ok (get_chunk (ss_store s) i k), s)"
  using assms p2p_request_answered [of sw addr "[]" "[]" _ peer _ "[]"]
  by (auto simp: p2p_get_def p2p_get_chunk_def node_p2p_def fetch_drop_def p2p_fetch_chunk_def p2p_respond_def split: option.splits)

interpretation relay_peer: relay_link "relay_good C" "\<lambda>s. get_drop (ss_store s)" "\<lambda>s. get_chunk (ss_store s)"
    "tcp_fetch (relay_tcp C) peer" "tcp_fetch_chunk (relay_tcp C) peer" "valid_envelope C" "DropId_of C"
    "tcp_push_drop (relay_tcp C) peer" "tcp_push_chunk (relay_tcp C) peer" for C peer
  by unfold_locales
    (auto simp: tcp_fetch_held tcp_push_stored fun_eq_iff memory.getd_putd memory.get_putd memory.getd_put memory.get_put
      intro!: relay_ok_put_drop relay_ok_put_chunk small_fits)

interpretation p2p_peer: drop_source "\<lambda>s. \<not> ss_poisoned s \<and> sw_build sw = Ok () \<and> sw_dial sw addr = Ok ()"
    "\<lambda>s. get_drop (ss_store s)" "\<lambda>s. get_chunk (ss_store s)" "p2p_get sw (node_p2p peer sw) addr"
    "p2p_get_chunk sw (node_p2p peer sw) addr" for sw addr peer
  by unfold_locales (simp_all add: p2p_get_held)

section \<open>The commands against such a peer\<close>

text \<open>An envelope that every check of the fetching commands accepts, with its chunks.\<close>

definition good_drop :: "crypto \<Rightarrow> bytes \<Rightarrow> bytes list \<Rightarrow> bool" where
  "good_drop C raw cs \<longleftrightarrow> length raw \<le> 8000000 \<and> (\<forall>b \<in> set cs. length b \<le> 7000000)
    \<and> (\<exists>sd body. SignedDrop_decode raw = Ok sd \<and> SignedDrop_verify C sd = Ok () \<and> SignedDrop_body sd = Ok body
        \<and> DropBody_pow_ok C body (sd_signer sd) \<and> length cs = unat (db_chunk_count body))"

definition store_holds :: "MemoryStore \<Rightarrow> DropId \<Rightarrow> bytes \<Rightarrow> bytes list \<Rightarrow> bool" where
  "store_holds s i raw cs \<longleftrightarrow> get_drop s i = Some raw \<and> (\<forall>j < length cs. get_chunk s i (of_nat j) = Some (cs ! j))"

lemma push_works:
  assumes "hex_laws H" "relay_good C (co_net a)" "good_drop C raw cs" "i = DropId_of C raw"
    and "holds_drop H (w_disk (co_world a)) i raw cs"
  shows "\<exists>n out. cmd_push C H (relay_tcp C) peer (id_hex H i) a = Some (Ok (), a\<lparr>co_net := n, co_out := out\<rparr>)
    \<and> relay_good C n \<and> store_holds (ss_store n) i raw cs"
proof -
  obtain sd body where g: "SignedDrop_decode raw = Ok sd" "SignedDrop_verify C sd = Ok ()" "SignedDrop_body sd = Ok body"
    "length cs = unat (db_chunk_count body)" "length raw \<le> 8000000" "\<forall>b \<in> set cs. length b \<le> 7000000"
    using assms(3) by (auto simp: good_drop_def)
  have len: "length (as_bytes i) = 32" using assms(2,4) length_DropId_of by blast
  have valid: "valid_envelope C raw" using g(1,2) by (simp add: valid_envelope_def)
  obtain n1 where p: "tcp_push_drop (relay_tcp C) peer raw (co_net a) = (Ok True, n1)" "relay_good C n1"
    "get_drop (ss_store n1) = (get_drop (ss_store (co_net a)))(i \<mapsto> raw)"
    using relay_peer.put_good [OF assms(2) valid g(5), of peer] assms(4) by (metis prod.collapse)
  have small: "0 + length cs < 2 ^ 32" using g(4) unat_bound [of "db_chunk_count body"] by simp
  have files: "\<forall>j < length cs. disk_read (w_disk (co_world a)) (chunk_path H i (0 + j)) = Some (cs ! j)"
    "disk_read (w_disk (co_world a)) (drop_path H i) = Some raw" using assms(5) by (simp_all add: holds_drop_def)
  obtain n where n: "push_chunks H (tcp_push_chunk (relay_tcp C) peer) i 0 (length cs) (a\<lparr>co_net := n1\<rparr>) = Some (Ok (), a\<lparr>co_net := n\<rparr>)"
    "relay_good C n" "get_drop (ss_store n) = get_drop (ss_store n1)"
    "\<forall>w. get_chunk (ss_store n) i w = (if unat w < length cs then Some (cs ! unat w) else get_chunk (ss_store n1) i w)"
    using relay_peer.push_chunks_stores [of C "a\<lparr>co_net := n1\<rparr>" i cs H 0 peer] p(2) len g(6) files(1) small by auto
  have "get_chunk (ss_store n) i (of_nat j) = Some (cs ! j)" if "j < length cs" for j
    using that small n(4) by (simp add: unat_of_nat take_bit_nat_eq_self)
  then have "store_holds (ss_store n) i raw cs" using n(3) p(3) by (simp add: store_holds_def)
  moreover have "\<exists>out. cmd_push C H (relay_tcp C) peer (id_hex H i) a = Some (Ok (), a\<lparr>co_net := n, co_out := out\<rparr>)"
    using id_hex_parses [OF assms(1) len, of a] files(2) g(1,3,4) p(1) n(1)
    by (auto simp: cmd_push_def act_defs on_store_def ask_def on_net_def println_def print_bytes_def)
  ultimately show ?thesis using n(2) by blast
qed

text \<open>What a successful fetch leaves on the disk.\<close>

definition fetched :: "hex_codec \<Rightarrow> Disk \<Rightarrow> bytes list \<Rightarrow> DropId \<Rightarrow> bytes \<Rightarrow> bytes list \<Rightarrow> Disk \<Rightarrow> bool" where
  "fetched H d fs i raw cs d' \<longleftrightarrow> layout_ok d' \<and> log_holds (fs @ [raw]) d' \<and> holds_drop H d' i raw cs
    \<and> (\<forall>q. length q = 1 \<longrightarrow> disk_read d' q = disk_read d q)"

lemma fetch_works:
  assumes "hex_laws H" "relay_good C (co_net b)" "good_drop C raw cs" "length (as_bytes i) = 32"
    and "store_holds (ss_store (co_net b)) i raw cs"
    and "layout_ok (w_disk (co_world b))" "log_holds fs (w_disk (co_world b))"
  shows "\<exists>d out. cmd_fetch C H (relay_tcp C) peer (id_hex H i) b
      = Some (Ok (), b\<lparr>co_world := co_world b\<lparr>w_disk := d\<rparr>, co_out := out\<rparr>) \<and> fetched H (w_disk (co_world b)) fs i raw cs d"
    and "parse maddr = Some addr \<Longrightarrow> sw_build sw = Ok () \<Longrightarrow> sw_dial sw addr = Ok () \<Longrightarrow>
      \<exists>d out. cmd_p2p_fetch C H parse sw (node_p2p pid sw) maddr (id_hex H i) b
        = Some (Ok (), b\<lparr>co_world := co_world b\<lparr>w_disk := d\<rparr>, co_out := out\<rparr>) \<and> fetched H (w_disk (co_world b)) fs i raw cs d"
proof -
  obtain sd body where g: "SignedDrop_decode raw = Ok sd" "SignedDrop_verify C sd = Ok ()" "SignedDrop_body sd = Ok body"
    "DropBody_pow_ok C body (sd_signer sd)" "length cs = unat (db_chunk_count body)" "length raw \<le> 8000000"
    using assms(3) by (auto simp: good_drop_def)
  have size: "length raw \<le> u32_max" using g(6) by (simp add: u32_max_def)
  have held: "get_drop (ss_store (co_net b)) i = Some raw"
    "\<forall>j < length cs. get_chunk (ss_store (co_net b)) i (of_nat j) = Some (cs ! j)"
    using assms(5) by (simp_all add: store_holds_def)
  show "\<exists>d out. cmd_fetch C H (relay_tcp C) peer (id_hex H i) b
      = Some (Ok (), b\<lparr>co_world := co_world b\<lparr>w_disk := d\<rparr>, co_out := out\<rparr>) \<and> fetched H (w_disk (co_world b)) fs i raw cs d"
  proof (rule relay_peer.receive_drop_stores [OF assms(2,4) g(1-5) held(2) assms(6,7) size])
    fix d
    assume "receive_drop C H (\<lambda>_ k. Bail (''fetching chunk '' @ decimal k)) (tcp_fetch_chunk (relay_tcp C) peer) i raw b
        = Some (Ok (db_chunk_count body), b\<lparr>co_world := co_world b\<lparr>w_disk := d\<rparr>\<rparr>)"
      "layout_ok d" "log_holds (fs @ [raw]) d" "holds_drop H d i raw cs"
      "\<And>q. length q = 1 \<Longrightarrow> disk_read d q = disk_read (w_disk (co_world b)) q"
    then show ?thesis
      using id_hex_parses [OF assms(1,4), of b] relay_peer.ask_drop [OF assms(2,4)] held(1)
      by (auto simp: cmd_fetch_def act_defs println_def print_bytes_def fetched_def)
  qed
  show "\<exists>d out. cmd_p2p_fetch C H parse sw (node_p2p pid sw) maddr (id_hex H i) b
      = Some (Ok (), b\<lparr>co_world := co_world b\<lparr>w_disk := d\<rparr>, co_out := out\<rparr>) \<and> fetched H (w_disk (co_world b)) fs i raw cs d"
    if "parse maddr = Some addr" "sw_build sw = Ok ()" "sw_dial sw addr = Ok ()"
  proof -
    have inv: "\<not> ss_poisoned (co_net b) \<and> sw_build sw = Ok () \<and> sw_dial sw addr = Ok ()" using that assms(2) by simp
    show ?thesis
    proof (rule p2p_peer.receive_drop_stores [OF inv assms(4) g(1-5) held(2) assms(6,7) size])
      fix d
      assume "receive_drop C H (\<lambda>e _. CliP2p e) (p2p_get_chunk sw (node_p2p pid sw) addr) i raw b
          = Some (Ok (db_chunk_count body), b\<lparr>co_world := co_world b\<lparr>w_disk := d\<rparr>\<rparr>)"
        "layout_ok d" "log_holds (fs @ [raw]) d" "holds_drop H d i raw cs"
        "\<And>q. length q = 1 \<Longrightarrow> disk_read d q = disk_read (w_disk (co_world b)) q"
      then show ?thesis
        using id_hex_parses [OF assms(1,4), of b] p2p_peer.ask_drop [OF inv assms(4)] held(1) that(1)
        by (auto simp: cmd_p2p_fetch_def parse_multiaddr_def act_defs println_def print_bytes_def fetched_def)
    qed
  qed
qed

lemma fetched_device: "fetched H d fs i raw cs d' \<Longrightarrow> device C H reader hk d \<Longrightarrow> device C H reader hk d'"
  by (rule device_kept) (simp_all add: fetched_def)

lemma drop_open_prints:
  assumes "hex_laws H" "length (as_bytes i) = 32" "open_drop C H (w_disk (co_world c)) i = Ok plaintext"
  shows "drop_open C H (id_hex H i) None c = Some (Ok (), c\<lparr>co_out := co_out c @ plaintext @ str_bytes newline\<rparr>)"
  using id_hex_parses [OF assms(1,2), of c] assms(3)
  by (simp add: drop_open_def act_defs on_store_def print_bytes_def println_def)

section \<open>Properties\<close>

text \<open>
  C2. Sharing a drop through a relay. On two machines whose data directories are in order, a drop
  made from a file by one of them in either suite and addressed to the other can be pushed to a relay,
  fetched from there by the other, over TCP or over libp2p, and opened: every command
  succeeds, and what is printed at the end is the content of the file. The receiver's log
  gains exactly the envelope, and so does the author's.
\<close>

theorem share_a_drop:
  assumes "hkdf_laws C" "aead_laws C" "x25519_laws C" "sha256_laws C" "ed25519_laws C" "h3_laws A"
    and "\<And>xs r. mset (fst (shuffle xs r)) = mset xs"
    and "layout_ok (w_disk (co_world a))" and "log_holds es (w_disk (co_world a))"
    and "Store_identity H (w_disk (co_world a)) = Ok identity" and "Store_contacts H (w_disk (co_world a)) = Ok cs"
    and "to \<noteq> []" and "recipients_for (hk \<noteq> None) cs to = Ok rs" and "addressed_to C reader hk rs (w_rng (co_world a))"
    and "suite_laws C reader hk" and "hk = None \<or> mldsa_usable C H (w_disk (co_world a))"
    and "eq_ignore_ascii_case suite (if hk = None then ''classical'' else ''hybrid'')" and "CellId_from_lat_lng A lat lng res = Ok cell"
    and "\<And>root nonce. \<exists>n. pow_is_valid C (signing_public C identity) root nonce n"
    and "length plaintext \<le> u32_max * DEFAULT_CHUNK_SIZE"
    and "disk_read (co_files a) p = Some plaintext" and "slot_size (hk \<noteq> None) * length rs \<le> 7900000"
    and "hex_laws H" and "relay_ok C (co_net a)" and "\<not> ss_poisoned (co_net a)"
    and "layout_ok (w_disk (co_world b))" and "log_holds fs (w_disk (co_world b))"
    and "device C H reader hk (w_disk (co_world b))"
    and "parse maddr = Some addr" and "sw_build sw = Ok ()" and "sw_dial sw addr = Ok ()"
  shows "\<exists>created id_text raw a1 a2. id_text = id_hex H (cd_id created)
    \<and> drop_create C H A shuffle to lat lng res ring None (Some p) ttl suite a = Some (Ok created, a1)
    \<and> log_entries (w_disk (co_world a1)) = es @ [raw]
    \<and> cmd_push C H (relay_tcp C) peer id_text a1 = Some (Ok (), a2)
    \<and> (\<forall>r \<in> {cmd_fetch C H (relay_tcp C) peer', cmd_p2p_fetch C H parse sw (node_p2p pid sw) maddr}.
        \<exists>b1 b2. r id_text (b\<lparr>co_net := co_net a2\<rparr>) = Some (Ok (), b1)
          \<and> log_entries (w_disk (co_world b1)) = fs @ [raw]
          \<and> drop_open C H id_text None b1 = Some (Ok (), b2)
          \<and> co_out b2 = co_out b1 @ plaintext @ str_bytes newline)"
proof -
  from create_for [where shuffle = shuffle and ring = ring and ttl = ttl, OF assms(1-20)]
  obtain created w' sd body chunks where cr: "create_drop C H A shuffle to lat lng res ring ttl suite plaintext (co_world a) = Some (Ok created, w')"
    and sd: "SignedDrop_decode (sd_raw sd) = Ok sd" "SignedDrop_verify C sd = Ok ()" "SignedDrop_body sd = Ok body"
      "DropBody_pow_ok C body (sd_signer sd)" "length chunks = unat (db_chunk_count body)"
    and size: "length (sd_raw sd) \<le> 26000 + slot_size (hk \<noteq> None) * length rs" "\<forall>b \<in> set chunks. length b \<le> DEFAULT_CHUNK_SIZE + 16"
    and i: "cd_id created = SignedDrop_id C sd" and hold: "holds_drop H (w_disk w') (cd_id created) (sd_raw sd) chunks"
    and log: "log_entries (w_disk w') = es @ [sd_raw sd]"
    and opens: "\<forall>d. device C H reader hk d \<and> holds_drop H d (cd_id created) (sd_raw sd) chunks
        \<longrightarrow> open_drop C H d (cd_id created) = Ok plaintext" by auto
  let ?a1 = "a\<lparr>co_world := w'\<rparr>" and ?i = "cd_id created"
  have id: "?i = DropId_of C (sd_raw sd)" using i by (simp add: SignedDrop_id_def)
  have len: "length (as_bytes ?i) = 32" using assms(4) length_DropId_of id by metis
  have good: "good_drop C (sd_raw sd) chunks"
    using sd size assms(22) by (auto simp: good_drop_def DEFAULT_CHUNK_SIZE_def)
  have create: "drop_create C H A shuffle to lat lng res ring None (Some p) ttl suite a = Some (Ok created, ?a1)"
    using cr assms(21) by (simp add: drop_create_def act_defs on_store_def)
  obtain n out where push: "cmd_push C H (relay_tcp C) peer (id_hex H ?i) ?a1 = Some (Ok (), ?a1\<lparr>co_net := n, co_out := out\<rparr>)"
    and n: "relay_good C n" "store_holds (ss_store n) ?i (sd_raw sd) chunks"
    using push_works [OF assms(23) _ good id, of ?a1 peer] assms(4,24,25) hold by auto
  let ?b = "b\<lparr>co_net := n\<rparr>"
  have f: "relay_good C (co_net ?b)" "store_holds (ss_store (co_net ?b)) ?i (sd_raw sd) chunks"
    "layout_ok (w_disk (co_world ?b))" "log_holds fs (w_disk (co_world ?b))" using n assms(26,27) by simp_all
  note fw = fetch_works [OF assms(23) f(1) good len f(2-4)]
  have "\<exists>b1 b2. r (id_hex H ?i) ?b = Some (Ok (), b1) \<and> log_entries (w_disk (co_world b1)) = fs @ [sd_raw sd]
      \<and> drop_open C H (id_hex H ?i) None b1 = Some (Ok (), b2) \<and> co_out b2 = co_out b1 @ plaintext @ str_bytes newline"
    if r: "r \<in> {cmd_fetch C H (relay_tcp C) peer', cmd_p2p_fetch C H parse sw (node_p2p pid sw) maddr}" for r
  proof -
    obtain d out where d: "r (id_hex H ?i) ?b = Some (Ok (), ?b\<lparr>co_world := co_world ?b\<lparr>w_disk := d\<rparr>, co_out := out\<rparr>)"
      "fetched H (w_disk (co_world ?b)) fs ?i (sd_raw sd) chunks d"
      using r fw(1) [of peer'] fw(2) [of parse maddr addr sw pid] assms(29-31) by auto
    have "device C H reader hk d" using fetched_device [OF d(2)] assms(28) by simp
    then have "open_drop C H d ?i = Ok plaintext" using opens d(2) by (simp add: fetched_def)
    then show ?thesis
      using drop_open_prints [OF assms(23) len, of C "?b\<lparr>co_world := co_world ?b\<lparr>w_disk := d\<rparr>, co_out := out\<rparr>"] d log_entries_hold
      by (auto simp: fetched_def)
  qed
  then show ?thesis
    using create push log
    by (intro exI [of _ created] exI [of _ "id_hex H ?i"] exI [of _ "sd_raw sd"] exI [of _ ?a1] exI [of _ "?a1\<lparr>co_net := n, co_out := out\<rparr>"]) simp
qed

lemma frame_read:
  "frame.keeps S console_disk m \<Longrightarrow> m c = Some (r, c') \<Longrightarrow> q \<notin> insert entries_path S \<Longrightarrow>
    disk_read (console_disk c') q = disk_read (console_disk c) q"
  using frame.keepsD [of S console_disk m c r c'] by (simp add: unchanged_def)

text \<open>Once the envelope has been accepted and everything has gone well, it is on disk.\<close>

lemma receive_drop_written:
  assumes "receive_drop C H err getc i raw c = Some (Ok x, c1)"
  shows "disk_read (w_disk (co_world c1)) (drop_path H i) = Some raw"
proof -
  let ?S = "range (chunk_path H i)"
  define tail where "tail body = act_then (on_store CliStore (act_disk (ignore_failure (disk_create_dir_all (chunk_dir H i))))) (\<lambda>_.
      act_then (receive_chunks H err getc i 0 (unat (db_chunk_count body))) (\<lambda>_.
      act_then (on_store CliStore (act_disk (ignore_failure (append_log_entry raw)))) (\<lambda>_.
      act_res (Ok (db_chunk_count body)))))" for body :: DropBody
  have t: "frame.keeps ?S console_disk (tail body)" for body
    unfolding tail_def by (intro frame.command_intros frame.keeps_receive_chunks) auto
  have p: "drop_path H i \<notin> insert entries_path ?S" by (auto simp: path_defs chunk_path_def)
  obtain c2 c3 body where
    c2: "on_store (\<lambda>_. Bail ''writing fetched drop'') (act_disk (disk_write (drop_path H i) raw)) c2 = Some (Ok (), c3)"
    and c3: "tail body c3 = Some (Ok x, c1)"
    using assms by (auto simp: receive_drop_def tail_def [symmetric] bail_def act_res_def dest!: act_then_Ok split: if_splits)
  have "disk_read (w_disk (co_world c3)) (drop_path H i) = Some raw"
    using c2 by (auto simp: on_store_def act_disk_def disk_read_write split: res.splits)
  then show ?thesis using frame_read [OF t c3 p] by simp
qed

lemma receive_drop_refuses:
  assumes "\<not> (\<exists>sd body. SignedDrop_decode raw = Ok sd \<and> SignedDrop_verify C sd = Ok () \<and> SignedDrop_body sd = Ok body
      \<and> DropBody_pow_ok C body (sd_signer sd))"
  obtains e where "receive_drop C H err getc i raw c = Some (e, c)" "\<forall>x. e \<noteq> Ok x"
  using assms
  by (cases "SignedDrop_decode raw"; cases "SignedDrop_verify C (the_Ok (SignedDrop_decode raw))";
      cases "SignedDrop_body (the_Ok (SignedDrop_decode raw))") (auto simp: receive_drop_def bail_def act_res_def)

lemma received_checked:
  assumes "act_then (receive_drop C H err getc i raw) (\<lambda>x. println (say x)) c = Some (r, c')"
  shows "(\<forall>q. q \<notin> {drop_path H i, entries_path} \<union> range (chunk_path H i) \<longrightarrow>
        disk_read (w_disk (co_world c')) q = disk_read (w_disk (co_world c)) q)
    \<and> (w_disk (co_world c') = w_disk (co_world c) \<or>
       (\<exists>sd body. SignedDrop_decode raw = Ok sd \<and> SignedDrop_verify C sd = Ok () \<and> SignedDrop_body sd = Ok body
          \<and> DropBody_pow_ok C body (sd_signer sd)
          \<and> (r = Ok () \<longrightarrow> disk_read (w_disk (co_world c')) (drop_path H i) = Some raw)))"
proof (intro conjI)
  show "\<forall>q. q \<notin> {drop_path H i, entries_path} \<union> range (chunk_path H i) \<longrightarrow>
      disk_read (w_disk (co_world c')) q = disk_read (w_disk (co_world c)) q"
  proof (intro allI impI)
    let ?S = "insert (drop_path H i) (range (chunk_path H i))"
    fix q assume "q \<notin> {drop_path H i, entries_path} \<union> range (chunk_path H i)"
    moreover have k: "frame.keeps ?S console_disk (act_then (receive_drop C H err getc i raw) (\<lambda>x. println (say x)))"
      by (intro frame.command_intros frame.keeps_receive_drop) auto
    ultimately show "disk_read (w_disk (co_world c')) q = disk_read (w_disk (co_world c)) q"
      using frame_read [OF k assms, of q] by simp
  qed
next
  have stored: "disk_read (w_disk (co_world c')) (drop_path H i) = Some raw" if "r = Ok ()"
  proof -
    have "act_then (receive_drop C H err getc i raw) (\<lambda>x. println (say x)) c = Some (Ok (), c')" using assms that by simp
    from act_then_Ok [OF this] obtain x c1 where
      c1: "receive_drop C H err getc i raw c = Some (Ok x, c1)" "println (say x) c1 = Some (Ok (), c')" by blast
    then show ?thesis using receive_drop_written [OF c1(1)] c1(2) by (auto simp: println_def print_bytes_def)
  qed
  show "w_disk (co_world c') = w_disk (co_world c) \<or>
     (\<exists>sd body. SignedDrop_decode raw = Ok sd \<and> SignedDrop_verify C sd = Ok () \<and> SignedDrop_body sd = Ok body
        \<and> DropBody_pow_ok C body (sd_signer sd)
        \<and> (r = Ok () \<longrightarrow> disk_read (w_disk (co_world c')) (drop_path H i) = Some raw))"
  proof (rule ccontr)
    assume neg: "\<not> ?thesis"
    obtain e where "receive_drop C H err getc i raw c = Some (e, c)" "\<forall>x. e \<noteq> Ok x"
      by (rule receive_drop_refuses) (use neg stored in blast)
    then have "c' = c" using assms by (cases e) (auto simp: act_then_def)
    then show False using neg by simp
  qed
qed

lemma ask_step: "f (co_net c) = (Ok x, n) \<Longrightarrow> act_then (ask err f) g c = g x (c\<lparr>co_net := n\<rparr>)"
  by (simp add: act_then_def ask_def on_net_def)

lemma cmd_fetch_found:
  assumes "cli_id H id_text c = Some (Ok i, c)" "tcp_fetch tcp peer i (co_net c) = (Ok (Some raw), n)"
  shows "cmd_fetch C H tcp peer id_text c = act_then
    (receive_drop C H (\<lambda>_ k. Bail (''fetching chunk '' @ decimal k)) (tcp_fetch_chunk tcp peer) i raw)
    (\<lambda>received. println (''fetched '' @ id_hex H i @ '' ('' @ decimal (unat received) @ '' chunks) from '' @ peer)) (c\<lparr>co_net := n\<rparr>)"
  by (simp add: cmd_fetch_def act_then_step [where m = "cli_id H id_text", OF assms(1)]
      ask_step [where f = "tcp_fetch tcp peer i", OF assms(2)])

lemma cmd_p2p_fetch_found:
  assumes "parse peer = Some addr" "cli_id H id_text c = Some (Ok i, c)" "p2p_get sw p2p addr i (co_net c) = (Ok (Some raw), n)"
  shows "cmd_p2p_fetch C H parse sw p2p peer id_text c = act_then
    (receive_drop C H (\<lambda>e _. CliP2p e) (p2p_get_chunk sw p2p addr) i raw)
    (\<lambda>received. println (''fetched '' @ id_hex H i @ '' ('' @ decimal (unat received) @ '' chunks) via libp2p from '' @ peer)) (c\<lparr>co_net := n\<rparr>)"
proof -
  have "parse_multiaddr parse peer c = Some (Ok addr, c)" using assms(1) by (simp add: parse_multiaddr_def act_res_def)
  then show ?thesis unfolding cmd_p2p_fetch_def 
    by (simp add: act_then_step [where m = "cli_id H id_text", OF assms(2)] ask_step [where f = "p2p_get sw p2p addr i", OF assms(3)]
        act_then_step [where m = "parse_multiaddr parse peer"])
qed

lemma found_cases:
  obtains (found) raw n where "x = (Ok (Some raw), n)" | (missing) n where "x = (Ok None, n)"
    | (error) e n where "x = (Err e, n)" | (panic) n where "x = (Panic, n)"
  by (metis option.exhaust res.exhaust prod.exhaust)

text \<open>
  C4. What a peer can do to a fetching client. Whatever the peer and the network answer and
  however the command ends, \<open>fetch\<close> and \<open>p2p_fetch\<close> write no file but the envelope and the
  chunks of the requested id and the log. If they write anything, the peer answered with
  an envelope that decodes, whose signature and proof of work are valid; and when they
  succeed, that envelope is the one on disk under the requested id.
\<close>

theorem fetch_checked:
  assumes "DropId_from_hex (hex_decode H) id_text = Ok i"
    and "cmd = cmd_fetch C H tcp peer id_text \<and> answer = map_err CliNet (fst (tcp_fetch tcp peer i (co_net c)))
      \<or> cmd = cmd_p2p_fetch C H parse sw p2p peer id_text \<and> parse peer = Some addr
        \<and> answer = map_err CliP2p (fst (p2p_get sw p2p addr i (co_net c)))"
    and "cmd c = Some (r, c')"
  shows "(\<forall>q. q \<notin> {drop_path H i, entries_path} \<union> range (chunk_path H i) \<longrightarrow>
        disk_read (w_disk (co_world c')) q = disk_read (w_disk (co_world c)) q)
    \<and> (w_disk (co_world c') = w_disk (co_world c) \<or>
       (\<exists>raw sd body. answer = Ok (Some raw) \<and> SignedDrop_decode raw = Ok sd \<and> SignedDrop_verify C sd = Ok ()
          \<and> SignedDrop_body sd = Ok body \<and> DropBody_pow_ok C body (sd_signer sd)
          \<and> (r = Ok () \<longrightarrow> disk_read (w_disk (co_world c')) (drop_path H i) = Some raw)))"
proof -
  have id: "cli_id H id_text c = Some (Ok i, c)" using assms(1) by (simp add: cli_id_def act_res_def)
  have same: "w_disk (co_world (c\<lparr>co_net := n\<rparr>)) = w_disk (co_world c)" for n by simp
  note tail = received_checked [where c = "c\<lparr>co_net := n\<rparr>" for n, unfolded same]
  from assms(2) show ?thesis
  proof (elim disjE conjE)
    assume cmd: "cmd = cmd_fetch C H tcp peer id_text" "answer = map_err CliNet (fst (tcp_fetch tcp peer i (co_net c)))"
    show ?thesis
    proof (cases "tcp_fetch tcp peer i (co_net c)" rule: found_cases)
      case (found raw n)
      then show ?thesis using tail [OF assms(3) [unfolded cmd(1) cmd_fetch_found [OF id found]]] cmd(2) by simp
    qed (use assms(3) id in \<open>auto simp: cmd(1) cmd_fetch_def ask_def on_net_def act_defs\<close>)
  next
    assume cmd: "cmd = cmd_p2p_fetch C H parse sw p2p peer id_text" "parse peer = Some addr"
      "answer = map_err CliP2p (fst (p2p_get sw p2p addr i (co_net c)))"
    show ?thesis
    proof (cases "p2p_get sw p2p addr i (co_net c)" rule: found_cases)
      case (found raw n)
      then show ?thesis using tail [OF assms(3) [unfolded cmd(1) cmd_p2p_fetch_found [where parse = parse, OF cmd(2) id found]]] cmd(3) by simp
    qed (use assms(3) id cmd(2) in \<open>auto simp: cmd(1) cmd_p2p_fetch_def parse_multiaddr_def ask_def on_net_def act_defs\<close>)
  qed
qed

section \<open>Witnesses\<close>

definition demo_machine :: "Disk \<Rightarrow> SharedStore Console" where
  "demo_machine files = \<lparr>co_world = \<lparr>w_disk = demo_disk, w_rng = \<lambda>_. 0, w_clock = [Some 100]\<rparr>, co_files = files, co_out = [],
    co_net = empty_shared\<rparr>"

theorem share_a_drop_witness:
  "\<exists>created a1 a2 b1 b2. drop_create easy_crypto hex_impl toy_h3 (\<lambda>xs r. (rev xs, r)) [''me''] 4 2 9 2 None (Some [''note'']) 0 ''classical''
        (demo_machine \<lparr>dk_files = [([''note''], [1, 2, 3])], dk_dirs = []\<rparr>) = Some (Ok created, a1)
    \<and> cmd_push easy_crypto hex_impl (relay_tcp easy_crypto) ''r:1'' (id_hex hex_impl (cd_id created)) a1 = Some (Ok (), a2)
    \<and> cmd_fetch easy_crypto hex_impl (relay_tcp easy_crypto) ''r:1'' (id_hex hex_impl (cd_id created))
        (demo_machine \<lparr>dk_files = [], dk_dirs = []\<rparr>\<lparr>co_net := co_net a2\<rparr>) = Some (Ok (), b1)
    \<and> drop_open easy_crypto hex_impl (id_hex hex_impl (cd_id created)) None b1 = Some (Ok (), b2)
    \<and> co_out b2 = co_out b1 @ [1, 2, 3] @ str_bytes newline"
proof -
  let ?a = "demo_machine \<lparr>dk_files = [([''note''], [1, 2, 3])], dk_dirs = []\<rparr>" and ?b = "demo_machine \<lparr>dk_files = [], dk_dirs = []\<rparr>"
  have sh: "mset (fst ((\<lambda>xs r. (rev xs, r)) xs r)) = mset xs" for xs :: "WrappedKey list" and r :: rng by simp
  have size: "length [1 :: u8, 2, 3] \<le> u32_max * DEFAULT_CHUNK_SIZE" by (simp add: u32_max_def DEFAULT_CHUNK_SIZE_def)
  have a: "layout_ok (w_disk (co_world ?a))" "log_holds [] (w_disk (co_world ?a))"
    "Store_identity hex_impl (w_disk (co_world ?a)) = Ok demo_identity"
    "Store_contacts hex_impl (w_disk (co_world ?a)) = Ok [demo_contact]" "[''me''] \<noteq> []"
    and rng: "addressed_to easy_crypto demo_identity None [(replicate 32 2, None)] (w_rng (co_world ?a))"
    and b: "layout_ok (w_disk (co_world ?b))" "log_holds [] (w_disk (co_world ?b))"
      "device easy_crypto hex_impl demo_identity None (w_disk (co_world ?b))"
    using demo_disk_ok demo_facts(2) by (simp_all add: demo_machine_def device_def)
  have note': "disk_read (co_files ?a) [''note''] = Some [1, 2, 3]" and few: "slot_size (None \<noteq> (None :: HybridKeypair option)) * length [(replicate 32 (2 :: u8), None :: bytes option)] \<le> 7900000"
    and net: "relay_ok easy_crypto (co_net ?a)" "\<not> ss_poisoned (co_net ?a)"
    using relay_ok_new by (simp_all add: demo_machine_def disk_read_def slot_size_def)
  have sw: "Some ''/a'' = Some ''/a''" "sw_build demo_swarm = Ok ()" "sw_dial demo_swarm ''/a'' = Ok ()" by (simp_all add: demo_swarm_def)
  from share_a_drop [where shuffle = "\<lambda>xs r. (rev xs, r)" and ring = 2 and ttl = 0 and peer = "''r:1''" and peer' = "''r:1''" and parse = Some and pid = "''p''",
      OF easy_laws toy_h3_laws sh a demo_facts(1) rng demo_facts(3) classical_suite(2,1) demo_facts(4,5) size note' few hex_impl_laws net b sw]
  show ?thesis by auto
qed

theorem fetch_checked_witness:
  "\<exists>r c'. cmd_p2p_fetch toy_crypto hex_impl Some demo_swarm (\<lambda>_ _ n. ([ConnectionEstablished ''p'', DropResponse 0 (Drop [])], n)) ''/a''
      (id_hex hex_impl demo_id) (demo_machine \<lparr>dk_files = [], dk_dirs = []\<rparr>) = Some (r, c')
    \<and> w_disk (co_world c') = demo_disk"
proof -
  let ?p2p = "\<lambda>_ _ n. ([ConnectionEstablished ''p'', DropResponse 0 (Drop [])], n)" and ?c = "demo_machine \<lparr>dk_files = [], dk_dirs = []\<rparr>"
  have id: "DropId_from_hex (hex_decode hex_impl) (id_hex hex_impl demo_id) = Ok demo_id"
    using hex_impl_laws by (simp add: demo_id_def DropId_from_hex_def DropId_to_hex_def hex_laws_def)
  have get: "p2p_get demo_swarm ?p2p ''/a'' demo_id (co_net ?c) = (Ok (Some []), co_net ?c)"
    using p2p_request_answered [of demo_swarm "''/a''" "[]" "[]" "Want demo_id" "''p''" "Drop []" "[]"]
    by (simp add: p2p_get_def fetch_drop_def demo_swarm_def)
  have "read_head (Decoder_new []) = Err (Cbor ''unexpected end'')" by (simp add: read_head_def read_u8_def Decoder_new_def)
  then have bad: "SignedDrop_decode [] = Err (Cbor ''unexpected end'')" by (simp add: SignedDrop_decode_def Decoder_array_def Decoder_expect_def)
  let ?cmd = "cmd_p2p_fetch toy_crypto hex_impl Some demo_swarm ?p2p ''/a'' (id_hex hex_impl demo_id)"
  obtain r c' where run: "?cmd ?c = Some (r, c')"
    using bad id cmd_p2p_fetch_found [where parse = Some and peer = "''/a''" and c = ?c, OF _ _ get]
    by (simp add: cli_id_def act_res_def act_then_def receive_drop_def)
  have "w_disk (co_world c') = w_disk (co_world ?c)"
    using fetch_checked [where cmd = ?cmd and answer = "Ok (Some [])" and parse = Some and addr = "''/a''" and sw = demo_swarm
        and c = ?c and p2p = ?p2p and peer = "''/a''" and C = toy_crypto and r = r and c' = c', OF id] run bad get by auto
  with run show ?thesis by (auto simp: demo_machine_def)
qed

end
