(* ===== verification/Hunt.thy ===== *)
theory Hunt
  imports Commands Json
begin

text \<open>
  The hunts of \<open>crates/cli/src/main.rs\<close>: a JSON file per hunt with the names of the
  participants and the planned drops, and the command that creates the drops that do not have
  an id yet. The crate \<open>serde_json\<close> is the argument \<open>J\<close>, floating point numbers are the
  argument \<open>F\<close>; \<open>zero\<close> is the floating point zero, and \<open>show_value\<close> and \<open>show_f64\<close> print a
  value and a number.
\<close>

section \<open>The hunt file\<close>

definition hunt_path :: "string \<Rightarrow> path" where "hunt_path name = [''hunts'', name @ ''.json'']"

definition load_hunt :: "('n, 'f) serde \<Rightarrow> string \<Rightarrow> Disk \<Rightarrow> ('n Value, cli_error) res" where
  "load_hunt J name d =
    and_then (ok_or (Bail (''no hunt `'' @ name @ ''`'')) (disk_read_to_string d (hunt_path name))) (\<lambda>content.
    map_err CliJson (from_slice J (str_bytes content)))"

definition save_hunt :: "('n, 'f) serde \<Rightarrow> string \<Rightarrow> 'n Value \<Rightarrow> (unit, 's) command" where
  "save_hunt J name value =
    act_then (on_store CliStore (act_disk (ignore_failure (disk_create_dir_all [''hunts''])))) (\<lambda>_.
    act_then (act_res (map_err CliJson (to_string_pretty J value))) (\<lambda>content.
    on_store (\<lambda>_. Bail ''writing hunt'') (act_disk (disk_write (hunt_path name) (str_bytes content)))))"

text \<open>
  \<open>value[key].as_array_mut()\<close>: the array and the value with an array in its place. The index
  adds the key to an object, turns \<open>null\<close> into an object, and panics on any other value.
\<close>

fun as_array_mut :: "'n Value \<Rightarrow> string \<Rightarrow> ('n Value list option, 'e) res" where
  "as_array_mut (Object entries) key = Ok (Option.bind (entries key) as_array)"
| "as_array_mut Null key = Ok None"
| "as_array_mut _ key = Panic"

definition array_at :: "'n Value \<Rightarrow> string \<Rightarrow> ('n Value list, 's) command" where
  "array_at value key =
    act_then (act_res (as_array_mut value key)) (\<lambda>found. act_res (ok_or (Bail ''malformed hunt file'') found))"

fun with_array :: "'n Value \<Rightarrow> string \<Rightarrow> 'n Value list \<Rightarrow> 'n Value" where
  "with_array (Object entries) key vs = Object (entries(key \<mapsto> Array vs))"
| "with_array v key vs = v"

definition read_hunt :: "('n, 'f) serde \<Rightarrow> string \<Rightarrow> ('n Value, 's) command" where
  "read_hunt J name c = Some (load_hunt J name (console_disk c), c)"

section \<open>The commands\<close>

definition hunt_create :: "('n, 'f) serde \<Rightarrow> string \<Rightarrow> (unit, 's) command" where
  "hunt_create J name c =
    (if disk_exists (console_disk c) (hunt_path name) then bail (''hunt `'' @ name @ ''` already exists'') c
     else act_then (save_hunt J name (Object [''name'' \<mapsto> Str name, ''participants'' \<mapsto> Array [], ''drops'' \<mapsto> Array []])) (\<lambda>_.
       println (''hunt `'' @ name @ ''` created'')) c)"

definition hunt_add_participant :: "hex_codec \<Rightarrow> ('n, 'f) serde \<Rightarrow> string \<Rightarrow> string \<Rightarrow> (unit, 's) command" where
  "hunt_add_participant H J name contact =
    act_then (load_contacts H) (\<lambda>contacts.
    if contact \<notin> ct_name ` set contacts
    then bail (''unknown contact `'' @ contact @ ''`; add them with `contact-add` first'') else
    act_then (read_hunt J name) (\<lambda>value.
    act_then (array_at value ''participants'') (\<lambda>participants.
    let participants = (if \<exists>p \<in> set participants. as_str p = Some contact then participants else participants @ [Str contact]) in
    act_then (save_hunt J name (with_array value ''participants'' participants)) (\<lambda>_.
    println (''added participant `'' @ contact @ ''` to `'' @ name @ ''`'')))))"

definition json_f64 :: "('n, 'f) serde \<Rightarrow> 'f \<Rightarrow> 'n Value" where
  "json_f64 J x = (case number_from_f64 J x of Some n \<Rightarrow> Number n | None \<Rightarrow> Null)"

definition hunt_add_drop ::
    "('n, 'f) serde \<Rightarrow> ('f \<Rightarrow> string) \<Rightarrow> string \<Rightarrow> 'f \<Rightarrow> 'f \<Rightarrow> u32 \<Rightarrow> string \<Rightarrow> string \<Rightarrow> (unit, 's) command" where
  "hunt_add_drop J show_f64 name lat lng ring suite message =
    (if \<not> eq_ignore_ascii_case suite ''classical'' \<and> \<not> eq_ignore_ascii_case suite ''hybrid''
     then bail (''unknown suite `'' @ suite @ ''`'')
     else act_then (read_hunt J name) (\<lambda>value.
       act_then (array_at value ''drops'') (\<lambda>drops.
       act_then (save_hunt J name (with_array value ''drops'' (drops @ [Object
         [''lat'' \<mapsto> json_f64 J lat, ''lng'' \<mapsto> json_f64 J lng, ''ring'' \<mapsto> Number (number_from J (unat ring)),
          ''suite'' \<mapsto> Str suite, ''message'' \<mapsto> Str message, ''id'' \<mapsto> Null]]))) (\<lambda>_.
       println (''added drop at '' @ show_f64 lat @ '','' @ show_f64 lng @ '' to `'' @ name @ ''`'')))))"

definition participants_of :: "'n Value \<Rightarrow> string list" where
  "participants_of value =
    (case as_array (json_index value ''participants'') of Some vs \<Rightarrow> json_strings vs | None \<Rightarrow> [])"

definition already_seeded :: "'n Value \<Rightarrow> bool" where
  "already_seeded v = (case Option.bind (json_get v ''id'') as_str of Some s \<Rightarrow> s \<noteq> [] | None \<Rightarrow> False)"

text \<open>The loop of \<open>hunt_seed\<close>: the drops with their ids, and how many were created.\<close>

fun seed_drops ::
    "crypto \<Rightarrow> hex_codec \<Rightarrow> ('f, 'l, 'r, 'c) h3 \<Rightarrow> (WrappedKey list \<Rightarrow> rng \<Rightarrow> WrappedKey list \<times> rng)
      \<Rightarrow> ('n, 'f) serde \<Rightarrow> 'f \<Rightarrow> string list \<Rightarrow> 'n Value list \<Rightarrow> ('n Value list \<times> nat, 's) command" where
  "seed_drops C H A shuffle J zero participants [] = act_res (Ok ([], 0))"
| "seed_drops C H A shuffle J zero participants (v # vs) =
    (if already_seeded v then
       act_then (seed_drops C H A shuffle J zero participants vs) (\<lambda>(rest, seeded). act_res (Ok (v # rest, seeded)))
     else
       let lat = unwrap_or zero (as_f64 J (json_index v ''lat''));
           lng = unwrap_or zero (as_f64 J (json_index v ''lng'')) in
       act_then (act_res (ok_or CliInt (try_u32 (unwrap_or 2 (as_u64 J (json_index v ''ring'')))))) (\<lambda>ring.
       let suite = unwrap_or ''classical'' (as_str (json_index v ''suite''));
           message = unwrap_or [] (as_str (json_index v ''message'')) in
       act_then (drop_create C H A shuffle participants lat lng 9 ring (Some message) None 0 suite) (\<lambda>created.
       act_then (act_res (json_assign v ''id'' (Str (id_hex H (cd_id created))))) (\<lambda>v.
       act_then (seed_drops C H A shuffle J zero participants vs) (\<lambda>(rest, seeded).
       act_res (Ok (v # rest, Suc seeded)))))))"

definition hunt_seed ::
    "crypto \<Rightarrow> hex_codec \<Rightarrow> ('f, 'l, 'r, 'c) h3 \<Rightarrow> (WrappedKey list \<Rightarrow> rng \<Rightarrow> WrappedKey list \<times> rng)
      \<Rightarrow> ('n, 'f) serde \<Rightarrow> 'f \<Rightarrow> string \<Rightarrow> (unit, 's) command" where
  "hunt_seed C H A shuffle J zero name =
    act_then (read_hunt J name) (\<lambda>value.
    let participants = participants_of value in
    if participants = [] then bail (''hunt `'' @ name @ ''` has no participants'') else
    act_then (array_at value ''drops'') (\<lambda>drops.
    act_then (seed_drops C H A shuffle J zero participants drops) (\<lambda>(drops, seeded).
    act_then (save_hunt J name (with_array value ''drops'' drops)) (\<lambda>_.
    println (''seeded '' @ decimal seeded @ '' drop(s) for hunt `'' @ name @ ''`'')))))"

fun show_drops :: "('n Value \<Rightarrow> string) \<Rightarrow> nat \<Rightarrow> 'n Value list \<Rightarrow> string list" where
  "show_drops show_value index [] = []"
| "show_drops show_value index (v # vs) =
    (''  '' @ decimal (Suc index) @ ''. ('' @ show_value (json_index v ''lat'') @ '', '' @ show_value (json_index v ''lng'')
      @ '') ring='' @ show_value (json_index v ''ring'') @ '' suite='' @ show_value (json_index v ''suite'')
      @ '' id='' @ unwrap_or ''(unseeded)'' (as_str (json_index v ''id'')))
    # (''     '' @ unwrap_or [] (as_str (json_index v ''message''))) # show_drops show_value (Suc index) vs"

fun join_str :: "string \<Rightarrow> string list \<Rightarrow> string" where
  "join_str separator [] = []"
| "join_str separator [s] = s"
| "join_str separator (s # t # rest) = s @ separator @ join_str separator (t # rest)"

definition hunt_show :: "('n, 'f) serde \<Rightarrow> ('n Value \<Rightarrow> string) \<Rightarrow> string \<Rightarrow> (unit, 's) command" where
  "hunt_show J show_value name =
    act_then (read_hunt J name) (\<lambda>value.
    print_lines ([''hunt: '' @ unwrap_or name (as_str (json_index value ''name'')),
      ''participants: '' @ join_str '', '' (participants_of value)]
      @ (case as_array (json_index value ''drops'') of Some drops \<Rightarrow> show_drops show_value 0 drops | None \<Rightarrow> [])))"

section \<open>The map page\<close>

text \<open>What the page needs of floating point numbers; \<open>f_fixed n\<close> prints with \<open>n\<close> decimals.\<close>

record 'f f64 =
  f_lit :: "string \<Rightarrow> 'f"
  f_infinity :: 'f
  f_neg_infinity :: 'f
  f_min :: "'f \<Rightarrow> 'f \<Rightarrow> 'f"
  f_max :: "'f \<Rightarrow> 'f \<Rightarrow> 'f"
  f_add :: "'f \<Rightarrow> 'f \<Rightarrow> 'f"
  f_sub :: "'f \<Rightarrow> 'f \<Rightarrow> 'f"
  f_mul :: "'f \<Rightarrow> 'f \<Rightarrow> 'f"
  f_div :: "'f \<Rightarrow> 'f \<Rightarrow> 'f"
  f_fixed :: "nat \<Rightarrow> 'f \<Rightarrow> string"
  f_show :: "'f \<Rightarrow> string"

type_synonym 'f map_drop = "'f \<times> 'f \<times> string \<times> string"

definition map_pin :: \<open>'f f64 \<Rightarrow> 'f \<Rightarrow> 'f \<Rightarrow> nat \<Rightarrow> string\<close> where
  \<open>map_pin F x y number =
    ''<circle cx="'' @ f_fixed F 1 x @ ''" cy="'' @ f_fixed F 1 y
    @ ''" r="11" fill="#1f6feb" stroke="#ffffff" stroke-width="2"/><text x="'' @ f_fixed F 1 x @ ''" y="'' @ f_fixed F 1 y
    @ ''" dy="4" text-anchor="middle" font-size="11" fill="#ffffff">'' @ decimal number @ ''</text>'' @ newline\<close>

definition map_item :: \<open>'f f64 \<Rightarrow> 'f map_drop \<Rightarrow> nat \<Rightarrow> string\<close> where
  \<open>map_item F drop' number = (case drop' of (lat, lng, message, id_text) \<Rightarrow>
    ''<li><b>'' @ decimal number @ ''. clue</b><br><span class="coord">'' @ f_fixed F 5 lat @ '', '' @ f_fixed F 5 lng
    @ ''</span><br><code>'' @ id_text @ ''</code><br>'' @ message @ ''</li>'' @ newline)\<close>

definition hunt_map_html :: \<open>'f f64 \<Rightarrow> string \<Rightarrow> 'f map_drop list \<Rightarrow> string\<close> where
  \<open>hunt_map_html F name drops =
    (let min_lat = foldl (f_min F) (f_infinity F) (map fst drops);
         max_lat = foldl (f_max F) (f_neg_infinity F) (map fst drops);
         min_lng = foldl (f_min F) (f_infinity F) (map (fst \<circ> snd) drops);
         max_lng = foldl (f_max F) (f_neg_infinity F) (map (fst \<circ> snd) drops);
         span_lat = f_max F (f_sub F max_lat min_lat) (f_lit F ''1e-6'');
         span_lng = f_max F (f_sub F max_lng min_lng) (f_lit F ''1e-6'');
         pin = (\<lambda>(index, (lat, lng, _)).
           let x = f_add F (f_lit F ''60.0'') (f_mul F (f_div F (f_sub F lng min_lng) span_lng) (f_lit F ''680.0''));
               y = f_sub F (f_lit F ''540.0'') (f_mul F (f_div F (f_sub F lat min_lat) span_lat) (f_lit F ''480.0''))
           in map_pin F x y (Suc index));
         pins = concat (map pin (enumerate 0 drops));
         list = concat (map (\<lambda>(index, d). map_item F d (Suc index)) (enumerate 0 drops))
     in ''<!doctype html>'' @ newline
      @ ''<html lang="en"><head><meta charset="utf-8"><title>Hunt: '' @ name @ ''</title>'' @ newline @ ''<style>'' @ newline
      @ ''body{font:15px/1.5 ui-monospace,Menlo,monospace;background:#0e1116;color:#d7dde5;margin:0;padding:24px}'' @ newline
      @ ''h1{font-size:18px} .wrap{display:flex;gap:24px;flex-wrap:wrap}'' @ newline
      @ ''svg{background:#161b22;border:1px solid #232a34;border-radius:10px}'' @ newline
      @ ''ol{max-width:440px} li{margin-bottom:14px} code{color:#58a6ff;font-size:12px;word-break:break-all}'' @ newline
      @ ''.coord{color:#8b95a1;font-size:12px}'' @ newline @ ''</style></head>'' @ newline
      @ ''<body><h1>Hunt: '' @ name @ ''</h1>'' @ newline @ ''<div class="wrap">'' @ newline
      @ ''<svg width="800" height="600" viewBox="0 0 800 600">'' @ pins @ ''</svg>'' @ newline
      @ ''<ol>'' @ list @ ''</ol>'' @ newline @ ''</div></body></html>'' @ newline)\<close>

definition hunt_map :: "('n, 'f) serde \<Rightarrow> 'f f64 \<Rightarrow> string \<Rightarrow> path \<Rightarrow> (unit, 's) command" where
  "hunt_map J F name out =
    act_then (read_hunt J name) (\<lambda>value.
    let number = (\<lambda>v key. unwrap_or (f_lit F ''0.0'') (as_f64 J (json_index v key)));
        drops = map (\<lambda>v. (number v ''lat'', number v ''lng'', unwrap_or [] (as_str (json_index v ''message'')),
            unwrap_or ''(unseeded)'' (as_str (json_index v ''id''))))
          (unwrap_or [] (as_array (json_index value ''drops''))) in
    if drops = [] then bail (''hunt `'' @ name @ ''` has no drops'') else
    act_then (on_files (\<lambda>_. Bail (''writing '' @ path_text out)) (disk_write out (str_bytes (hunt_map_html F name drops)))) (\<lambda>_.
    println (''wrote '' @ path_text out @ '' ('' @ decimal (length drops) @ '' drops)'')))"

section \<open>What a command returns\<close>

text \<open>Every value an action returns has a property.\<close>

definition returns :: "('a \<Rightarrow> bool) \<Rightarrow> ('a, 'e, 's) act \<Rightarrow> bool" where
  "returns P m \<longleftrightarrow> (\<forall>s x s'. m s = Some (Ok x, s') \<longrightarrow> P x)"

lemma returnsD: "returns P m \<Longrightarrow> m s = Some (Ok x, s') \<Longrightarrow> P x"
  unfolding returns_def by blast

lemma returns_then: "(\<And>x. returns P (f x)) \<Longrightarrow> returns P (act_then m f)"
  unfolding returns_def by (auto simp: act_then_def split: option.splits res.splits)

lemma returns_bind: "returns Q m \<Longrightarrow> (\<And>x. Q x \<Longrightarrow> returns P (f x)) \<Longrightarrow> returns P (act_then m f)"
  unfolding returns_def by (fastforce simp: act_then_def split: option.splits res.splits)

lemma returns_res: "P x \<Longrightarrow> returns P (act_res (Ok x))" "returns P (act_res (Err e))"
  by (simp_all add: returns_def act_res_def)

lemma returns_if: "returns P m \<Longrightarrow> returns P m' \<Longrightarrow> returns P (if b then m else m')"
  by simp

lemma returns_on_store: "returns P m \<Longrightarrow> returns P (on_store e m)"
  unfolding returns_def by (auto simp: on_store_def map_err_eq_Ok)

lemma create_returns: "returns (\<lambda>created. \<exists>sd. cd_id created = SignedDrop_id C sd)
    (create_drop C H A shuffle to lat lng res ring ttl suite plaintext)"
  unfolding create_drop_def publish_drop_def Let_def case_prod_beta
  by (intro returns_then returns_if returns_res) auto

lemma drop_create_returns: "returns (\<lambda>created. \<exists>sd. cd_id created = SignedDrop_id C sd)
    (drop_create C H A shuffle to lat lng res ring message payload ttl suite)"
  unfolding drop_create_def by (intro returns_then returns_on_store create_returns)

lemma id_hex_not_Nil: "hex_laws H \<Longrightarrow> sha256_laws C \<Longrightarrow> id_hex H (SignedDrop_id C sd) \<noteq> []"
  by (metis DropId_to_hex_def SignedDrop_id_def hex_Nil length_DropId_of list.size(3) zero_neq_numeral)

text \<open>After the loop every drop is seeded, and the loop does nothing to drops that are.\<close>

lemma seed_drops_seeds:
  assumes "hex_laws H" "sha256_laws C"
  shows "returns (\<lambda>(rest, seeded). list_all already_seeded rest)
    (seed_drops C H A shuffle J zero participants vs :: (_, 's) command)"
proof (induction vs)
  case (Cons v vs)
  let ?P = "\<lambda>(rest, seeded). list_all already_seeded rest"
  have tail: "returns ?P (act_then (seed_drops C H A shuffle J zero participants vs) (\<lambda>(rest, seeded). act_res (Ok (v' # rest, f seeded)))
      :: (_, 's) command)" if "already_seeded v'" for v' f
    by (rule returns_bind [OF Cons.IH]) (use that in \<open>auto intro: returns_res\<close>)
  have "already_seeded v'" if "json_assign v ''id'' (Str (id_hex H (SignedDrop_id C sd))) = Ok v'" for v' sd
    using that id_hex_not_Nil [OF assms, of sd] by (cases v) (auto simp: already_seeded_def)
  then have assigned: "returns already_seeded (act_res (json_assign v ''id'' (Str (id_hex H (cd_id created)))))"
    if "\<exists>sd. cd_id created = SignedDrop_id C sd" for created using that by (auto simp: returns_def act_res_def)
  show ?case
  proof (cases "already_seeded v")
    case True
    then show ?thesis using tail [OF True, of "\<lambda>n. n"] by simp
  next
    case False
    then show ?thesis
      unfolding seed_drops.simps Let_def if_not_P [OF False]
      by (intro returns_then [of _ _ "act_res _"] returns_bind [OF drop_create_returns] returns_bind [OF assigned] tail)
  qed
qed (simp add: returns_res)

lemma seed_drops_seeded:
  "list_all already_seeded vs \<Longrightarrow> seed_drops C H A shuffle J zero participants vs c = Some (Ok (vs, 0), c)"
  by (induction vs) (simp_all add: act_res_def act_then_def)

section \<open>Properties\<close>

text \<open>
  The library's output is the text of a Rust string, and reading it gives back the value.
\<close>

definition pretty_laws :: "('n, 'f) serde \<Rightarrow> bool" where
  "pretty_laws J \<longleftrightarrow> serde_laws J \<and> (\<forall>v s. to_string_pretty J v = Ok s \<longrightarrow> str_ok s)"

lemma mkdir_dirs: "disk_create_dir_all [a] d = Ok d' \<Longrightarrow> set (dk_dirs d') = insert [a] (set (dk_dirs d))"
  by (auto simp: disk_create_dir_all_def Let_def split: if_splits)

text \<open>Saving reads back, and saving the same value again changes no file.\<close>

lemma saved_hunt:
  assumes "pretty_laws J" "save_hunt J name v c = Some (Ok (), c')"
  shows "load_hunt J name (console_disk c') = Ok v"
    and "console_disk b = console_disk c' \<Longrightarrow> \<exists>b'. save_hunt J name v b = Some (Ok (), b')
      \<and> disk_read (console_disk b') = disk_read (console_disk c') \<and> w_rng (co_world b') = w_rng (co_world b)"
proof -
  obtain d1 d2 content where r: "ignore_failure (disk_create_dir_all [''hunts'']) (console_disk c) = Ok d1"
    "to_string_pretty J v = Ok content" "disk_write (hunt_path name) (str_bytes content) d1 = Ok d2" "console_disk c' = d2"
    using assms(2) by (auto simp: save_hunt_def act_defs on_store_def split: res.splits dest!: act_then_Ok)
  have ok: "str_ok content" "from_slice J (str_bytes content) = Ok v"
    using assms(1) r(2) by (simp_all add: pretty_laws_def serde_laws_def)
  show "load_hunt J name (console_disk c') = Ok v"
    using read_text_written [OF r(3) ok(1)] ok(2) r(4) by (simp add: load_hunt_def)
  assume b: "console_disk b = console_disk c'"
  define d3 where "d3 = (case disk_create_dir_all [''hunts''] d2 of Ok d \<Rightarrow> d | _ \<Rightarrow> d2)"
  have np: "disk_create_dir_all p d \<noteq> Panic" for p d by (simp add: disk_create_dir_all_def Let_def)
  have d3: "ignore_failure (disk_create_dir_all [''hunts'']) d2 = Ok d3" "disk_read d3 = disk_read d2"
    "set (dk_dirs d3) \<subseteq> insert [''hunts''] (set (dk_dirs d2))" "set (dk_dirs d2) \<subseteq> set (dk_dirs d3)"
    using np mkdir_reads mkdir_dirs by (auto simp: d3_def ignore_failure_def split: res.splits)
  have w: "butlast (hunt_path name) \<in> set (dk_dirs d2)" "hunt_path name \<notin> set (dk_dirs d2)" "hunt_path name \<noteq> [''hunts'']"
    using r(3) disk_write_dirs [OF r(3)] by (auto simp: disk_write_def hunt_path_def split: if_splits)
  then have "butlast (hunt_path name) \<in> set (dk_dirs d3)" "hunt_path name \<notin> set (dk_dirs d3)" using d3(3,4) by auto
  then obtain d4 where d4: "disk_write (hunt_path name) (str_bytes content) d3 = Ok d4"
    by (simp add: disk_write_def hunt_path_def)
  have "disk_read d4 = disk_read d2" using d3(2) by (simp add: fun_eq_iff disk_read_write [OF d4] disk_read_write [OF r(3)])
  moreover have "save_hunt J name v b = Some (Ok (), b\<lparr>co_world := (co_world b)\<lparr>w_disk := d4\<rparr>\<rparr>)"
    using b r(2,4) d3(1) d4 by (simp add: save_hunt_def act_defs on_store_def)
  ultimately show "\<exists>b'. save_hunt J name v b = Some (Ok (), b')
      \<and> disk_read (console_disk b') = disk_read (console_disk c') \<and> w_rng (co_world b') = w_rng (co_world b)"
    using r(4) by auto
qed

lemma with_array_facts:
  assumes "as_array_mut val ''drops'' = (Ok (Some drops) :: (_, 'e) res)"
  shows "participants_of (with_array val ''drops'' vs) = participants_of val"
    and "as_array_mut (with_array val ''drops'' vs) ''drops'' = Ok (Some vs)"
    and "as_array (json_index (with_array val ''drops'' vs) ''drops'') = Some vs"
    and "with_array (with_array val ''drops'' vs) ''drops'' ws = with_array val ''drops'' ws"
  using assms by (cases val; simp add: participants_of_def json_index_def)+


section \<open>Witness\<close>

text \<open>A library that knows two values: the hunt before it is seeded and after.\<close>

definition two_values :: "'f Value \<Rightarrow> 'f Value \<Rightarrow> ('f, 'f) serde" where
  "two_values v0 v1 = \<lparr>from_slice = \<lambda>bs. if bs = str_bytes ''x'' then Ok v0 else if bs = str_bytes ''y'' then Ok v1 else Err [],
    to_vec = \<lambda>_. None, to_string_pretty = \<lambda>v. if v = v1 then Ok ''y'' else Err [], number_from = \<lambda>_. undefined,
    number_from_f64 = Some, number_as_u64 = \<lambda>_. None, number_as_f64 = Some\<rparr>"

definition demo_hunt :: "'f Value \<Rightarrow> 'f Value" where
  "demo_hunt v = Object [''participants'' \<mapsto> Array [Str ''me''], ''drops'' \<mapsto> Array [v]]"

definition hunt_console :: "unit Console" where
  "hunt_console = \<lparr>co_world = \<lparr>w_disk = \<lparr>dk_files = (hunt_path ''h'', str_bytes ''x'') # dk_files demo_disk, dk_dirs = [[''hunts'']]\<rparr>,
     w_rng = \<lambda>_. 0, w_clock = []\<rparr>, co_files = \<lparr>dk_files = [], dk_dirs = []\<rparr>, co_out = [], co_net = ()\<rparr>"

lemma hunt_console_ok:
  "layout_ok (console_disk hunt_console)" "log_holds [] (console_disk hunt_console)"
  "Store_identity hex_impl (console_disk hunt_console) = Ok demo_identity"
  "Store_contacts hex_impl (console_disk hunt_console) = Ok [demo_contact]"
proof -
  have rd: "disk_read (console_disk hunt_console) q = (if q = hunt_path ''h'' then Some (str_bytes ''x'') else disk_read demo_disk q)" for q
    by (simp add: hunt_console_def disk_read_def)
  have p: "hunt_path ''h'' \<noteq> identity_path" "hunt_path ''h'' \<noteq> contacts_path" "hunt_path ''h'' \<noteq> entries_path"
    by (simp_all add: hunt_path_def path_defs)
  have "file_path_ok (hunt_path ''h'')" "dk_dirs (console_disk hunt_console) = [[''hunts'']]" "dir_path_ok [''hunts'']"
    by (simp_all add: file_path_ok_def dir_path_ok_def top_dirs_def hunt_path_def hunt_console_def)
  with demo_disk_ok(1) show "layout_ok (console_disk hunt_console)" by (auto simp: layout_ok_def rd split: if_splits)
  show "log_holds [] (console_disk hunt_console)" using demo_disk_ok(2) p by (simp add: log_holds_def rd)
  show "Store_identity hex_impl (console_disk hunt_console) = Ok demo_identity"
    using demo_disk_ok(3) p by (simp add: Store_identity_def disk_read_to_string_def rd)
  show "Store_contacts hex_impl (console_disk hunt_console) = Ok [demo_contact]"
    using demo_disk_ok(4) p by (simp add: Store_contacts_def disk_read_to_string_def rd)
qed

lemma save_hunt_works:
  assumes "layout_ok (console_disk c)" "to_string_pretty J v = Ok content"
  shows "\<exists>c'. save_hunt J name v c = Some (Ok (), c') \<and> (\<forall>q. q \<noteq> hunt_path name \<longrightarrow> disk_read (console_disk c') q = disk_read (console_disk c) q)"
proof -
  have p: "dir_path_ok [''hunts'']" "file_path_ok (hunt_path name)" by (simp_all add: dir_path_ok_def file_path_ok_def top_dirs_def hunt_path_def)
  obtain d1 where d1: "disk_create_dir_all [''hunts''] (console_disk c) = Ok d1" "layout_ok d1" "[''hunts''] \<in> set (dk_dirs d1)"
    "\<And>q. disk_read d1 q = disk_read (console_disk c) q" by (rule mkdir_in_layout [OF assms(1) p(1)]) (rule that)
  have "butlast (hunt_path name) = [] \<or> butlast (hunt_path name) \<in> set (dk_dirs d1)" using d1(3) by (simp add: hunt_path_def)
  from write_in_layout [OF d1(2) p(2) this] obtain d2 where d2: "disk_write (hunt_path name) (str_bytes content) d1 = Ok d2"
    "\<And>q. disk_read d2 q = (if q = hunt_path name then Some (str_bytes content) else disk_read d1 q)" by metis
  have "save_hunt J name v c = Some (Ok (), c\<lparr>co_world := (co_world c)\<lparr>w_disk := d2\<rparr>\<rparr>)"
    using d1(1) d2(1) assms(2) by (simp add: save_hunt_def act_defs on_store_def ignore_failure_def)
  then show ?thesis using d1(4) d2(2) by auto
qed


end
