(* ===== verification/Cli.thy ===== *)
theory Cli
  imports Exchange Hunt
begin

text \<open>
  The command line program of \<open>crates/cli/src/main.rs\<close> as a whole: the commands as the source
  declares them, the dispatch of \<open>main\<close>, and what holds of every command. Everything outside
  the program is in the environment: the cryptography, the codecs, the cell library, the
  libraries for JSON and for numbers, the network and the external client. A command that
  serves is modelled up to the point where it serves, after which it does not return.
\<close>

section \<open>Commands\<close>

datatype 'f HuntCmd =
    HuntCreate string
  | AddParticipant string string
  | AddDrop string 'f 'f u32 string string
  | HuntSeed string
  | HuntShow string
  | HuntMap string path

datatype 'f Command =
    Keygen
  | PrintId
  | ContactAdd string string string "string option"
  | ContactList
  | DropCreate "string list" 'f 'f u8 u32 "string option" "path option" u64 string
  | DropOpen string "path option"
  | DropList "'f option" "'f option" u32
  | LogVerify string
  | Verify path
  | LogAnchor string
  | LogAnchors
  | LogAnchorOts string
  | LogOtsVerify path
  | Serve string
  | Fetch string string
  | Push string string
  | SthServe string
  | SthFetch string
  | P2pServe string
  | P2pFetch string string
  | HuntCommand "'f HuntCmd"
  | FindProviders string string u32

record ('f, 'l, 'r, 'c, 'n, 's) environment =
  en_crypto :: crypto
  en_hex :: hex_codec
  en_h3 :: "('f, 'l, 'r, 'c) h3"
  en_shuffle :: "WrappedKey list \<Rightarrow> rng \<Rightarrow> WrappedKey list \<times> rng"
  en_serde :: "('n, 'f) serde"
  en_f64 :: "'f f64"
  en_show :: "'n Value \<Rightarrow> string"
  en_ots :: ots
  en_tcp :: "'s tcp"
  en_bind :: "string \<Rightarrow> (unit, io_error) res"
  en_multiaddr :: "string \<Rightarrow> multiaddr option"
  en_swarm :: swarm
  en_p2p :: "'s p2p"
  en_events :: "swarm_event list"
  en_cells :: "string list \<Rightarrow> string list"
  en_finish :: "string list \<Rightarrow> string list"
  en_lookup :: "multiaddr \<Rightarrow> string \<Rightarrow> (peer_id list, p2p_error) res"

fun cli_hunt :: "('f, 'l, 'r, 'c, 'n, 's) environment \<Rightarrow> 'f HuntCmd \<Rightarrow> (unit, 's) command" where
  "cli_hunt E (HuntCreate name) = hunt_create (en_serde E) name"
| "cli_hunt E (AddParticipant name contact) = hunt_add_participant (en_hex E) (en_serde E) name contact"
| "cli_hunt E (AddDrop name lat lng ring suite message) =
    hunt_add_drop (en_serde E) (f_show (en_f64 E)) name lat lng ring suite message"
| "cli_hunt E (HuntSeed name) =
    hunt_seed (en_crypto E) (en_hex E) (en_h3 E) (en_shuffle E) (en_serde E) (f_lit (en_f64 E) ''0.0'') name"
| "cli_hunt E (HuntShow name) = hunt_show (en_serde E) (en_show E) name"
| "cli_hunt E (HuntMap name out) = hunt_map (en_serde E) (en_f64 E) name out"

definition then_ok :: "('a, 's) command \<Rightarrow> (unit, 's) command" where
  "then_ok m = act_then m (\<lambda>_. act_res (Ok ()))"

fun cli_main :: "('f, 'l, 'r, 'c, 'n, 's) environment \<Rightarrow> 'f Command \<Rightarrow> (unit, 's) command" where
  "cli_main E Keygen = cmd_keygen (en_crypto E) (en_hex E)"
| "cli_main E PrintId = print_id (en_crypto E) (en_hex E)"
| "cli_main E (ContactAdd name sg ec hybrid) = contact_add (en_hex E) name sg ec hybrid"
| "cli_main E ContactList = contact_list (en_hex E)"
| "cli_main E (DropCreate to lat lng res ring message payload ttl suite) =
    cmd_drop_create (en_crypto E) (en_hex E) (en_h3 E) (en_shuffle E) to lat lng res ring message payload ttl suite"
| "cli_main E (DropOpen id_text out) = drop_open (en_crypto E) (en_hex E) id_text out"
| "cli_main E (DropList lat lng ring) = drop_list (en_crypto E) (en_hex E) (en_h3 E) lat lng ring"
| "cli_main E (LogVerify id_text) = log_verify (en_crypto E) (en_hex E) id_text"
| "cli_main E (Verify p) = verify_file (en_crypto E) (en_hex E) p"
| "cli_main E (LogAnchor id_text) = log_anchor (en_crypto E) (en_hex E) id_text"
| "cli_main E LogAnchors = log_anchors (en_crypto E) (en_hex E)"
| "cli_main E (LogAnchorOts id_text) = log_anchor_ots (en_crypto E) (en_hex E) (en_ots E) id_text"
| "cli_main E (LogOtsVerify p) = log_ots_verify (en_ots E) p"
| "cli_main E (Serve listen) = then_ok (cmd_serve (en_crypto E) (en_hex E) (en_bind E) listen)"
| "cli_main E (Fetch peer id_text) = cmd_fetch (en_crypto E) (en_hex E) (en_tcp E) peer id_text"
| "cli_main E (Push peer id_text) = cmd_push (en_crypto E) (en_hex E) (en_tcp E) peer id_text"
| "cli_main E (SthServe listen) = then_ok (sth_serve (en_crypto E) (en_hex E) (en_bind E) listen)"
| "cli_main E (SthFetch peer) = sth_fetch (en_crypto E) (en_hex E) (en_tcp E) peer"
| "cli_main E (P2pServe listen) =
    then_ok (cmd_p2p_serve (en_crypto E) (en_hex E) (en_multiaddr E) (en_swarm E) listen (en_events E))"
| "cli_main E (P2pFetch peer id_text) =
    cmd_p2p_fetch (en_crypto E) (en_hex E) (en_multiaddr E) (en_swarm E) (en_p2p E) peer id_text"
| "cli_main E (HuntCommand cmd) = cli_hunt E cmd"
| "cli_main E (FindProviders peer cell ring) =
    find_providers_cmd (en_h3 E) (en_cells E) (en_finish E) (en_multiaddr E) (en_lookup E) peer cell ring"

section \<open>What every command keeps\<close>

text \<open>
  A relation between disks that allows every file to be written that a command writes, except
  the identity and the log file, and that the external client keeps.
\<close>

locale cli_relation = key_relation +
  fixes T :: ots
  assumes free_files: "hybrid_path \<notin> guarded" "mldsa_path \<notin> guarded" "contacts_path \<notin> guarded" "log_key_path \<notin> guarded"
      "anchors_path \<notin> guarded"
    and free_drops: "drop_path H i \<notin> guarded" "chunk_path H i k \<notin> guarded" "hunt_path name \<notin> guarded" "[''anchors'', f] \<notin> guarded"
    and stamped: "R d (snd (ots_stamp T p d))"
begin

lemma keeps_drop_create: "keeps console_disk (drop_create C H A shuffle to lat lng res ring message payload ttl suite)"
  unfolding drop_create_def act_res_def [of _ "_ :: 's Console"]
  by (intro command_intros keeps_create free_files free_drops)

lemma keeps_key_and_drop_commands:
  "keeps console_disk (cmd_keygen C H)"
  "keeps console_disk (cmd_drop_create C H A shuffle to lat lng res ring message payload ttl suite)"
  "keeps console_disk (drop_open C H id_text out)"
  "keeps console_disk (drop_list C H A lat' lng' ring)"
  unfolding cmd_keygen_def cmd_drop_create_def drop_open_def drop_list_def Let_def
  by (intro command_intros keeps_keygen keeps_hybrid_public keeps_drop_create free_files)+

lemma keeps_run_stamp: "keeps console_disk (run_stamp T p)"
  using stamped unfolding keeps_def by (auto simp: run_stamp_def case_prod_beta)

lemma keeps_log_commands:
  "keeps console_disk (log_verify C H id_text)"
  "keeps console_disk (log_anchor C H id_text)"
  "keeps console_disk (log_anchors C H)"
  "keeps console_disk (log_anchor_ots C H T id_text)"
  "keeps console_disk (log_ots_verify T p)"
  "keeps console_disk (local_sth C H)"
  unfolding log_verify_def log_anchor_def log_anchors_def log_anchor_ots_def log_ots_verify_def local_sth_def Let_def case_prod_beta
  by (intro command_intros keeps_verify keeps_log_identity keeps_signed_tree_head keeps_save_receipts keeps_write_ots_digest
      keeps_run_stamp free_files free_drops)+

lemma keeps_push_chunks: "keeps console_disk (push_chunks H putc i k left)"
  by (induction left arbitrary: k) (auto intro!: command_intros keeps_ask)

lemma keeps_peer_commands:
  "keeps console_disk (cmd_fetch C H tcp peer id_text)"
  "keeps console_disk (cmd_p2p_fetch C H parse sw p2p peer id_text)"
  "keeps console_disk (cmd_push C H tcp peer id_text)"
  "keeps console_disk (sth_fetch C H tcp peer)"
  "keeps console_disk (verify_file C H p)"
  "keeps console_disk (find_providers_cmd A cells finish parse lookup peer cell ring)"
  "keeps console_disk (cmd_serve C H bind' listen)"
  "keeps console_disk (sth_serve C H bind' listen)"
  "keeps console_disk (cmd_p2p_serve C H parse sw listen events)"
  unfolding cmd_fetch_def cmd_p2p_fetch_def cmd_push_def sth_fetch_def verify_file_def find_providers_cmd_def cmd_serve_def
    sth_serve_def cmd_p2p_serve_def parse_multiaddr_def
  by (intro command_intros keeps_ask keeps_receive_drop keeps_push_chunks keeps_log_commands free_drops)+

lemma keeps_save_hunt: "keeps console_disk (save_hunt J name v)"
  unfolding save_hunt_def by (intro command_intros free_drops)

lemma keeps_seed: "keeps console_disk (seed_drops C H A shuffle J zero participants vs)"
  by (induction vs) (auto simp: Let_def intro!: command_intros keeps_drop_create)

lemma keeps_read_hunt: "keeps console_disk (read_hunt J name)"
  unfolding read_hunt_def by (rule keeps_outside)

lemma keeps_hunt_create: "keeps console_disk (hunt_create J name)"
  unfolding hunt_create_def [abs_def] by (intro keeps_if_state command_intros keeps_save_hunt)

lemma keeps_hunt: "keeps console_disk (cli_hunt E cmd)"
  by (cases cmd) (auto simp: hunt_add_participant_def hunt_add_drop_def hunt_seed_def hunt_show_def
      hunt_map_def load_contacts_def array_at_def Let_def
      intro!: command_intros keeps_save_hunt keeps_seed keeps_read_hunt keeps_hunt_create)

lemma keeps_main: "en_ots E = T \<Longrightarrow> keeps console_disk (cli_main E cmd)"
  by (cases cmd) (simp_all add: then_ok_def keeps_then keeps_res keeps_hunt keeps_key_and_drop_commands keeps_log_commands
      keeps_peer_commands keeps_identity_commands free_files)

end

text \<open>The external client neither replaces the identity nor rewrites the log.\<close>

definition ots_laws :: "ots \<Rightarrow> bool" where
  "ots_laws T \<longleftrightarrow> (\<forall>p d. secured d (snd (ots_stamp T p d)))"

interpretation cli_secure: cli_relation "\<lambda>d d'. ots_laws T \<longrightarrow> secured d d'" "{identity_path, entries_path}" T for T
proof unfold_locales
  show "anchors_path \<notin> {identity_path, entries_path}" by (simp add: anchors_path_def path_defs)
qed (auto simp: secure.same secure.mkdir secure.writes secure.log_append secure.new_identity ots_laws_def
    path_defs log_key_path_def chunk_path_def hunt_path_def intro: secure.step)

end
