(* ===== verification/System.thy ===== *)
theory System
  imports Cli Daemon
begin

text \<open>
  The programs on one data directory: any sequence of commands of the command line program and
  of requests to the daemon. The daemon's operations are shown to keep what the commands
  keep, and the properties are about everything that can be done to the directory.
\<close>

section \<open>The daemon\<close>

context cli_relation
begin

lemma keeps_explain: "keeps w_disk m \<Longrightarrow> keeps w_disk (explain D m)"
  unfolding keeps_def by (auto simp: explain_def)

lemma keeps_handlers:
  "keeps w_disk (api_id D)" "keeps w_disk (api_contacts D)" "keeps w_disk (api_add_contact D body)"
  "keeps w_disk (api_list_drops D query)" "keeps w_disk (api_drop_meta D id_text)" "keeps w_disk (api_create_drop D body)"
  "keeps w_disk (api_open_drop D id_text)" "keeps w_disk (api_verify D id_text)"
  unfolding api_id_def api_contacts_def api_add_contact_def api_list_drops_def api_drop_meta_def api_create_drop_def
    api_open_drop_def api_verify_def Let_def
  by (intro keeps_intros keeps_explain keeps_hybrid_public keeps_create keeps_verify free_files free_drops)+

definition keeps_reply :: "reply \<Rightarrow> bool" where
  "keeps_reply m \<longleftrightarrow> (\<forall>w r w'. m w = Some (r, w') \<longrightarrow> R (w_disk w) (w_disk w'))"

lemma keeps_status: "keeps w_disk m \<Longrightarrow> keeps_reply (api_status J m code)" "keeps w_disk m \<Longrightarrow> keeps_reply (api J m)"
  unfolding keeps_def keeps_reply_def by (auto simp: api_status_def api_def split: option.splits res.splits)

lemma keeps_reply_with: "keeps_reply (reply_with response)"
  by (simp add: keeps_reply_def reply_with_def same)

lemma keeps_route: "keeps_reply (route D token req)"
proof -
  have "keeps_reply (route_with_id D req)"
    by (auto simp: route_with_id_def keeps_status keeps_handlers keeps_reply_with split: option.splits)
  then show ?thesis by (simp add: route_def Let_def keeps_status keeps_handlers keeps_reply_with)
qed

lemma keeps_connection: "serve_connection D token sock w = Some (r, w') \<Longrightarrow> R (w_disk w) (w_disk w')"
  using keeps_route [of D token] unfolding keeps_reply_def
  by (auto simp: serve_connection_def same split: res.splits)

end

section \<open>Properties\<close>

text \<open>
  The life of a data directory: commands and connections of the daemon, one after another,
  each in an environment and with a clock, a random generator, other files and a network of
  its own.
\<close>

inductive history :: "('f, 'l, 'r, 'c, 'n, 's) environment set \<Rightarrow> Disk \<Rightarrow> Disk \<Rightarrow> bool" for \<E> where
  untouched: "history \<E> d d"
| command: "history \<E> d (console_disk c) \<Longrightarrow> E \<in> \<E> \<Longrightarrow> cli_main E cmd c = Some (r, c') \<Longrightarrow> history \<E> d (console_disk c')"
| connection: "history \<E> d (w_disk w) \<Longrightarrow> serve_connection (D :: ('f, 'l, 'r, 'c, 'n) deps) token sock w = Some (reply, w')
    \<Longrightarrow> history \<E> d (w_disk w')"

lemma history_secured:
  assumes "history \<E> d d'" "\<forall>E \<in> \<E>. ots_laws (en_ots E)"
  shows "secured d d'"
  using assms(1)
proof induction
  case (command d c E cmd r c')
  then have "secured (console_disk c) (console_disk c')"
    using cli_secure.keepsD [OF cli_secure.keeps_main [OF refl] command(3)] assms(2) by simp
  with command.IH show ?case by (rule secure.step)
next
  case (connection d w D token sock reply w')
  have "secured (w_disk w) (w_disk w')"
    using cli_secure.keeps_connection [where T = "\<lparr>ots_available = False, ots_stamp = \<lambda>p d. (None, d), ots_verify = \<lambda>p d. None\<rparr>", OF connection(2)]
    by (simp add: ots_laws_def secure.same)
  with connection.IH show ?case by (rule secure.step)
qed (rule secure.same)


section \<open>Witness\<close>

definition new_hunt :: "nat Value" where
  "new_hunt = Object [''name'' \<mapsto> Str ''h'', ''participants'' \<mapsto> Array [], ''drops'' \<mapsto> Array []]"

definition demo_f64 :: "nat f64" where
  "demo_f64 = \<lparr>f_lit = \<lambda>_. 0, f_infinity = 0, f_neg_infinity = 0, f_min = min, f_max = max, f_add = (+), f_sub = (-), f_mul = (*),
     f_div = (div), f_fixed = \<lambda>_ _. [], f_show = \<lambda>_. []\<rparr>"

definition demo_environment :: "(nat, nat, u8, bool, nat, unit) environment" where
  "demo_environment = \<lparr>en_crypto = toy_crypto, en_hex = hex_impl, en_h3 = toy_h3, en_shuffle = (\<lambda>xs r. (xs, r)),
     en_serde = two_values Null new_hunt, en_f64 = demo_f64, en_show = \<lambda>_. [],
     en_ots = \<lparr>ots_available = False, ots_stamp = \<lambda>p d. (None, d), ots_verify = \<lambda>p d. None\<rparr>,
     en_tcp = (\<lambda>_ _ n. (Err ConnectionReset, n)), en_bind = (\<lambda>_. Ok ()), en_multiaddr = Some, en_swarm = demo_swarm,
     en_p2p = (\<lambda>_ _ n. ([], n)), en_events = [], en_cells = (\<lambda>xs. xs), en_finish = (\<lambda>xs. xs), en_lookup = (\<lambda>_ _. Ok [])\<rparr>"


end
