(* ===== verification/Programs.thy ===== *)
theory Programs
  imports System
begin

text \<open>
  The functions that listen: the accept loops of \<open>crates/node/src/net.rs\<close> for a signed tree head
  and for presence attestations, and \<open>main\<close> of the daemon in \<open>crates/daemon/src/main.rs\<close>. What a
  listener accepts is a list, which ends with the first error; a task that is spawned for a
  connection is run to its end before the next one.
\<close>

section \<open>Accept loops (net.rs)\<close>

fun accepted :: "('a, io_error) res list \<Rightarrow> 'a list" where
  "accepted [] = []"
| "accepted (Ok stream # later) = stream # accepted later"
| "accepted (Err _ # later) = []"
| "accepted (Panic # later) = []"

text \<open>The streams as the tasks leave them; how a task ends is ignored.\<close>

definition serve_sth :: "(Stream, io_error) res list \<Rightarrow> SignedTreeHead \<Rightarrow> Stream list" where
  "serve_sth listener sth = map (\<lambda>stream. fst (snd (sth_respond stream sth))) (accepted listener)"

text \<open>Each connection comes with what the clock reads while it is served.\<close>

definition serve_witness :: "crypto \<Rightarrow> (Stream \<times> u64 option list, io_error) res list \<Rightarrow> Identity \<Rightarrow> string \<Rightarrow> Stream list" where
  "serve_witness C listener witness cell =
    map (\<lambda>(stream, clock). fst (snd (witness_respond C witness cell stream clock))) (accepted listener)"

lemma serve_sth_each:
  assumes "fits (Sth (SignedTreeHead_to_bytes sth))"
  shows "serve_sth (replicate n (Ok (open_stream (frame_bytes (Hello v) @ frame_bytes GetSth)))) sth
    = replicate n \<lparr>st_inbox = [], st_reset = False, st_room = None, st_outbox = frame_bytes (Hello v) @ frame_bytes (Sth (SignedTreeHead_to_bytes sth))\<rparr>"
proof -
  have "accepted (replicate n (Ok s)) = replicate n s" for s :: Stream by (induction n) simp_all
  moreover have "sth_respond (open_stream (frame_bytes (Hello v) @ frame_bytes GetSth)) sth
      = (Ok (), \<lparr>st_inbox = [], st_reset = False, st_room = None, st_outbox = frame_bytes (Hello v) @ frame_bytes (Sth (SignedTreeHead_to_bytes sth))\<rparr>, sth)"
    using log_server.loop_request [of GetSth sth "Sth (SignedTreeHead_to_bytes sth)" _ sth] assms
    by (simp add: sth_respond_def log_server.loop_greeting small_fits)
  ultimately show ?thesis by (simp add: serve_sth_def map_replicate_const)
qed

section \<open>The daemon\<close>

text \<open>Opening a data directory: \<open>creatable\<close> says which directories are there or can be made.\<close>

record Store =
  store_root :: string

definition Store_open :: "(string \<Rightarrow> bool) \<Rightarrow> string \<Rightarrow> (Store, store_error) res" where
  "Store_open creatable root = (if creatable root then Ok \<lparr>store_root = root\<rparr> else Err StoreIo)"

definition Store_root :: "Store \<Rightarrow> string" where
  "Store_root store = store_root store"

fun daemon_loop ::
    "('f, 'l, 'r, 'c, 'n) deps \<Rightarrow> string option \<Rightarrow> socket list \<Rightarrow> World \<Rightarrow> (bytes option list \<times> World) option" where
  "daemon_loop D token [] w = Some ([], w)"
| "daemon_loop D token (stream # later) w =
    (case serve_connection D token stream w of
       None \<Rightarrow> None
     | Some (reply, w) \<Rightarrow> map_option (\<lambda>(replies, w). (reply # replies, w)) (daemon_loop D token later w))"

definition daemon_banner :: "string \<Rightarrow> Store \<Rightarrow> string option \<Rightarrow> string" where
  "daemon_banner listen store token =
    ''keepstone daemon on http://'' @ listen @ ''  (data: '' @ Store_root store @ '')''
      @ (case token of Some _ \<Rightarrow> ''  [token auth enabled]'' | None \<Rightarrow> '''') @ newline"

datatype daemon_end = Exited nat | Aborted | Served string "bytes option list"

definition daemon_main ::
    "('f, 'l, 'r, 'c, 'n) deps \<Rightarrow> string option \<Rightarrow> string list \<Rightarrow> (string \<Rightarrow> bool) \<Rightarrow> (string \<Rightarrow> bool)
      \<Rightarrow> (socket, io_error) res list \<Rightarrow> (string \<Rightarrow> World) \<Rightarrow> (daemon_end \<times> (string \<Rightarrow> World)) option" where
  "daemon_main D env_token args creatable bindable listener worlds =
    (let cf = daemon_config env_token args in
     case Store_open creatable (cf_data_dir cf) of
       Ok store \<Rightarrow>
         if \<not> bindable (cf_listen cf) then Some (Aborted, worlds)
         else map_option (\<lambda>(replies, w). (Served (daemon_banner (cf_listen cf) store (cf_token cf)) replies, worlds(Store_root store := w)))
           (daemon_loop D (cf_token cf) (accepted listener) (worlds (Store_root store)))
     | _ \<Rightarrow> Some (Exited 1, worlds))"

text \<open>A run of the daemon is part of the life of its data directory.\<close>

lemma daemon_loop_history:
  "history \<E> d (w_disk w) \<Longrightarrow> daemon_loop (D :: ('f, 'l, 'r, 'c, 'n) deps) token streams w = Some (replies, w')
    \<Longrightarrow> history (\<E> :: ('f, 'l, 'r, 'c, 'n, 's) environment set) d (w_disk w')"
proof (induction streams arbitrary: w replies)
  case (Cons stream later)
  then obtain reply w1 rest where "serve_connection D token stream w = Some (reply, w1)" "daemon_loop D token later w1 = Some (rest, w')"
    by (auto split: option.splits)
  then show ?case using Cons.IH history.connection [OF Cons.prems(1)] by blast
qed simp

lemma daemon_keeps_directories:
  assumes "daemon_main D env_token args creatable bindable listener worlds = Some (r, worlds')"
  shows "(\<forall>dir. dir \<noteq> cf_data_dir (daemon_config env_token args) \<longrightarrow> worlds' dir = worlds dir)
    \<and> (\<forall>dir. secured (w_disk (worlds dir)) (w_disk (worlds' dir)))"
proof (cases "\<exists>replies w. worlds' = worlds(cf_data_dir (daemon_config env_token args) := w)
    \<and> daemon_loop D (cf_token (daemon_config env_token args)) (accepted listener) (worlds (cf_data_dir (daemon_config env_token args))) = Some (replies, w)")
  case True
  then show ?thesis
    using history_secured [OF daemon_loop_history [OF history.untouched, where \<E> = "{}"]] secure.same by fastforce
next
  case False
  then have "worlds' = worlds"
    using assms by (auto simp: daemon_main_def Store_open_def Store_root_def Let_def split: if_splits)
  then show ?thesis using secure.same by simp
qed

end
