(* ===== verification/Xtask.thy ===== *)
theory Xtask
  imports System
begin

text \<open>
  The developer tasks of \<open>xtask/src/main.rs\<close>, above all \<open>demo\<close>: a script that runs the command
  line program as a series of processes on three data directories and checks what they
  print. A process parses its arguments with \<open>clap\<close>, which is a function here, runs \<open>cli_main\<close>
  on its directory with randomness and a clock of its own, and its output is captured. The
  network changes when a relay starts to listen and when it is killed. What goes to the standard error stream, the
  waiting for the relay and the location of the binary are not represented.
\<close>

section \<open>Processes\<close>

record ('f, 'l, 'r, 'c, 'n, 's) host =
  ho_env :: "('f, 'l, 'r, 'c, 'n, 's) environment"
  ho_clap :: "string list \<Rightarrow> 'f Command option"
  ho_cargo :: "string list \<Rightarrow> bool"
  ho_rng :: "nat \<Rightarrow> rng"
  ho_clock :: "nat \<Rightarrow> u64 option list"
  ho_files :: Disk
  ho_listen :: "string \<Rightarrow> SharedStore \<Rightarrow> 's \<Rightarrow> 's"
  ho_kill :: "string \<Rightarrow> 's \<Rightarrow> 's"

text \<open>The directories below the temporary one, how many processes were started, the network, the output.\<close>

record 's Stage =
  st_dirs :: "string \<Rightarrow> Disk"
  st_runs :: nat
  st_net :: 's
  st_out :: string

type_synonym ('a, 's) script = "('a, unit, 's Stage) act"

definition say :: "string \<Rightarrow> (unit, 's) script" where
  "say s st = Some (Ok (), st\<lparr>st_out := st_out st @ s\<rparr>)"

definition sayln :: "string \<Rightarrow> (unit, 's) script" where
  "sayln s = say (s @ newline)"

definition console_of :: "('f, 'l, 'r, 'c, 'n, 's) host \<Rightarrow> string \<Rightarrow> 's Stage \<Rightarrow> 's Console" where
  "console_of h dir st = \<lparr>co_world = \<lparr>w_disk = st_dirs st dir, w_rng = ho_rng h (st_runs st), w_clock = ho_clock h (st_runs st)\<rparr>,
     co_files = ho_files h, co_out = [], co_net = st_net st\<rparr>"

definition after :: "string \<Rightarrow> 's Console \<Rightarrow> 's Stage \<Rightarrow> 's Stage" where
  "after dir c st = st\<lparr>st_dirs := (st_dirs st)(dir := w_disk (co_world c)), st_runs := Suc (st_runs st), st_net := co_net c\<rparr>"

definition cargo_run :: "('f, 'l, 'r, 'c, 'n, 's) host \<Rightarrow> string list \<Rightarrow> (bool, 's) script" where
  "cargo_run h args = act_then (sayln (''$ cargo '' @ join_str '' '' args)) (\<lambda>_. act_res (Ok (ho_cargo h args)))"

definition client :: "('f, 'l, 'r, 'c, 'n, 's) host \<Rightarrow> string \<Rightarrow> string list \<Rightarrow> (string, 's) script" where
  "client h dir args st =
    (case ho_clap h args of
       None \<Rightarrow> Some (Ok [], st\<lparr>st_runs := Suc (st_runs st)\<rparr>)
     | Some cmd \<Rightarrow>
         (case cli_main (ho_env h) cmd (console_of h dir st) of
            None \<Rightarrow> None
          | Some (_, c) \<Rightarrow> Some (Ok (from_utf8_lossy (co_out c)), after dir c st)))"

fun find_map :: "('a \<Rightarrow> 'b option) \<Rightarrow> 'a list \<Rightarrow> 'b option" where
  "find_map f [] = None"
| "find_map f (x # xs) = (case f x of Some y \<Rightarrow> Some y | None \<Rightarrow> find_map f xs)"

definition field :: "string \<Rightarrow> string \<Rightarrow> string option" where
  "field output label = map_option trim (find_map (\<lambda>line. strip_prefix (trim line) label) (lines output))"

definition expect :: "'a option \<Rightarrow> ('a, 's) script" where
  "expect x = act_res (case x of Some v \<Rightarrow> Ok v | None \<Rightarrow> Panic)"

definition serve_in_background :: "('f, 'l, 'r, 'c, 'n, 's) host \<Rightarrow> string \<Rightarrow> string \<Rightarrow> (unit, 's) script" where
  "serve_in_background h dir listen st =
    (case ho_clap h [''serve'', ''--listen'', listen] of
       Some (Serve l) \<Rightarrow>
         (case cmd_serve (en_crypto (ho_env h)) (en_hex (ho_env h)) (en_bind (ho_env h)) l (console_of h dir st) of
            None \<Rightarrow> None
          | Some (Ok store, c) \<Rightarrow> Some (Ok (), (after dir c st)\<lparr>st_net := ho_listen h l store (co_net c)\<rparr>)
          | Some (_, c) \<Rightarrow> Some (Ok (), after dir c st))
     | _ \<Rightarrow> Some (Ok (), st\<lparr>st_runs := Suc (st_runs st)\<rparr>))"

fun contains_str :: "string \<Rightarrow> string \<Rightarrow> bool" where
  "contains_str [] t = (t = [])"
| "contains_str (c # s) t = (starts_with (c # s) t \<or> contains_str s t)"

section \<open>The demo\<close>

definition fresh_dirs :: "string list \<Rightarrow> (unit, 's) script" where
  "fresh_dirs names st =
    Some (Ok (), st\<lparr>st_dirs := fold (\<lambda>name dirs. dirs(name := \<lparr>dk_files = [], dk_dirs = []\<rparr>)) names (st_dirs st)\<rparr>)"

text \<open>Killing the child, whose listener is then gone, and removing the directories; failures are ignored.\<close>

definition kill_server :: "('f, 'l, 'r, 'c, 'n, 's) host \<Rightarrow> string \<Rightarrow> (unit, 's) script" where
  "kill_server h listen st = Some (Ok (), st\<lparr>st_net := ho_kill h listen (st_net st)\<rparr>)"

definition remove_dirs :: "string list \<Rightarrow> (unit, 's) script" where
  "remove_dirs names st =
    Some (Ok (), st\<lparr>st_dirs := fold (\<lambda>name dirs. dirs(name := \<lparr>dk_files = [], dk_dirs = []\<rparr>)) names (st_dirs st)\<rparr>)"

definition RELAY :: string where "RELAY = ''127.0.0.1:7799''"
definition NOTE :: string where "NOTE = ''meet at the old oak at dusk''"

fun say_lines :: "string list \<Rightarrow> (unit, 's) script" where
  "say_lines [] = act_res (Ok ())"
| "say_lines (s # rest) = act_then (sayln s) (\<lambda>_. say_lines rest)"

text \<open>The demo up to the drop that alice creates, and its result, the id of the drop.\<close>

definition demo_create :: "('f, 'l, 'r, 'c, 'n, 's) host \<Rightarrow> (string, 's) script" where
  "demo_create h =
    act_then (client h ''alice'' [''keygen'']) (\<lambda>_.
    act_then (client h ''bob'' [''keygen'']) (\<lambda>_.
    act_then (client h ''relay'' [''keygen'']) (\<lambda>_.
    act_then (sayln ''[1/6] generated identities for alice, bob, and a relay'') (\<lambda>_.
    act_then (client h ''bob'' [''id'']) (\<lambda>bob_id.
    act_then (expect (field bob_id ''signing:'')) (\<lambda>bob_signing.
    act_then (expect (field bob_id ''ecdh:'')) (\<lambda>bob_ecdh.
    act_then (expect (field bob_id ''hybrid:'')) (\<lambda>bob_hybrid.
    act_then (client h ''alice'' [''contact-add'', ''bob'', bob_signing, bob_ecdh, bob_hybrid]) (\<lambda>_.
    act_then (sayln ''[2/6] alice added bob (out-of-band key exchange)'') (\<lambda>_.
    act_then (client h ''alice'' [''drop-create'', ''--to'', ''bob'', ''--suite'', ''hybrid'', ''--lat'', ''51.5007'',
      ''--lng'', ''-0.1246'', ''--message'', NOTE]) (\<lambda>created.
    act_then (expect (field created ''id:'')) (\<lambda>i.
    act_then (sayln (''[3/6] alice created a post-quantum drop '' @ i)) (\<lambda>_.
    act_res (Ok i))))))))))))))"

text \<open>The rest: the drop goes through the relay to bob.\<close>

definition demo_deliver :: "('f, 'l, 'r, 'c, 'n, 's) host \<Rightarrow> string \<Rightarrow> (bool, 's) script" where
  "demo_deliver h i =
    act_then (serve_in_background h ''relay'' RELAY) (\<lambda>_.
    act_then (client h ''alice'' [''push'', RELAY, i]) (\<lambda>_.
    act_then (sayln ''[4/6] alice pushed ciphertext to the relay (relay holds no keys)'') (\<lambda>_.
    act_then (client h ''bob'' [''fetch'', RELAY, i]) (\<lambda>fetched.
    act_then (say fetched) (\<lambda>_.
    act_then (sayln ''[5/6] bob fetched the envelope and chunks from the relay'') (\<lambda>_.
    act_then (client h ''bob'' [''drop-open'', i]) (\<lambda>opened.
    act_then (client h ''bob'' [''log-verify'', i]) (\<lambda>verify.
    act_then (sayln (''[6/6] bob opened the drop: '' @ trim opened)) (\<lambda>_.
    act_then (say_lines (map (\<lambda>line. ''      '' @ line) (take 2 (lines verify)))) (\<lambda>_.
    act_then (kill_server h RELAY) (\<lambda>_.
    let ok = contains_str opened NOTE \<and> contains_str verify ''signature:   ok'' \<and> contains_str verify ''inclusion:   ok'' in
    act_then (sayln (newline @ ''result: '' @ (if ok then ''PASS'' else ''FAIL''))) (\<lambda>_.
    act_then (remove_dirs [''alice'', ''bob'', ''relay'']) (\<lambda>_.
    act_res (Ok ok))))))))))))))"

definition demo :: "('f, 'l, 'r, 'c, 'n, 's) host \<Rightarrow> (bool, 's) script" where
  "demo h =
    act_then (sayln (''=== Keepstone end-to-end demo ==='' @ newline)) (\<lambda>_.
    act_then (cargo_run h [''build'', ''-p'', ''keepstone-cli'']) (\<lambda>built.
    if \<not> built then act_res (Ok False) else
    act_then (fresh_dirs [''alice'', ''bob'', ''relay'']) (\<lambda>_.
    act_then (demo_create h) (demo_deliver h))))"

section \<open>Tasks\<close>

definition task_commands :: "string \<Rightarrow> string list list option" where
  "task_commands task =
    (let clippy = [''clippy'', ''--workspace'', ''--all-targets'', ''--'', ''-D'', ''warnings''];
         fmt_check = [''fmt'', ''--all'', ''--'', ''--check''];
         test = [''test'', ''--workspace''] in
     if task = ''fmt'' then Some [[''fmt'', ''--all'']]
     else if task = ''fmt-check'' then Some [fmt_check]
     else if task = ''clippy'' then Some [clippy]
     else if task = ''test'' then Some [test]
     else if task = ''deny'' then Some [[''deny'', ''check'']]
     else if task = ''ci'' then Some [fmt_check, clippy, test]
     else None)"

text \<open>The commands one after the other, until one fails; the exit code is whether all succeeded.\<close>

fun run_all :: "('f, 'l, 'r, 'c, 'n, 's) host \<Rightarrow> string list list \<Rightarrow> (bool, 's) script" where
  "run_all h [] = act_res (Ok True)"
| "run_all h (command # commands) =
    act_then (cargo_run h command) (\<lambda>ok. if ok then run_all h commands else act_res (Ok False))"

definition xtask_main :: "('f, 'l, 'r, 'c, 'n, 's) host \<Rightarrow> string option \<Rightarrow> (bool, 's) script" where
  "xtask_main h arg =
    (let task = unwrap_or ''help'' arg in
     if task = ''demo'' then demo h
     else (case task_commands task of
       Some commands \<Rightarrow> run_all h commands
     | None \<Rightarrow> act_then (sayln ''tasks: fmt | fmt-check | clippy | test | ci | demo | deny'') (\<lambda>_. act_res (Ok True))))"

section \<open>Reading the output of a command\<close>

lemma trim_start_space [simp]: "trim_start (CHR '' '' # s) = trim_start s"
  by (subst trim_start.simps) (simp add: ws_len_first ascii_ws_def)

lemma trim_start_letter: "33 \<le> (of_char c :: nat) \<Longrightarrow> (of_char c :: nat) < 0x80 \<Longrightarrow> trim_start (c # s) = c # s"
  by (subst trim_start.simps) (simp add: ws_len_ascii ascii_ws_def)

lemma trim_start_word: "\<not> contains_whitespace w \<Longrightarrow> trim_start w = w"
  by (cases w) (simp_all add: trim_start.simps)

lemma trim_end_word:
  assumes "\<not> contains_whitespace w" "w \<noteq> []" "\<forall>c \<in> set u. (of_char c :: nat) < 0x80"
  shows "trim_end (u @ w) = u @ w"
proof -
  have start: "trim_start (v @ w) \<noteq> []" if "\<forall>c \<in> set v. (of_char c :: nat) < 0x80" for v
    using that
  proof (induction v)
    case Nil
    then show ?case using assms(1,2) by (simp add: trim_start_word)
  next
    case (Cons c v)
    then show ?case by (subst trim_start.simps) (simp add: ws_len_ascii)
  qed
  have "trim_end v = v" if "\<not> contains_whitespace v" for v
    using that trim_start_word by (induction v) fastforce+
  with assms(1) have "trim_end w = w" by blast
  with assms(3) show ?thesis
  proof (induction u)
    case (Cons c u)
    then show ?case using start [of "c # u"] by simp
  qed simp
qed

text \<open>A line \<open>label value\<close>, possibly indented, and what \<open>field\<close> makes of it.\<close>

definition labelled :: "string \<Rightarrow> string \<Rightarrow> string \<Rightarrow> bool" where
  "labelled label value line \<longleftrightarrow> (\<exists>n m. line = replicate n (CHR '' '') @ label @ replicate m (CHR '' '') @ value)"

lemma trim_spaces: "trim_start (replicate k (CHR '' '') @ s) = trim_start s"
  by (induction k) simp_all

lemma labelled_trim:
  assumes "labelled label value line" "\<not> contains_whitespace value" "value \<noteq> []"
    and "label = c # rest" "\<forall>c \<in> set label. 33 \<le> (of_char c :: nat) \<and> (of_char c :: nat) < 0x80"
  shows "\<exists>m. trim line = label @ replicate m (CHR '' '') @ value"
proof -
  obtain n m where l: "line = replicate n (CHR '' '') @ label @ replicate m (CHR '' '') @ value"
    using assms(1) by (auto simp: labelled_def)
  have u: "\<forall>c \<in> set (label @ replicate m (CHR '' '')). (of_char c :: nat) < 0x80"
    using assms(5) by (auto simp: in_set_replicate)
  have "trim_start (label @ replicate m (CHR '' '') @ value) = label @ replicate m (CHR '' '') @ value"
    using assms(4,5) by (simp add: trim_start_letter)
  then show ?thesis using trim_end_word [OF assms(2,3) u] by (auto simp: trim_def l trim_spaces)
qed

lemma labelled_field:
  assumes "labelled label value line" "\<not> contains_whitespace value" "value \<noteq> []"
    and "label = c # rest" "\<forall>c \<in> set label. 33 \<le> (of_char c :: nat) \<and> (of_char c :: nat) < 0x80"
  shows "\<exists>v. strip_prefix (trim line) label = Some v \<and> trim v = value"
proof -
  have "trim (replicate m (CHR '' '') @ value) = value" for m
    using trim_end_word [OF assms(2,3), of "[]"] assms(2) by (simp add: trim_def trim_spaces trim_start_word)
  then show ?thesis using labelled_trim [OF assms] by auto
qed

lemma labelled_other:
  assumes "labelled label' value line" "\<not> contains_whitespace value" "value \<noteq> []"
    and "label' = c # rest" "\<forall>c \<in> set label'. 33 \<le> (of_char c :: nat) \<and> (of_char c :: nat) < 0x80"
    and "label = d # rest'" "d \<noteq> c"
  shows "strip_prefix (trim line) label = None"
  using labelled_trim [OF assms(1-5)] assms(4,6,7) by (auto simp: strip_prefix_def starts_with_def)

lemma field_first:
  assumes "lines output = ls @ line # rest" "\<forall>l \<in> set ls. strip_prefix (trim l) label = None"
    and "labelled label value line" "\<not> contains_whitespace value" "value \<noteq> []"
    and "label = c # cs" "\<forall>c \<in> set label. 33 \<le> (of_char c :: nat) \<and> (of_char c :: nat) < 0x80"
  shows "field output label = Some value"
proof -
  have "find_map f (ls @ xs) = find_map f xs" if "\<forall>l \<in> set ls. f l = None" for f :: "string \<Rightarrow> string option" and xs
    using that by (induction ls) auto
  with assms(1,2) labelled_field [OF assms(3-7)] show ?thesis by (auto simp: field_def)
qed

lemma contains_str_append [simp]: "contains_str (a @ t @ b) t"
proof (induction a)
  case Nil
  have "starts_with (t @ b) t" by (rule starts_with_append)
  then show ?case by (cases "t @ b") auto
qed simp

lemma lines_text:
  assumes "\<forall>l \<in> set ls. CHR 0x0A \<notin> set l \<and> CHR 0x0D \<notin> set l"
  shows "lines (concat (map (\<lambda>s. s @ newline) ls) @ rest) = ls @ lines rest"
  using assms by (induction ls) (simp_all add: newline_def lines_Cons)

section \<open>The commands of the demo\<close>

text \<open>A directory as \<open>keygen\<close> leaves an empty one: the three key files and nothing else.\<close>

definition new_identity :: "rng \<Rightarrow> Identity" where
  "new_identity r = fst (Identity_generate r)"

definition new_hybrid :: "crypto \<Rightarrow> rng \<Rightarrow> HybridKeypair" where
  "new_hybrid C r = fst (HybridKeypair_generate C (snd (Identity_generate r)))"

definition keyed :: "crypto \<Rightarrow> hex_codec \<Rightarrow> rng \<Rightarrow> Disk \<Rightarrow> bool" where
  "keyed C H r d \<longleftrightarrow> layout_ok d \<and> device C H (new_identity r) (Some (new_hybrid C r)) d \<and> mldsa_usable C H d
    \<and> (\<forall>q. q \<notin> {identity_path, hybrid_path, mldsa_path} \<longrightarrow> disk_read d q = None) \<and> dk_dirs d = []"

lemma hybrid_bytes_read:
  assumes "Store_hybrid C H (w_disk w) = Ok k"
  shows "hybrid_public_bytes C H w = Some (Ok (public_bytes C k), w)"
proof -
  have "disk_exists (w_disk w) hybrid_path"
    using assms by (auto simp: Store_hybrid_def disk_read_to_string_def disk_exists_def split: option.splits)
  then show ?thesis
    using assms by (simp add: hybrid_public_bytes_def hybrid_or_create_def act_defs public_bytes_def Let_def)
qed

lemma keygen_works:
  assumes "hex_laws H" "mlkem_laws C" "mldsa_laws C" "w_disk (co_world c) = \<lparr>dk_files = [], dk_dirs = []\<rparr>"
  shows "\<exists>c'. cmd_keygen C H c = Some (Ok (), c') \<and> co_net c' = co_net c
    \<and> keyed C H (w_rng (co_world c)) (w_disk (co_world c'))"
proof -
  let ?w = "co_world c"
  have empty: "layout_ok (w_disk ?w)" "\<not> has_identity (w_disk ?w)"
    by (simp_all add: assms(4) layout_ok_def disk_read_def has_identity_def disk_exists_def path_defs)
  from keygen_persists [OF assms(1-3) empty refl refl] obtain m w where
    w: "keygen C H ?w = Some (Ok (new_identity (w_rng ?w)), w)" "layout_ok (w_disk w)"
      "Store_identity H (w_disk w) = Ok (new_identity (w_rng ?w))" "Store_hybrid C H (w_disk w) = Ok (new_hybrid C (w_rng ?w))"
      "Store_mldsa C H (w_disk w) = Ok m"
      "\<forall>q. q \<notin> {identity_path, hybrid_path, mldsa_path} \<longrightarrow> disk_read (w_disk w) q = disk_read (w_disk ?w) q"
      "dk_dirs (w_disk w) = dk_dirs (w_disk ?w)"
    unfolding new_identity_def new_hybrid_def by blast
  have "keyed C H (w_rng ?w) (w_disk w)"
    using w(2-7) assms(4) by (simp add: keyed_def device_def mldsa_usable_def disk_read_def)
  moreover have "\<exists>out. cmd_keygen C H c = Some (Ok (), c\<lparr>co_world := w, co_out := out\<rparr>)"
    using w(1) hybrid_bytes_read [OF w(4)]
    by (auto simp: cmd_keygen_def act_then_def on_store_def print_lines_step println_def print_bytes_def)
  ultimately show ?thesis by auto
qed

lemma print_id_works:
  assumes "Store_identity H (w_disk (co_world c)) = Ok i" "Store_hybrid C H (w_disk (co_world c)) = Ok k"
  shows "print_id C H c = Some (Ok (), c\<lparr>co_out := co_out c @ str_bytes (concat (map (\<lambda>s. s @ newline)
    [''signing: '' @ hex_encode H (signing_public C i), ''ecdh:    '' @ hex_encode H (ecdh_public C i),
     ''hybrid:  '' @ hex_encode H (public_bytes C k)]))\<rparr>)"
  using assms hybrid_bytes_read [OF assms(2)]
  by (simp add: print_id_def act_then_def on_store_def act_read_def print_lines_step println_def print_bytes_def str_bytes_def)

lemma contact_add_works:
  assumes "hex_laws H" "layout_ok (w_disk (co_world c))" "contacts_hold H [] (w_disk (co_world c))" "contact_wf x"
    and "ct_hybrid x = Some bs"
  shows "\<exists>d out. contact_add H (ct_name x) (hex_encode H (ct_signing x)) (hex_encode H (ct_ecdh x)) (Some (hex_encode H bs)) c
      = Some (Ok (), c\<lparr>co_world := (co_world c)\<lparr>w_disk := d\<rparr>, co_out := out\<rparr>)
    \<and> layout_ok d \<and> Store_contacts H d = Ok [x] \<and> (\<forall>q. q \<noteq> contacts_path \<longrightarrow> disk_read d q = disk_read (w_disk (co_world c)) q)
    \<and> dk_dirs d = dk_dirs (w_disk (co_world c))"
proof -
  from contacts_exact [OF assms(1-4) refl refl] obtain d where
    d: "add_contact H (ct_name x) (hex_encode H (ct_signing x)) (hex_encode H (ct_ecdh x)) (Some (hex_encode H bs)) (w_disk (co_world c)) = Ok d"
      "layout_ok d" "Store_contacts H d = Ok [x]" using assms(5) by auto
  then obtain content where "disk_write contacts_path content (w_disk (co_world c)) = Ok d"
    by (auto simp: add_contact_def Let_def split: if_splits)
  with disk_read_write disk_write_dirs d show ?thesis
    by (fastforce simp: contact_add_def act_then_def on_store_def act_disk_def println_def print_bytes_def)
qed


text \<open>The text of some lines, and what there is to read after a process printed just them.\<close>

abbreviation text_of :: "string list \<Rightarrow> string" where
  "text_of ls \<equiv> concat (map (\<lambda>s. s @ newline) ls)"

lemma str_ok_steps: "str_ok []" "(of_char c :: nat) < 0x80 \<Longrightarrow> str_ok s \<Longrightarrow> str_ok (c # s)"
  using str_ok_append [of "[c]" s] str_ok_ascii [of "[c]"] by (auto intro: str_ok_ascii)

lemma read_text_of: "list_all str_ok ls \<Longrightarrow> from_utf8_lossy (str_bytes (text_of ls)) = text_of ls"
  by (rule from_utf8_lossy_str_bytes, induction ls) (simp_all add: str_ok_append str_ok_steps)

lemma field_text:
  assumes "\<forall>l \<in> set (ls @ [line]). CHR 0x0A \<notin> set l \<and> CHR 0x0D \<notin> set l" "\<forall>l \<in> set ls. strip_prefix (trim l) label = None"
    and "labelled label value line" "\<not> contains_whitespace value" "value \<noteq> []"
    and "label = c # cs" "\<forall>c \<in> set label. 33 \<le> (of_char c :: nat) \<and> (of_char c :: nat) < 0x80"
  shows "field (text_of (ls @ line # rest)) label = Some value"
  using field_first [OF _ assms(2-7), of "text_of (ls @ line # rest)" "lines (text_of rest)"]
    lines_text [OF assms(1), of "text_of rest"] by simp

text \<open>Words that \<open>clap\<close> does not take for an option.\<close>

definition plain :: "string \<Rightarrow> bool" where
  "plain w \<longleftrightarrow> w \<noteq> [] \<and> hd w \<noteq> CHR ''-''"

lemma plain_hex:
  assumes "hex_laws H" "bs \<noteq> []"
  shows "plain (hex_encode H bs)"
proof -
  have "length (hex_encode H bs) = 2 * length bs" using assms(1) by (simp add: hex_laws_def)
  with assms(2) have "hex_encode H bs \<noteq> []" by auto
  then show ?thesis using hex_ascii [OF assms(1) hd_in_set] by (fastforce simp: plain_def)
qed

lemma str_ok_decimal: "str_ok (decimal n)"
  using decimal_chars by (intro str_ok_ascii) fastforce

lemma drop_create_cell:
  "h3_laws A \<Longrightarrow> returns (\<lambda>created. str_ok (cd_cell created)) (create_drop C H A shuffle to lat lng res ring ttl suite plaintext)"
  unfolding create_drop_def publish_drop_def Let_def case_prod_beta
  by (intro returns_then returns_if returns_res) (auto simp: CellId_text)

lemma drop_create_output:
  assumes "hex_laws H" "h3_laws A" "co_out c = []" "length (as_bytes (cd_id created)) = 32"
    and "create_drop C H A shuffle to lat lng res ring ttl suite (str_bytes message) (co_world c) = Some (Ok created, w)"
  shows "\<exists>out. cmd_drop_create C H A shuffle to lat lng res ring (Some message) None ttl suite c = Some (Ok (), c\<lparr>co_world := w, co_out := out\<rparr>)
    \<and> field (from_utf8_lossy out) ''id:'' = Some (id_hex H (cd_id created))"
proof -
  let ?head = "[''drop created'', ''  id:      '' @ id_hex H (cd_id created)]"
  let ?tail = "[''  cell:    '' @ cd_cell created, ''  chunks:  '' @ decimal (unat (cd_chunks created)), ''  bytes:   '' @ decimal (cd_bytes created)]"
  let ?out = "text_of (?head @ ?tail)"
  have run: "cmd_drop_create C H A shuffle to lat lng res ring (Some message) None ttl suite c
      = Some (Ok (), c\<lparr>co_world := w, co_out := str_bytes ?out\<rparr>)"
    using assms(3,5) by (simp add: cmd_drop_create_def drop_create_def act_defs on_store_def print_lines_step)
  have id: "id_hex H (cd_id created) = hex_encode H (as_bytes (cd_id created))" by (cases "cd_id created") (simp add: DropId_to_hex_def)
  have "str_ok (cd_cell created)" using returnsD [OF drop_create_cell [OF assms(2)] assms(5)] .
  then have out: "from_utf8_lossy (str_bytes ?out) = ?out"
    using str_ok_hex [OF assms(1)] by (intro read_text_of) (simp add: str_ok_steps str_ok_decimal id)
  have ne: "as_bytes (cd_id created) \<noteq> []" using assms(4) by auto
  have none: "strip_prefix (trim ''drop created'') ''id:'' = None" by code_simp
  have "labelled ''id:'' (id_hex H (cd_id created)) (''  id:      '' @ id_hex H (cd_id created))"
    unfolding labelled_def by (intro exI [of _ 2] exI [of _ 6]) (simp add: numeral_eq_Suc)
  then have "field (text_of ([''drop created''] @ (''  id:      '' @ id_hex H (cd_id created)) # ?tail)) ''id:'' = Some (id_hex H (cd_id created))"
    using none hex_no_newline [OF assms(1)] hex_no_whitespace [OF assms(1)] plain_hex [OF assms(1) ne]
    by (intro field_text) (auto simp: id plain_def)
  then show ?thesis using run out by auto
qed

section \<open>Scripts that end well\<close>

text \<open>Total correctness of a script: from a state with \<open>P\<close> it returns, with a result and a state in \<open>Q\<close>.\<close>

definition ensures :: "('s Stage \<Rightarrow> bool) \<Rightarrow> ('a, 's) script \<Rightarrow> ('a \<Rightarrow> 's Stage \<Rightarrow> bool) \<Rightarrow> bool" where
  "ensures P m Q \<longleftrightarrow> (\<forall>st. P st \<longrightarrow> (\<exists>x st'. m st = Some (Ok x, st') \<and> Q x st'))"

lemma ensures_then: "ensures P m Q \<Longrightarrow> (\<And>x. ensures (Q x) (f x) R) \<Longrightarrow> ensures P (act_then m f) R"
  unfolding ensures_def by (metis act_then_step)

lemma ensures_res: "(\<And>st. P st \<Longrightarrow> Q x st) \<Longrightarrow> ensures P (act_res (Ok x)) Q"
  by (simp add: ensures_def act_res_def)

text \<open>
  How many processes have run, what is known of each directory and of the network. What the
  script has printed does not matter.
\<close>

definition scene :: "nat \<Rightarrow> (string \<Rightarrow> Disk \<Rightarrow> bool) \<Rightarrow> ('s \<Rightarrow> bool) \<Rightarrow> 's Stage \<Rightarrow> bool" where
  "scene n F N st \<longleftrightarrow> st_runs st = n \<and> (\<forall>dir. F dir (st_dirs st dir)) \<and> N (st_net st)"

lemma scene_mono: "scene n F N st \<Longrightarrow> (\<And>dir d. F dir d \<Longrightarrow> F' dir d) \<Longrightarrow> scene n F' N st"
  by (simp add: scene_def)

lemma ensures_say: "ensures (scene n F N) (say s) (\<lambda>_. scene n F N)"
  by (simp add: ensures_def say_def scene_def)

lemma ensures_sayln: "ensures (scene n F N) (sayln s) (\<lambda>_. scene n F N)"
  unfolding sayln_def by (rule ensures_say)

lemma ensures_say_lines: "ensures (scene n F N) (say_lines ls) (\<lambda>_. scene n F N)"
  by (induction ls) (auto intro: ensures_res ensures_then ensures_sayln)

lemma ensures_end: "ensures (scene n F N) (kill_server h l) (\<lambda>_. scene n F (\<lambda>_. True))"
  "ensures P (remove_dirs names) (\<lambda>_ _. True)"
  by (simp_all add: ensures_def kill_server_def remove_dirs_def scene_def)

lemma ensures_client_some:
  assumes "ho_clap h args = Some cmd"
    and "\<And>c. F dir (console_disk c) \<Longrightarrow> N (co_net c) \<Longrightarrow> co_out c = [] \<Longrightarrow> w_rng (co_world c) = ho_rng h n \<Longrightarrow>
      \<exists>r c' x y. cli_main (ho_env h) cmd c = Some (r, c') \<and> D x y (console_disk c') \<and> N' x y (co_net c') \<and> G x y (from_utf8_lossy (co_out c'))"
  shows "ensures (scene n F N) (client h dir args) (\<lambda>out st. \<exists>x y. G x y out \<and> scene (Suc n) (F(dir := D x y)) (N' x y) st)"
  unfolding ensures_def
proof (intro allI impI)
  fix st assume st: "scene n F N st"
  then obtain r c' x y where "cli_main (ho_env h) cmd (console_of h dir st) = Some (r, c')"
    "D x y (console_disk c')" "N' x y (co_net c')" "G x y (from_utf8_lossy (co_out c'))"
    using assms(2) [of "console_of h dir st"] by (auto simp: scene_def console_of_def)
  then show "\<exists>out st'. client h dir args st = Some (Ok out, st') \<and> (\<exists>x y. G x y out \<and> scene (Suc n) (F(dir := D x y)) (N' x y) st')"
    using assms(1) st by (auto simp: client_def scene_def after_def)
qed

lemma ensures_client:
  assumes "ho_clap h args = Some cmd"
    and "\<And>c. F dir (console_disk c) \<Longrightarrow> N (co_net c) \<Longrightarrow> co_out c = [] \<Longrightarrow> w_rng (co_world c) = ho_rng h n \<Longrightarrow>
      \<exists>r c'. cli_main (ho_env h) cmd c = Some (r, c') \<and> D (console_disk c') \<and> N' (co_net c') \<and> G (from_utf8_lossy (co_out c'))"
  shows "ensures (scene n F N) (client h dir args) (\<lambda>out st. G out \<and> scene (Suc n) (F(dir := D)) N' st)"
  using ensures_client_some [of h args cmd F dir N n "\<lambda>(_ :: unit) (_ :: unit). D" "\<lambda>_ _. N'" "\<lambda>_ _. G"] assms by simp

lemma ensures_obtain: "(\<And>x y. Q x y \<Longrightarrow> ensures (P x y) m R) \<Longrightarrow> ensures (\<lambda>st. \<exists>x y. Q x y \<and> P x y st) m R"
  by (auto simp: ensures_def)

lemma ensures_given: "(Q \<Longrightarrow> ensures P m R) \<Longrightarrow> ensures (\<lambda>st. Q \<and> P st) m R"
  by (auto simp: ensures_def)

lemma ensures_expect: "x = Some v \<Longrightarrow> ensures (scene n F N) (expect x) (\<lambda>y st. y = v \<and> scene n F N st)"
  by (simp add: ensures_def expect_def act_res_def)

section \<open>The steps of the demo\<close>

text \<open>What the demo relies on of \<open>clap\<close>, given the numbers it reads for the two coordinates.\<close>

definition clap_laws :: "'f \<Rightarrow> 'f \<Rightarrow> (string list \<Rightarrow> 'f Command option) \<Rightarrow> bool" where
  "clap_laws lat lng clap \<longleftrightarrow> clap [''keygen''] = Some Keygen \<and> clap [''id''] = Some PrintId
    \<and> (\<forall>s e k. plain s \<and> plain e \<and> plain k \<longrightarrow> clap [''contact-add'', ''bob'', s, e, k] = Some (ContactAdd ''bob'' s e (Some k)))
    \<and> clap [''drop-create'', ''--to'', ''bob'', ''--suite'', ''hybrid'', ''--lat'', ''51.5007'', ''--lng'', ''-0.1246'', ''--message'', NOTE]
        = Some (DropCreate [''bob''] lat lng 9 2 (Some NOTE) None 0 ''hybrid'')
    \<and> clap [''serve'', ''--listen'', RELAY] = Some (Serve RELAY)
    \<and> (\<forall>i. plain i \<longrightarrow> clap [''push'', RELAY, i] = Some (Push RELAY i) \<and> clap [''fetch'', RELAY, i] = Some (Fetch RELAY i)
        \<and> clap [''drop-open'', i] = Some (DropOpen i None) \<and> clap [''log-verify'', i] = Some (LogVerify i))"

lemma keygen_step:
  assumes "clap_laws lat lng (ho_clap h)" "C = en_crypto (ho_env h)" "H = en_hex (ho_env h)"
    and "hex_laws H" "mlkem_laws C" "mldsa_laws C" "\<And>d. F dir d \<Longrightarrow> d = \<lparr>dk_files = [], dk_dirs = []\<rparr>"
  shows "ensures (scene n F N) (client h dir [''keygen'']) (\<lambda>out st. True \<and> scene (Suc n) (F(dir := keyed C H (ho_rng h n))) N st)"
proof (rule ensures_client)
  show "ho_clap h [''keygen''] = Some Keygen" using assms(1) by (simp add: clap_laws_def)
  fix c assume c: "F dir (console_disk c)" "N (co_net c)" "co_out c = []" "w_rng (co_world c) = ho_rng h n"
  show "\<exists>r c'. cli_main (ho_env h) Keygen c = Some (r, c') \<and> keyed C H (ho_rng h n) (console_disk c') \<and> N (co_net c') \<and> True"
    using keygen_works [OF assms(4-6) assms(7) [OF c(1)]] c(2,4) assms(2,3) by auto
qed

lemma id_output:
  assumes "hex_laws H" "length a = 32" "length b = 32" "k \<noteq> []"
    and "out = text_of [''signing: '' @ hex_encode H a, ''ecdh:    '' @ hex_encode H b, ''hybrid:  '' @ hex_encode H k]"
  shows "field out ''signing:'' = Some (hex_encode H a)" "field out ''ecdh:'' = Some (hex_encode H b)"
    "field out ''hybrid:'' = Some (hex_encode H k)" "from_utf8_lossy (str_bytes out) = out"
proof -
  have ne: "a \<noteq> []" "b \<noteq> []" using assms(2,3) by auto
  note w = plain_hex [OF assms(1), unfolded plain_def, THEN conjunct1] hex_no_whitespace [OF assms(1)] hex_no_newline [OF assms(1)]
  have l: "labelled ''signing:'' v (''signing: '' @ v)" "labelled ''ecdh:'' v (''ecdh:    '' @ v)" "labelled ''hybrid:'' v (''hybrid:  '' @ v)" for v
    unfolding labelled_def by (intro exI [of _ 0] exI [of _ 1] exI [of _ 4] exI [of _ 2]; simp add: numeral_eq_Suc)+
  have o: "strip_prefix (trim (''signing: '' @ hex_encode H a)) (d # rest) = None" if "d \<noteq> CHR ''s''" for d rest
    by (rule labelled_other [OF l(1)]) (use w ne that in auto)
  have o': "strip_prefix (trim (''ecdh:    '' @ hex_encode H b)) (d # rest) = None" if "d \<noteq> CHR ''e''" for d rest
    by (rule labelled_other [OF l(2)]) (use w ne that in auto)
  have f: "field (text_of (ls @ line # rest)) label = Some (hex_encode H bs)"
    if "bs \<noteq> []" "labelled label (hex_encode H bs) line" "\<forall>l \<in> set (ls @ [line]). CHR 0x0A \<notin> set l \<and> CHR 0x0D \<notin> set l"
      "\<forall>l \<in> set ls. strip_prefix (trim l) label = None" "label \<noteq> []"
      "\<forall>c \<in> set label. 33 \<le> (of_char c :: nat) \<and> (of_char c :: nat) < 0x80" for ls line rest label bs
    using field_text [OF that(3,4,2) w(2), of "hd label" "tl label"] w(1) that by simp
  show "field out ''signing:'' = Some (hex_encode H a)"
    using f [OF ne(1) l(1), of "[]" "[''ecdh:    '' @ hex_encode H b, ''hybrid:  '' @ hex_encode H k]"] w by (simp add: assms(5))
  show "field out ''ecdh:'' = Some (hex_encode H b)"
    using f [OF ne(2) l(2), of "[''signing: '' @ hex_encode H a]" "[''hybrid:  '' @ hex_encode H k]"] w o by (simp add: assms(5))
  show "field out ''hybrid:'' = Some (hex_encode H k)"
    using f [OF assms(4) l(3), of "[''signing: '' @ hex_encode H a, ''ecdh:    '' @ hex_encode H b]" "[]"] w o o' by (simp add: assms(5))
  show "from_utf8_lossy (str_bytes out) = out"
    unfolding assms(5) by (rule read_text_of) (simp add: str_ok_steps str_ok_hex [OF assms(1)])
qed

lemma new_keys:
  assumes "x25519_laws C" "ed25519_laws C" "mlkem_laws C"
  shows "length (signing_public C (new_identity r)) = 32" "length (ecdh_public C (new_identity r)) = 32"
    "hybrid_wf C k \<Longrightarrow> length (public_bytes C k) = 1216 \<and> mlkem_key_ok C (drop 32 (public_bytes C k))"
  using assms identity_wf_generate [of r]
  by (auto simp: new_identity_def identity_wf_def signing_public_def ecdh_public_def ed25519_laws_def x25519_laws_def mlkem_laws_def
      public_bytes_def HybridKeypair_public_def hybrid_wf_def)

text \<open>The contact entry for a device with fresh keys.\<close>

definition card :: "crypto \<Rightarrow> string \<Rightarrow> rng \<Rightarrow> Contact" where
  "card C name r = \<lparr>ct_name = name, ct_signing = signing_public C (new_identity r), ct_ecdh = ecdh_public C (new_identity r),
     ct_hybrid = Some (public_bytes C (new_hybrid C r))\<rparr>"

lemma keyed_parts:
  assumes "keyed C H r d"
  shows "layout_ok d" "Store_identity H d = Ok (new_identity r)" "Store_hybrid C H d = Ok (new_hybrid C r)" "mldsa_usable C H d"
    "hybrid_wf C (new_hybrid C r)" "device C H (new_identity r) (Some (new_hybrid C r)) d" "log_holds [] d" "contacts_hold H [] d"
    "disk_read d log_key_path = None" "dk_dirs d = []"
  using assms Store_hybrid_wf
  by (auto simp: keyed_def device_def log_holds_def contacts_hold_def disk_read_to_string_def log_bytes_def path_defs log_key_path_def contacts_text_def)

lemma id_step:
  assumes "clap_laws lat lng (ho_clap h)" "C = en_crypto (ho_env h)" "H = en_hex (ho_env h)"
    and "hex_laws H" "x25519_laws C" "ed25519_laws C" "mlkem_laws C" "\<And>d. F dir d \<Longrightarrow> keyed C H r d"
  shows "ensures (scene n F N) (client h dir [''id'']) (\<lambda>out st.
    (field out ''signing:'' = Some (hex_encode H (ct_signing (card C name r))) \<and> field out ''ecdh:'' = Some (hex_encode H (ct_ecdh (card C name r)))
      \<and> field out ''hybrid:'' = Some (hex_encode H (the (ct_hybrid (card C name r))))) \<and> scene (Suc n) (F(dir := F dir)) N st)"
proof (rule ensures_client)
  show "ho_clap h [''id''] = Some PrintId" using assms(1) by (simp add: clap_laws_def)
  fix c assume c: "F dir (console_disk c)" "N (co_net c)" "co_out c = []" "w_rng (co_world c) = ho_rng h n"
  note k = keyed_parts [OF assms(8) [OF c(1)]]
  have ne: "public_bytes C (new_hybrid C r) \<noteq> []" using new_keys(3) [OF assms(5-7) k(5)] by auto
  note o = id_output [OF assms(4) new_keys(1,2) [OF assms(5-7)] ne refl, of r r]
  show "\<exists>r' c'. cli_main (ho_env h) PrintId c = Some (r', c') \<and> F dir (console_disk c') \<and> N (co_net c')
    \<and> field (from_utf8_lossy (co_out c')) ''signing:'' = Some (hex_encode H (ct_signing (card C name r)))
    \<and> field (from_utf8_lossy (co_out c')) ''ecdh:'' = Some (hex_encode H (ct_ecdh (card C name r)))
    \<and> field (from_utf8_lossy (co_out c')) ''hybrid:'' = Some (hex_encode H (the (ct_hybrid (card C name r))))"
    using print_id_works [OF k(2,3)] c o unfolding assms(2,3) cli_main.simps card_def
    by (simp del: concat.simps list.map)
qed

text \<open>A directory from which a drop can be addressed to the device whose card it holds.\<close>

definition ready :: "crypto \<Rightarrow> hex_codec \<Rightarrow> rng \<Rightarrow> Contact \<Rightarrow> Disk \<Rightarrow> bool" where
  "ready C H r contact d \<longleftrightarrow> layout_ok d \<and> log_holds [] d \<and> Store_identity H d = Ok (new_identity r)
    \<and> mldsa_usable C H d \<and> Store_contacts H d = Ok [contact]"

lemma contact_step:
  assumes "clap_laws lat lng (ho_clap h)" "C = en_crypto (ho_env h)" "H = en_hex (ho_env h)"
    and "hex_laws H" "x25519_laws C" "ed25519_laws C" "mlkem_laws C" "\<And>d. F dir d \<Longrightarrow> keyed C H r d"
    and "hybrid_wf C (new_hybrid C r')" "x = card C ''bob'' r'"
  shows "ensures (scene n F N) (client h dir [''contact-add'', ''bob'', hex_encode H (ct_signing x), hex_encode H (ct_ecdh x), hex_encode H (the (ct_hybrid x))])
    (\<lambda>out st. True \<and> scene (Suc n) (F(dir := ready C H r x)) N st)"
proof (rule ensures_client)
  note len = new_keys(1,2) [OF assms(5-7), of r'] new_keys(3) [OF assms(5-7,9)]
  have ne: "ct_signing x \<noteq> []" "ct_ecdh x \<noteq> []" "the (ct_hybrid x) \<noteq> []" using len by (auto simp: assms(10) card_def)
  have wf: "contact_wf x" "ct_hybrid x = Some (the (ct_hybrid x))" "ct_name x = ''bob''"
    using len by (auto simp: contact_wf_def assms(10) card_def str_ok_steps ascii_ws_def two_ws_def three_ws_def)
  show "ho_clap h [''contact-add'', ''bob'', hex_encode H (ct_signing x), hex_encode H (ct_ecdh x), hex_encode H (the (ct_hybrid x))]
      = Some (ContactAdd ''bob'' (hex_encode H (ct_signing x)) (hex_encode H (ct_ecdh x)) (Some (hex_encode H (the (ct_hybrid x)))))"
    using assms(1) plain_hex [OF assms(4)] ne by (simp add: clap_laws_def)
  fix c assume c: "F dir (console_disk c)" "N (co_net c)" "co_out c = []" "w_rng (co_world c) = ho_rng h n"
  note k = keyed_parts [OF assms(8) [OF c(1)]]
  obtain d out where d: "contact_add H (ct_name x) (hex_encode H (ct_signing x)) (hex_encode H (ct_ecdh x)) (Some (hex_encode H (the (ct_hybrid x)))) c
      = Some (Ok (), c\<lparr>co_world := (co_world c)\<lparr>w_disk := d\<rparr>, co_out := out\<rparr>)" "layout_ok d" "Store_contacts H d = Ok [x]"
    "\<forall>q. q \<noteq> contacts_path \<longrightarrow> disk_read d q = disk_read (console_disk c) q" "dk_dirs d = dk_dirs (console_disk c)"
    using contact_add_works [OF assms(4) k(1,8) wf(1,2)] by blast
  have "ready C H r x d"
    using d(2-5) k(2,4,7) key_files_same(1) [of d "console_disk c"]
    by (simp add: ready_def log_holds_def path_defs mldsa_usable_def disk_exists_def Store_mldsa_def disk_read_to_string_def)
  then show "\<exists>r' c'. cli_main (ho_env h) (ContactAdd ''bob'' (hex_encode H (ct_signing x)) (hex_encode H (ct_ecdh x))
      (Some (hex_encode H (the (ct_hybrid x))))) c = Some (r', c') \<and> ready C H r x (console_disk c') \<and> N (co_net c') \<and> True"
    using d(1) wf(3) c(2) assms(3) by simp
qed

text \<open>A drop that can be pushed and that a device with these keys opens to this content.\<close>

definition deliverable :: "crypto \<Rightarrow> hex_codec \<Rightarrow> rng \<Rightarrow> bytes \<Rightarrow> bytes \<Rightarrow> bytes list \<Rightarrow> bool" where
  "deliverable C H r plaintext raw cs \<longleftrightarrow> good_drop C raw cs \<and> (\<forall>d. device C H (new_identity r) (Some (new_hybrid C r)) d
    \<and> holds_drop H d (DropId_of C raw) raw cs \<longrightarrow> open_drop C H d (DropId_of C raw) = Ok plaintext)"

lemma create_delivers:
  assumes "hkdf_laws C" "aead_laws C" "x25519_laws C" "sha256_laws C" "ed25519_laws C" "h3_laws A"
    and "\<And>xs r. mset (fst (shuffle xs r)) = mset xs" and "mlkem_laws C" "mldsa_laws C" "mldsa_total C"
    and "ready C H r (card C ''bob'' r') (w_disk w)" "hybrid_wf C (new_hybrid C r')"
    and "\<forall>tag. derive_tag C (ecdh_public C (new_identity r')) (nonce_drawn (w_rng w)) = Ok tag \<longrightarrow> tag_unused 1948 tag (w_rng w)"
    and "CellId_from_lat_lng A lat lng res = Ok cell" and "\<And>root nonce. \<exists>n. pow_is_valid C (signing_public C (new_identity r)) root nonce n"
    and "length plaintext \<le> 1000"
  shows "\<exists>created w' raw cs. create_drop C H A shuffle [''bob''] lat lng res ring ttl ''hybrid'' plaintext w = Some (Ok created, w')
    \<and> cd_id created = DropId_of C raw \<and> deliverable C H r' plaintext raw cs \<and> holds_drop H (w_disk w') (DropId_of C raw) raw cs"
proof -
  let ?hk = "Some (new_hybrid C r')" and ?rs = "[(ecdh_public C (new_identity r'), Some (public_bytes C (new_hybrid C r')))]"
  have d: "layout_ok (w_disk w)" "log_holds [] (w_disk w)" "Store_identity H (w_disk w) = Ok (new_identity r)"
    "Store_contacts H (w_disk w) = Ok [card C ''bob'' r']" "[''bob''] \<noteq> []" "recipients_for (?hk \<noteq> None) [card C ''bob'' r'] [''bob''] = Ok ?rs"
    and usable: "?hk = None \<or> mldsa_usable C H (w_disk w)"
    using assms(11) by (simp_all add: ready_def card_def)
  have to: "addressed_to C (new_identity r') ?hk ?rs (w_rng w)" "suite_laws C (new_identity r') ?hk"
    using assms(8-10,13) new_keys(3) [OF assms(3,5,8,12)] by (auto simp: addressed_to_def sealable_def suite_laws_def)
  have suite: "eq_ignore_ascii_case ''hybrid'' (if ?hk = None then ''classical'' else ''hybrid'')"
    by (simp add: eq_ignore_ascii_case_def)
  have size: "length plaintext \<le> u32_max * DEFAULT_CHUNK_SIZE" using assms(16) by (simp add: u32_max_def DEFAULT_CHUNK_SIZE_def)
  from create_for [where shuffle = shuffle and ring = ring and ttl = ttl, OF assms(1-7) d to usable suite assms(14,15) size]
  obtain created w' sd body chunks where
    "create_drop C H A shuffle [''bob''] lat lng res ring ttl ''hybrid'' plaintext w = Some (Ok created, w')"
    "SignedDrop_decode (sd_raw sd) = Ok sd" "SignedDrop_body sd = Ok body" "SignedDrop_verify C sd = Ok ()"
    "DropBody_pow_ok C body (sd_signer sd)" "cd_id created = SignedDrop_id C sd"
    "holds_drop H (w_disk w') (cd_id created) (sd_raw sd) chunks" "length chunks = unat (db_chunk_count body)"
    "\<forall>d. device C H (new_identity r') ?hk d \<and> holds_drop H d (cd_id created) (sd_raw sd) chunks \<longrightarrow> open_drop C H d (cd_id created) = Ok plaintext"
    "length (sd_raw sd) \<le> 26000 + slot_size (?hk \<noteq> None) * length ?rs" "\<forall>b \<in> set chunks. length b \<le> DEFAULT_CHUNK_SIZE + 16" by auto
  moreover from this have "good_drop C (sd_raw sd) chunks" by (auto simp: good_drop_def slot_size_def DEFAULT_CHUNK_SIZE_def)
  ultimately show ?thesis by (auto simp: deliverable_def SignedDrop_id_def)
qed

lemma drop_step:
  assumes "clap_laws lat lng (ho_clap h)" "C = en_crypto (ho_env h)" "H = en_hex (ho_env h)" "A = en_h3 (ho_env h)"
    and "hkdf_laws C" "aead_laws C" "x25519_laws C" "sha256_laws C" "ed25519_laws C" "h3_laws A"
    and "\<forall>xs r. mset (fst (en_shuffle (ho_env h) xs r)) = mset xs" and "mlkem_laws C" "mldsa_laws C" "mldsa_total C" "hex_laws H"
    and "\<And>d. F dir d \<Longrightarrow> ready C H r (card C ''bob'' r') d" "hybrid_wf C (new_hybrid C r')"
    and "\<forall>tag. derive_tag C (ecdh_public C (new_identity r')) (nonce_drawn (ho_rng h n)) = Ok tag \<longrightarrow> tag_unused 1948 tag (ho_rng h n)"
    and "CellId_from_lat_lng A lat lng 9 = Ok cell" and "\<forall>root nonce. \<exists>n. pow_is_valid C (signing_public C (new_identity r)) root nonce n"
  shows "ensures (scene n F N) (client h dir [''drop-create'', ''--to'', ''bob'', ''--suite'', ''hybrid'', ''--lat'', ''51.5007'',
      ''--lng'', ''-0.1246'', ''--message'', NOTE])
    (\<lambda>out st. \<exists>raw cs. (field out ''id:'' = Some (id_hex H (DropId_of C raw)) \<and> deliverable C H r' (str_bytes NOTE) raw cs)
      \<and> scene (Suc n) (F(dir := \<lambda>d. holds_drop H d (DropId_of C raw) raw cs)) N st)"
proof (rule ensures_client_some)
  show "ho_clap h [''drop-create'', ''--to'', ''bob'', ''--suite'', ''hybrid'', ''--lat'', ''51.5007'', ''--lng'', ''-0.1246'', ''--message'', NOTE]
      = Some (DropCreate [''bob''] lat lng 9 2 (Some NOTE) None 0 ''hybrid'')" using assms(1) by (simp add: clap_laws_def)
  fix c assume c: "F dir (console_disk c)" "N (co_net c)" "co_out c = []" "w_rng (co_world c) = ho_rng h n"
  have note': "length (str_bytes NOTE) \<le> 1000" by (simp add: NOTE_def str_bytes_def)
  from create_delivers [where shuffle = "en_shuffle (ho_env h)" and ring = 2 and ttl = 0,
      OF assms(5-10) assms(11) [rule_format] assms(12-14) assms(16) [OF c(1)] assms(17) assms(18) [folded c(4)] assms(19) assms(20) [rule_format] note']
  obtain created w raw cs where w: "create_drop C H A (en_shuffle (ho_env h)) [''bob''] lat lng 9 2 0 ''hybrid'' (str_bytes NOTE) (co_world c) = Some (Ok created, w)"
    "cd_id created = DropId_of C raw" "deliverable C H r' (str_bytes NOTE) raw cs" "holds_drop H (w_disk w) (DropId_of C raw) raw cs" by blast
  have len: "length (as_bytes (cd_id created)) = 32" using w(2) assms(8) length_DropId_of by metis
  obtain out where "cmd_drop_create C H A (en_shuffle (ho_env h)) [''bob''] lat lng 9 2 (Some NOTE) None 0 ''hybrid'' c = Some (Ok (), c\<lparr>co_world := w, co_out := out\<rparr>)"
    "field (from_utf8_lossy out) ''id:'' = Some (id_hex H (DropId_of C raw))"
    using drop_create_output [OF assms(15,10) c(3) len w(1)] w(2) by auto
  with w(3,4) c(2) assms(2-4)
  show "\<exists>r c' raw cs. cli_main (ho_env h) (DropCreate [''bob''] lat lng 9 2 (Some NOTE) None 0 ''hybrid'') c = Some (r, c')
    \<and> holds_drop H (console_disk c') (DropId_of C raw) raw cs \<and> N (co_net c')
    \<and> field (from_utf8_lossy (co_out c')) ''id:'' = Some (id_hex H (DropId_of C raw)) \<and> deliverable C H r' (str_bytes NOTE) raw cs"
    by (intro exI [of _ "Ok ()"] exI [of _ "c\<lparr>co_world := w, co_out := out\<rparr>"] exI [of _ raw] exI [of _ cs]) simp
qed

lemma serve_step:
  assumes "clap_laws lat lng (ho_clap h)" "C = en_crypto (ho_env h)" "H = en_hex (ho_env h)" "sha256_laws C"
    and "en_bind (ho_env h) RELAY = Ok ()" "ho_listen h = (\<lambda>_ s _. s)" "\<And>d. F dir d \<Longrightarrow> dk_dirs d = []"
  shows "ensures (scene n F N) (serve_in_background h dir RELAY) (\<lambda>_. scene (Suc n) F (relay_good C))"
  unfolding ensures_def
proof (intro allI impI)
  fix st assume st: "scene n F N st"
  then have "load_store C H (st_dirs st dir) = Ok MemoryStore_new"
    using assms(7) by (simp add: scene_def load_store_def read_dir_def)
  then have "\<exists>out. cmd_serve C H (en_bind (ho_env h)) RELAY (console_of h dir st)
      = Some (Ok \<lparr>ss_poisoned = False, ss_store = MemoryStore_new\<rparr>, (console_of h dir st)\<lparr>co_out := out\<rparr>)"
    using assms(5) by (simp add: cmd_serve_def act_defs on_store_def console_of_def println_def print_bytes_def)
  then show "\<exists>x st'. serve_in_background h dir RELAY st = Some (Ok x, st') \<and> scene (Suc n) F (relay_good C) st'"
    using assms(1-4,6) st relay_ok_new
    by (auto simp: serve_in_background_def clap_laws_def scene_def after_def console_of_def)
qed

lemma plain_id: "hex_laws H \<Longrightarrow> sha256_laws C \<Longrightarrow> plain (id_hex H (DropId_of C raw))"
  using plain_hex [of H "as_bytes (DropId_of C raw)"] length_DropId_of [of C raw]
  by (cases "as_bytes (DropId_of C raw) = []"; cases "DropId_of C raw") (simp_all add: DropId_to_hex_def)

lemma push_step:
  assumes "clap_laws lat lng (ho_clap h)" "C = en_crypto (ho_env h)" "H = en_hex (ho_env h)" "hex_laws H" "sha256_laws C"
    and "en_tcp (ho_env h) = relay_tcp C" "deliverable C H r plaintext raw cs" "i = DropId_of C raw" "\<And>d. F dir d \<Longrightarrow> holds_drop H d i raw cs"
  shows "ensures (scene n F (relay_good C)) (client h dir [''push'', RELAY, id_hex H i])
    (\<lambda>out st. True \<and> scene (Suc n) (F(dir := \<lambda>_. True)) (\<lambda>s. relay_good C s \<and> store_holds (ss_store s) i raw cs) st)"
proof (rule ensures_client)
  show "ho_clap h [''push'', RELAY, id_hex H i] = Some (Push RELAY (id_hex H i))"
    using assms(1,8) plain_id [OF assms(4,5)] by (simp add: clap_laws_def)
  fix c assume c: "F dir (console_disk c)" "relay_good C (co_net c)"
  show "\<exists>r c'. cli_main (ho_env h) (Push RELAY (id_hex H i)) c = Some (r, c') \<and> True
      \<and> (relay_good C (co_net c') \<and> store_holds (ss_store (co_net c')) i raw cs) \<and> True"
    using push_works [OF assms(4) c(2) _ assms(8) assms(9) [OF c(1)], of RELAY] assms(2,3,6,7) by (auto simp: deliverable_def)
qed

text \<open>A directory that has received the drop.\<close>

definition received :: "crypto \<Rightarrow> hex_codec \<Rightarrow> rng \<Rightarrow> bytes \<Rightarrow> bytes list \<Rightarrow> Disk \<Rightarrow> bool" where
  "received C H r raw cs d \<longleftrightarrow> layout_ok d \<and> log_holds [raw] d \<and> holds_drop H d (DropId_of C raw) raw cs
    \<and> device C H (new_identity r) (Some (new_hybrid C r)) d \<and> disk_read d log_key_path = None"

lemma fetch_step:
  assumes "clap_laws lat lng (ho_clap h)" "C = en_crypto (ho_env h)" "H = en_hex (ho_env h)" "hex_laws H" "sha256_laws C"
    and "en_tcp (ho_env h) = relay_tcp C" "deliverable C H r plaintext raw cs" "i = DropId_of C raw" "\<And>d. F dir d \<Longrightarrow> keyed C H r d"
  shows "ensures (scene n F (\<lambda>s. relay_good C s \<and> store_holds (ss_store s) i raw cs)) (client h dir [''fetch'', RELAY, id_hex H i])
    (\<lambda>out st. True \<and> scene (Suc n) (F(dir := received C H r raw cs)) (\<lambda>_. True) st)"
proof (rule ensures_client)
  show "ho_clap h [''fetch'', RELAY, id_hex H i] = Some (Fetch RELAY (id_hex H i))"
    using assms(1,8) plain_id [OF assms(4,5)] by (simp add: clap_laws_def)
  fix c assume c: "F dir (console_disk c)" "relay_good C (co_net c) \<and> store_holds (ss_store (co_net c)) i raw cs"
  note k = keyed_parts [OF assms(9) [OF c(1)]]
  have len: "length (as_bytes i) = 32" using assms(5,8) length_DropId_of by blast
  have good: "good_drop C raw cs" using assms(7) by (simp add: deliverable_def)
  obtain d out where d: "cmd_fetch C H (relay_tcp C) RELAY (id_hex H i) c = Some (Ok (), c\<lparr>co_world := co_world c\<lparr>w_disk := d\<rparr>, co_out := out\<rparr>)"
    "fetched H (console_disk c) [] i raw cs d"
    using fetch_works(1) [OF assms(4) _ good len _ k(1,7), of RELAY] c(2) by auto
  have "tcp_fetch (relay_tcp C) RELAY i (co_net c) = (Ok (Some raw), co_net c)"
    using tcp_fetch_held(1) [OF conjunct1 [OF c(2)] len] c(2) by (simp add: store_holds_def)
  from cmd_fetch_found [OF id_hex_parses [OF assms(4) len] this] d(1)
  have run: "act_then (receive_drop C H (\<lambda>_ k. Bail (''fetching chunk '' @ decimal k)) (tcp_fetch_chunk (relay_tcp C) RELAY) i raw)
      (\<lambda>received. println (''fetched '' @ id_hex H i @ '' ('' @ decimal (unat received) @ '' chunks) from '' @ RELAY)) c
      = Some (Ok (), c\<lparr>co_world := co_world c\<lparr>w_disk := d\<rparr>, co_out := out\<rparr>)" by simp
  have "disk_read d log_key_path = None"
    using conjunct1 [OF received_checked [OF run]] k(9) by (simp add: path_defs log_key_path_def chunk_path_def image_iff)
  then have "received C H r raw cs d"
    using d(2) fetched_device [OF d(2) k(6)] assms(8) by (simp add: received_def fetched_def)
  then show "\<exists>r' c'. cli_main (ho_env h) (Fetch RELAY (id_hex H i)) c = Some (r', c') \<and> received C H r raw cs (console_disk c') \<and> True \<and> True"
    using d(1) assms(2,3,6) by simp
qed

lemma open_step:
  assumes "clap_laws lat lng (ho_clap h)" "C = en_crypto (ho_env h)" "H = en_hex (ho_env h)" "hex_laws H" "sha256_laws C"
    and "deliverable C H r (str_bytes s) raw cs" "str_ok s" "i = DropId_of C raw" "\<And>d. F dir d \<Longrightarrow> received C H r raw cs d"
  shows "ensures (scene n F N) (client h dir [''drop-open'', id_hex H i]) (\<lambda>out st. out = s @ newline \<and> scene (Suc n) (F(dir := F dir)) N st)"
proof (rule ensures_client)
  show "ho_clap h [''drop-open'', id_hex H i] = Some (DropOpen (id_hex H i) None)"
    using assms(1,8) plain_id [OF assms(4,5)] by (simp add: clap_laws_def)
  fix c assume c: "F dir (console_disk c)" "N (co_net c)" "co_out c = []"
  have len: "length (as_bytes i) = 32" using assms(5,8) length_DropId_of by blast
  have "open_drop C H (console_disk c) i = Ok (str_bytes s)"
    using assms(6,8) assms(9) [OF c(1)] by (simp add: deliverable_def received_def)
  from drop_open_prints [OF assms(4) len this] c
  have "drop_open C H (id_hex H i) None c = Some (Ok (), c\<lparr>co_out := str_bytes (s @ newline)\<rparr>)" by (simp add: str_bytes_def)
  moreover have "from_utf8_lossy (str_bytes (s @ newline)) = s @ newline"
    using assms(7) by (intro from_utf8_lossy_str_bytes str_ok_append) simp_all
  ultimately show "\<exists>r' c'. cli_main (ho_env h) (DropOpen (id_hex H i) None) c = Some (r', c') \<and> F dir (console_disk c') \<and> N (co_net c')
    \<and> from_utf8_lossy (co_out c') = s @ newline" using c assms(2,3) by simp
qed

lemma verify_step:
  assumes "clap_laws lat lng (ho_clap h)" "C = en_crypto (ho_env h)" "H = en_hex (ho_env h)" "hex_laws H" "sha256_laws C" "ed25519_laws C"
    and "deliverable C H r plaintext raw cs" "i = DropId_of C raw" "\<And>d. F dir d \<Longrightarrow> received C H r raw cs d"
  shows "ensures (scene n F N) (client h dir [''log-verify'', id_hex H i])
    (\<lambda>out st. (contains_str out ''signature:   ok'' \<and> contains_str out ''inclusion:   ok'') \<and> scene (Suc n) (F(dir := \<lambda>_. True)) N st)"
proof (rule ensures_client)
  show "ho_clap h [''log-verify'', id_hex H i] = Some (LogVerify (id_hex H i))"
    using assms(1,8) plain_id [OF assms(4,5)] by (simp add: clap_laws_def)
  fix c assume c: "F dir (console_disk c)" "N (co_net c)" "co_out c = []"
  have len: "length (as_bytes i) = 32" using assms(5,8) length_DropId_of by blast
  note d = assms(9) [OF c(1), unfolded received_def]
  obtain sd body where sd: "SignedDrop_decode raw = Ok sd" "SignedDrop_verify C sd = Ok ()" "SignedDrop_body sd = Ok body"
    using assms(7) by (auto simp: deliverable_def good_drop_def)
  have key: "log_key_ok H (console_disk c)" using d by (simp add: log_key_ok_def disk_read_to_string_def)
  have rd: "read_drop H (console_disk c) i = Ok (sd, body)" using d sd assms(8) by (simp add: read_drop_def holds_drop_def)
  have pos: "position (\<lambda>e. sha256 C e = as_bytes i) [raw] = Some 0" using assms(8) by (simp add: DropId_of_def)
  obtain w' where v: "Store_verify C H i (co_world c) = Some (Ok \<lparr>vf_signature = True, vf_inclusion = True, vf_sth = True, vf_tree_size = 1,
      vf_leaf_index = 0, vf_root = mth (sha256 C) [leaf_hash (sha256 C) raw], vf_sig_kind = sd_sig_kind sd\<rparr>, w')"
    using verify_ok [OF assms(6) _ _ key rd pos] d sd(2) by auto
  let ?head = "''signature:   ok'' @ '' ('' @ sig_kind_text (sd_sig_kind sd) @ '')''"
  let ?tail = "[''tree size:   '' @ decimal 1, ''leaf index:  '' @ decimal 0,
    ''merkle root: '' @ hex_encode H (mth (sha256 C) [leaf_hash (sha256 C) raw]), ''sth:         ok'']"
  let ?out = "text_of (?head # ''inclusion:   ok'' # ?tail)"
  have run: "log_verify C H (id_hex H i) c = Some (Ok (), c\<lparr>co_world := w', co_out := str_bytes ?out\<rparr>)"
    using id_hex_parses [OF assms(4) len, of c] v c(3)
    by (simp add: log_verify_def act_defs on_store_def print_lines_step ok_text_def)
  have "str_ok (sig_kind_text k)" for k by (simp add: sig_kind_text_def str_ok_steps)
  then have out: "from_utf8_lossy (str_bytes ?out) = ?out"
    by (intro read_text_of) (simp add: str_ok_steps str_ok_append str_ok_decimal str_ok_hex [OF assms(4)])
  have "contains_str ?out ''signature:   ok''"
    using contains_str_append [of "[]" "''signature:   ok''"
      "'' ('' @ sig_kind_text (sd_sig_kind sd) @ '')'' @ newline @ text_of (''inclusion:   ok'' # ?tail)"] by (simp del: contains_str.simps)
  moreover have "contains_str ?out ''inclusion:   ok''"
    using contains_str_append [of "?head @ newline" "''inclusion:   ok''" "newline @ text_of ?tail"] by (simp del: contains_str.simps)
  ultimately show "\<exists>r' c'. cli_main (ho_env h) (LogVerify (id_hex H i)) c = Some (r', c') \<and> True \<and> N (co_net c')
    \<and> contains_str (from_utf8_lossy (co_out c')) ''signature:   ok'' \<and> contains_str (from_utf8_lossy (co_out c')) ''inclusion:   ok''"
    using run out c(2) unfolding assms(2,3) by (simp del: concat.simps list.map)
qed

text \<open>What the first half of the demo hands over to the second: the drop, the keys of bob and a relay without drops.\<close>

definition handed_over :: "crypto \<Rightarrow> hex_codec \<Rightarrow> (nat \<Rightarrow> rng) \<Rightarrow> bytes \<Rightarrow> bytes list \<Rightarrow> string \<Rightarrow> Disk \<Rightarrow> bool" where
  "handed_over C H rng raw cs dir d \<longleftrightarrow> (dir = ''alice'' \<longrightarrow> holds_drop H d (DropId_of C raw) raw cs)
    \<and> (dir = ''bob'' \<longrightarrow> keyed C H (rng 1) d) \<and> (dir = ''relay'' \<longrightarrow> dk_dirs d = [])"

definition fresh :: "string \<Rightarrow> Disk \<Rightarrow> bool" where
  "fresh dir d \<longleftrightarrow> dir \<in> {''alice'', ''bob'', ''relay''} \<longrightarrow> d = \<lparr>dk_files = [], dk_dirs = []\<rparr>"

lemma demo_create_ok:
  assumes "clap_laws lat lng (ho_clap h)" "C = en_crypto (ho_env h)" "H = en_hex (ho_env h)" "A = en_h3 (ho_env h)"
    and "hkdf_laws C" "aead_laws C" "x25519_laws C" "sha256_laws C" "ed25519_laws C" "h3_laws A"
    and "\<forall>xs r. mset (fst (en_shuffle (ho_env h) xs r)) = mset xs" and "mlkem_laws C" "mldsa_laws C" "mldsa_total C" "hex_laws H"
    and "\<forall>tag. derive_tag C (ecdh_public C (new_identity (ho_rng h 1))) (nonce_drawn (ho_rng h 5)) = Ok tag \<longrightarrow> tag_unused 1948 tag (ho_rng h 5)"
    and "CellId_from_lat_lng A lat lng 9 = Ok cell"
    and "\<forall>root nonce. \<exists>n. pow_is_valid C (signing_public C (new_identity (ho_rng h 0))) root nonce n"
  shows "ensures (scene 0 fresh N) (demo_create h) (\<lambda>i st. \<exists>raw cs. (i = id_hex H (DropId_of C raw)
    \<and> deliverable C H (ho_rng h 1) (str_bytes NOTE) raw cs) \<and> scene 6 (handed_over C H (ho_rng h) raw cs) N st)"
proof -
  let ?ra = "ho_rng h 0" and ?rb = "ho_rng h 1"
  note keygen = ensures_then [OF keygen_step [OF assms(1-3,15,12,13)]] and say' = ensures_then [OF ensures_sayln]
    and expect' = ensures_then [OF ensures_expect]
  have wf: "hybrid_wf C (new_hybrid C ?rb)" using hybrid_wf_generate by (simp add: new_hybrid_def)
  note id = ensures_then [OF id_step [where name = "''bob''" and r = ?rb, OF assms(1-3,15,7,9,12)]]
    and add = ensures_then [OF contact_step [where r = ?ra, OF assms(1-3,15,7,9,12) _ wf refl]]
  have tag: "\<forall>tag. derive_tag C (ecdh_public C (new_identity ?rb)) (nonce_drawn (ho_rng h (Suc (Suc (Suc (Suc (Suc 0))))))) = Ok tag
      \<longrightarrow> tag_unused 1948 tag (ho_rng h (Suc (Suc (Suc (Suc (Suc 0))))))" using assms(16) by (simp add: eval_nat_numeral)
  have six: "6 = Suc (Suc (Suc (Suc (Suc (Suc 0)))))" by simp
  note create = ensures_then [OF drop_step [where r = ?ra and r' = ?rb, OF assms(1-15) _ wf tag assms(17,18)]]
  show ?thesis
    unfolding demo_create_def
    apply (rule keygen, simp add: fresh_def, rule ensures_given)
    apply (rule keygen, simp add: fresh_def, rule ensures_given)
    apply (rule keygen, simp add: fresh_def, rule ensures_given)
    apply (rule say')
    apply (rule id, simp, rule ensures_given, elim conjE)
    apply (rule expect', assumption, rule ensures_given)
    apply (rule expect', assumption, rule ensures_given)
    apply (rule expect', assumption, rule ensures_given)
    apply (simp only:)
    apply (rule add, simp, rule ensures_given)
    apply (rule say')
    apply (rule create, simp, rule ensures_obtain, elim conjE)
    apply (rule expect', assumption, rule ensures_given)
    apply (rule say')
    apply (rule ensures_res, intro exI conjI, assumption, assumption, unfold six, erule scene_mono)
    by (auto simp: handed_over_def keyed_parts(10) split: if_splits)
qed

lemma demo_deliver_ok:
  assumes "clap_laws lat lng (ho_clap h)" "C = en_crypto (ho_env h)" "H = en_hex (ho_env h)" "sha256_laws C" "ed25519_laws C" "hex_laws H"
    and "en_tcp (ho_env h) = relay_tcp C" "en_bind (ho_env h) RELAY = Ok ()" "ho_listen h = (\<lambda>_ s _. s)"
    and "deliverable C H (ho_rng h 1) (str_bytes NOTE) raw cs"
  shows "ensures (scene n (handed_over C H (ho_rng h) raw cs) N) (demo_deliver h (id_hex H (DropId_of C raw))) (\<lambda>ok _. ok)"
proof -
  have note': "str_ok NOTE" by (simp add: NOTE_def str_ok_steps)
  note say' = ensures_then [OF ensures_sayln]
    and serve = ensures_then [OF serve_step [OF assms(1-4,8,9)]]
    and push = ensures_then [OF push_step [OF assms(1-3,6,4,7,10) refl]]
    and fetch' = ensures_then [OF fetch_step [OF assms(1-3,6,4,7,10) refl]]
    and open' = ensures_then [OF open_step [OF assms(1-3,6,4,10) note' refl]]
    and verify = ensures_then [OF verify_step [OF assms(1-3,6,4,5,10) refl]]
  show ?thesis
    unfolding demo_deliver_def Let_def
    apply (rule serve, simp add: handed_over_def)
    apply (rule push, simp add: handed_over_def, rule ensures_given)
    apply (rule say')
    apply (rule fetch', simp add: handed_over_def, rule ensures_given)
    apply (rule ensures_then [OF ensures_say])
    apply (rule say')
    apply (rule open', simp, rule ensures_given)
    apply (rule verify, simp, rule ensures_given)
    apply (rule say')
    apply (rule ensures_then [OF ensures_say_lines])
    apply (rule ensures_then [OF ensures_end(1)])
    apply (rule say')
    apply (rule ensures_then [OF ensures_end(2)])
    apply (rule ensures_res)
    using contains_str_append [of "[]" NOTE newline] by simp
qed

lemma cargo_ok: "ho_cargo h args \<Longrightarrow> ensures (scene n F N) (cargo_run h args) (\<lambda>ok st. ok \<and> scene n F N st)"
  unfolding cargo_run_def by (rule ensures_then [OF ensures_sayln]) (auto intro: ensures_res)

lemma fresh_step: "ensures (scene n F N) (fresh_dirs [''alice'', ''bob'', ''relay'']) (\<lambda>_. scene n fresh N)"
  by (auto simp: ensures_def fresh_dirs_def scene_def fresh_def)

lemma run_all_result: "\<exists>st'. run_all h commands st = Some (Ok (list_all (ho_cargo h) commands), st')"
  by (induction commands arbitrary: st) (auto simp: act_defs cargo_run_def sayln_def say_def)

section \<open>Properties\<close>

text \<open>
  C3. The demo passes. On a machine where the primitives satisfy their laws, the arguments are
  parsed as declared, the build succeeds, the relay can bind its address and is the peer that
  the clients reach, coordinates have a cell, a proof of work exists and the random bytes drawn do not hit
  bob's tag by accident, the script ends with success, whatever the directories held before: three parties
  with fresh keys, bob's keys taken from the output of one process to the arguments of another,
  a hybrid drop created, pushed to the relay, fetched, opened to the note and verified in the log.
\<close>

theorem demo_passes:
  assumes "C = en_crypto (ho_env h)" "H = en_hex (ho_env h)" "A = en_h3 (ho_env h)"
    and "hkdf_laws C" "aead_laws C" "x25519_laws C" "sha256_laws C" "ed25519_laws C" "mlkem_laws C" "mldsa_laws C" "mldsa_total C"
    and "hex_laws H" "h3_laws A" and "\<forall>xs r. mset (fst (en_shuffle (ho_env h) xs r)) = mset xs"
    and "clap_laws lat lng (ho_clap h)" and "ho_cargo h [''build'', ''-p'', ''keepstone-cli'']"
    and "en_tcp (ho_env h) = relay_tcp C" "en_bind (ho_env h) RELAY = Ok ()" "ho_listen h = (\<lambda>_ s _. s)"
    and "CellId_from_lat_lng A lat lng 9 = Ok cell"
    and "\<forall>root nonce. \<exists>n. pow_is_valid C (signing_public C (new_identity (ho_rng h 0))) root nonce n"
    and "\<forall>tag. derive_tag C (ecdh_public C (new_identity (ho_rng h 1))) (nonce_drawn (ho_rng h 5)) = Ok tag \<longrightarrow> tag_unused 1948 tag (ho_rng h 5)"
    and "st_runs st = 0"
  shows "\<exists>st'. xtask_main h (Some ''demo'') st = Some (Ok True, st')"
proof -
  have create: "ensures (scene 0 fresh N) (demo_create h) (\<lambda>i st. \<exists>raw cs. (i = id_hex H (DropId_of C raw)
    \<and> deliverable C H (ho_rng h 1) (str_bytes NOTE) raw cs) \<and> scene 6 (handed_over C H (ho_rng h) raw cs) N st)" for N
    by (rule demo_create_ok [OF assms(15,1-8,13,14,9-12,22,20,21)])
  have "ensures (scene 0 (\<lambda>_ _. True) (\<lambda>_. True)) (demo h) (\<lambda>ok _. ok)"
    unfolding demo_def
    apply (rule ensures_then [OF ensures_sayln])
    apply (rule ensures_then [OF cargo_ok [OF assms(16)]], rule ensures_given, simp only: not_True_eq_False if_False)
    apply (rule ensures_then [OF fresh_step])
    apply (rule ensures_then [OF create], rule ensures_obtain, elim conjE, simp only:)
    by (rule demo_deliver_ok [OF assms(15,1,2,7,8,12,17-19)])
  then obtain ok st' where "demo h st = Some (Ok ok, st')" ok
    using assms(23) unfolding ensures_def scene_def by blast
  then show ?thesis by (simp add: xtask_main_def)
qed

section \<open>Witness\<close>

text \<open>A machine where every process but the one that creates the drop draws ones.\<close>

definition demo_clap :: "string list \<Rightarrow> nat Command option" where
  "demo_clap args =
    (if args = [''keygen''] then Some Keygen
     else if args = [''id''] then Some PrintId
     else if hd args = ''contact-add'' then Some (ContactAdd (args ! 1) (args ! 2) (args ! 3) (Some (args ! 4)))
     else if hd args = ''drop-create'' then Some (DropCreate [''bob''] 4 2 9 2 (Some NOTE) None 0 ''hybrid'')
     else if hd args = ''serve'' then Some (Serve (args ! 2))
     else if hd args = ''push'' then Some (Push (args ! 1) (args ! 2))
     else if hd args = ''fetch'' then Some (Fetch (args ! 1) (args ! 2))
     else if hd args = ''drop-open'' then Some (DropOpen (args ! 1) None)
     else if hd args = ''log-verify'' then Some (LogVerify (args ! 1))
     else None)"

definition demo_host :: "(nat, nat, u8, bool, nat, SharedStore) host" where
  "demo_host = \<lparr>ho_env = \<lparr>en_crypto = easy_crypto, en_hex = hex_impl, en_h3 = toy_h3, en_shuffle = (\<lambda>xs r. (xs, r)),
      en_serde = two_values Null new_hunt, en_f64 = demo_f64, en_show = \<lambda>_. [],
      en_ots = \<lparr>ots_available = False, ots_stamp = \<lambda>p d. (None, d), ots_verify = \<lambda>p d. None\<rparr>,
      en_tcp = relay_tcp easy_crypto, en_bind = (\<lambda>_. Ok ()), en_multiaddr = Some, en_swarm = demo_swarm,
      en_p2p = (\<lambda>_ _ n. ([], n)), en_events = [], en_cells = (\<lambda>xs. xs), en_finish = (\<lambda>xs. xs), en_lookup = (\<lambda>_ _. Ok [])\<rparr>,
    ho_clap = demo_clap, ho_cargo = \<lambda>_. True, ho_rng = \<lambda>n _. if n = 5 then 0 else 1, ho_clock = \<lambda>_. [],
    ho_files = \<lparr>dk_files = [], dk_dirs = []\<rparr>, ho_listen = \<lambda>_ s _. s, ho_kill = \<lambda>_ s. s\<rparr>"

lemma easy_hybrid_laws: "mlkem_laws easy_crypto" "mldsa_laws easy_crypto" "mldsa_total easy_crypto"
  using toy_mlkem_laws toy_mldsa_laws
  by (simp_all add: easy_crypto_def mlkem_laws_def mldsa_laws_def mldsa_total_def toy_crypto_def)

theorem demo_passes_witness:
  "\<exists>st'. xtask_main demo_host (Some ''demo'') \<lparr>st_dirs = \<lambda>_. \<lparr>dk_files = [], dk_dirs = []\<rparr>, st_runs = 0, st_net = empty_shared, st_out = []\<rparr>
    = Some (Ok True, st')"
proof -
  let ?st = "\<lparr>st_dirs = \<lambda>_. \<lparr>dk_files = [], dk_dirs = []\<rparr>, st_runs = 0, st_net = empty_shared, st_out = []\<rparr>"
  have clap: "clap_laws 4 2 (ho_clap demo_host)" by (simp add: clap_laws_def demo_host_def demo_clap_def RELAY_def)
  have env: "easy_crypto = en_crypto (ho_env demo_host)" "hex_impl = en_hex (ho_env demo_host)" "toy_h3 = en_h3 (ho_env demo_host)"
    "\<forall>xs r. mset (fst (en_shuffle (ho_env demo_host) xs r)) = mset xs" "ho_cargo demo_host [''build'', ''-p'', ''keepstone-cli'']"
    "en_tcp (ho_env demo_host) = relay_tcp easy_crypto" "en_bind (ho_env demo_host) RELAY = Ok ()" "ho_listen demo_host = (\<lambda>_ s _. s)"
    by (simp_all add: demo_host_def)
  have pow: "\<forall>root nonce. \<exists>n. pow_is_valid easy_crypto (signing_public easy_crypto (new_identity (ho_rng demo_host 0))) root nonce n"
    using easy_pow by blast
  have rng: "ho_rng demo_host 1 = (\<lambda>_. 1)" "ho_rng demo_host 5 = (\<lambda>_. 0)" by (simp_all add: demo_host_def)
  have "ecdh_public easy_crypto (new_identity (\<lambda>_. 1)) = replicate 32 1"
    by (simp add: ecdh_public_def new_identity_def Identity_generate_def fill_bytes_def easy_crypto_def toy_crypto_def map_replicate_const pad_same)
  moreover have "derive_tag easy_crypto (replicate 32 1) n = Ok (replicate 8 1)" for n
    by (simp add: derive_tag_def derive_key32_def expand_def KEY_LEN_def easy_crypto_def toy_crypto_def pad_same Let_def)
  moreover have "tag_unused k (replicate 8 1) (\<lambda>_. 0)" for k by (simp add: tag_unused_def map_replicate_const)
  ultimately have tag: "\<forall>tag. derive_tag easy_crypto (ecdh_public easy_crypto (new_identity (ho_rng demo_host 1))) (nonce_drawn (ho_rng demo_host 5)) = Ok tag
      \<longrightarrow> tag_unused 1948 tag (ho_rng demo_host 5)" unfolding rng by simp
  show ?thesis
    by (rule demo_passes [OF env(1-3) easy_laws easy_hybrid_laws hex_impl_laws toy_h3_laws env(4) clap env(5-8) demo_facts(4) pow tag]) simp
qed

end
