(* ===== verification/Fuzz.thy ===== *)
theory Fuzz
  imports Net
begin

text \<open>
  The fuzz targets of \<open>fuzz/fuzz_targets\<close>: what they do with one input, where a failed
  assertion and a panic of the code under test both end the run. Since the decoders are
  functions here, it can be said of every input whether the target survives it.
\<close>

section \<open>The targets\<close>

definition assert_eq :: "'a \<Rightarrow> 'a \<Rightarrow> (unit, 'e) res" where
  "assert_eq a b = (if a = b then Ok () else Panic)"

text \<open>\<open>let _ = ...\<close>: an error is dropped, a panic is not.\<close>

definition discard :: "('a, 'e) res \<Rightarrow> (unit, 'e') res" where
  "discard r = (case r of Panic \<Rightarrow> Panic | _ \<Rightarrow> Ok ())"

text \<open>\<open>if let Ok(x) = ... \<close>.\<close>

definition if_ok :: "('a, 'e) res \<Rightarrow> ('a \<Rightarrow> (unit, 'e') res) \<Rightarrow> (unit, 'e') res" where
  "if_ok r f = (case r of Ok x \<Rightarrow> f x | Err _ \<Rightarrow> Ok () | Panic \<Rightarrow> Panic)"

definition fuzz_drop_decode :: "crypto \<Rightarrow> bytes \<Rightarrow> (unit, unit) res" where
  "fuzz_drop_decode C data =
    and_then (if_ok (SignedDrop_decode data) (\<lambda>signed.
      and_then (discard (SignedDrop_verify C signed)) (\<lambda>_.
      let _ = SignedDrop_id C signed in
      if_ok (SignedDrop_body signed) (\<lambda>body.
        let encoded = DropBody_to_canonical body in
        if_ok (DropBody_from_canonical encoded) (\<lambda>again. assert_eq again body))))) (\<lambda>_.
    discard (DropBody_from_canonical data))"

definition fuzz_presence_decode :: "bytes \<Rightarrow> (unit, unit) res" where
  "fuzz_presence_decode data =
    and_then (discard (PresenceRequest_from_canonical data)) (\<lambda>_.
    discard (PresenceAttestation_from_canonical data))"

definition fuzz_protocol_decode :: "bytes \<Rightarrow> (unit, unit) res" where
  "fuzz_protocol_decode data = discard (Message_decode data)"

section \<open>Where decoding panics\<close>

text \<open>A byte string that starts like a body and announces so many wrapped keys.\<close>

definition announces :: "bytes \<Rightarrow> nat \<Rightarrow> bool" where
  "announces bs n \<longleftrightarrow> n \<le> usize_max \<and> (\<exists>b rest. str_ok (db_cell b) \<and> length (db_cell b) \<le> usize_max
    \<and> length (db_content_root b) = 32 \<and> length (db_prefix b) = 20 \<and> length (db_drop_nonce b) = 16
    \<and> bs = concat (butlast (body_head b)) @ array_bytes n @ rest)"

definition overallocates :: "bytes \<Rightarrow> bool" where
  "overallocates bs \<longleftrightarrow> (\<exists>n. announces bs n \<and> isize_max < n * wrapped_key_size)"

lemma decode_wrapped_not_Panic: "decode_wrapped d \<noteq> Panic"
  unfolding decode_wrapped_def decode_sealed_def
  by (auto simp: and_then_eq_Panic decoder_total split: if_splits)

lemma decode_many_not_Panic: "(\<And>d. dec d \<noteq> Panic) \<Longrightarrow> decode_many dec n d \<noteq> Panic"
  by (induction n arbitrary: d) (auto simp: and_then_eq_Panic)

lemma from_canonical_Panic:
  assumes "length bs \<le> usize_max"
  shows "DropBody_from_canonical bs = Panic \<longleftrightarrow> overallocates bs"
proof
  assume p: "DropBody_from_canonical bs = Panic"
  have "\<exists>b rest n. n \<le> usize_max \<and> isize_max < n * wrapped_key_size \<and> str_ok (db_cell b) \<and> length (db_cell b) \<le> usize_max
    \<and> length (db_content_root b) = 32 \<and> length (db_prefix b) = 20 \<and> length (db_drop_nonce b) = 16
    \<and> bs = concat (butlast (body_head b)) @ array_bytes n @ rest"
    using p unfolding DropBody_from_canonical_def Decoder_new_dec_at
    apply (auto simp: and_then_eq_Panic decoder_total decode_many_not_Panic decode_wrapped_not_Panic cbor_field_def with_capacity_def not_le
        split: if_splits dest!: wire_dests try_u8_SomeD try_u32_SomeD)
    subgoal for version suite cell ring created expiry mode size' count root prefix' nonce pow n rest
      by (intro exI [of _ "\<lparr>db_version = version, db_suite = suite, db_cell = cell, db_ring = ring, db_created_at = created,
          db_expiry = expiry, db_mode = mode, db_chunk_size = size', db_chunk_count = count, db_content_root = root, db_prefix = prefix',
          db_drop_nonce = nonce, db_pow_nonce = pow, db_wrapped_keys = []\<rparr>"] exI [of _ rest] exI [of _ n]) (simp add: body_head_def)
    done
  then show "overallocates bs" by (auto simp: overallocates_def announces_def)
next
  assume "overallocates bs"
  then obtain n b rest where o: "n \<le> usize_max" "isize_max < n * wrapped_key_size" "str_ok (db_cell b)" "length (db_cell b) \<le> usize_max"
    "length (db_content_root b) = 32" "length (db_prefix b) = 20" "length (db_drop_nonce b) = 16"
    "bs = concat (butlast (body_head b)) @ array_bytes n @ rest" by (auto simp: overallocates_def announces_def)
  show "DropBody_from_canonical bs = Panic"
    using o assms unfolding DropBody_from_canonical_def o(8) body_head_def Decoder_new_dec_at
    by (simp add: wire_simps cbor_field_def with_capacity_def small_usize)
qed

lemma Presence_not_Panic:
  "PresenceRequest_from_canonical bs \<noteq> Panic" "PresenceAttestation_from_canonical bs \<noteq> Panic"
  unfolding PresenceRequest_from_canonical_def PresenceAttestation_from_canonical_def
  by (auto simp: and_then_eq_Panic decoder_total split: if_splits)

lemma Message_not_Panic: "Message_decode bs \<noteq> Panic"
  by (auto simp: Message_decode_def and_then_eq_Panic decoder_total decode_tagged_not_Panic split: if_splits)

text \<open>An accepted body is the encoding of what it decodes to, so encoding it again cannot fail the assertion.\<close>

lemma reencoding_passes:
  assumes "length bs \<le> usize_max"
  shows "if_ok (DropBody_from_canonical bs) (\<lambda>body. if_ok (DropBody_from_canonical (DropBody_to_canonical body)) (\<lambda>again. assert_eq again body))
    = (if overallocates bs then Panic else Ok ())"
  using from_canonical_Panic [OF assms] body_sound [of bs] body_complete assms
  by (auto simp: if_ok_def assert_eq_def split: res.split)

section \<open>Properties\<close>



end
