(* ===== verification/Secret.thy ===== *)
theory Secret
  imports Text_Ops Drop_Types Address
begin

text \<open>
  How values print, and the buffers for secrets of \<open>crates/crypto/src/secret.rs\<close>. Types that hold
  keys print a fixed text, identifiers print their hexadecimal form.
\<close>

section \<open>Secret buffers (secret.rs)\<close>

record SecretBytes =
  sb_bytes :: bytes

definition SecretBytes_new :: "bytes \<Rightarrow> SecretBytes" where
  "SecretBytes_new bs = \<lparr>sb_bytes = bs\<rparr>"

definition SecretBytes_as_bytes :: "SecretBytes \<Rightarrow> bytes" where
  "SecretBytes_as_bytes s = sb_bytes s"

text \<open>
  What a caller does through \<open>as_mut_bytes\<close>: a write to one place of the slice, which panics
  outside of it and cannot change its length.
\<close>

definition SecretBytes_write :: "nat \<Rightarrow> u8 \<Rightarrow> SecretBytes \<Rightarrow> (SecretBytes, 'e) res" where
  "SecretBytes_write i b s = (if i < length (sb_bytes s) then Ok (s\<lparr>sb_bytes := (sb_bytes s)[i := b]\<rparr>) else Panic)"

definition SecretBytes_len :: "SecretBytes \<Rightarrow> nat" where
  "SecretBytes_len s = length (sb_bytes s)"

definition SecretBytes_is_empty :: "SecretBytes \<Rightarrow> bool" where
  "SecretBytes_is_empty s \<longleftrightarrow> sb_bytes s = []"

definition SecretBytes_debug :: "SecretBytes \<Rightarrow> string" where
  "SecretBytes_debug s = ''SecretBytes([REDACTED; '' @ decimal (length (sb_bytes s)) @ '' bytes])''"

text \<open>What is left in the memory of the buffer when it is dropped.\<close>

definition SecretBytes_drop :: "SecretBytes \<Rightarrow> bytes" where
  "SecretBytes_drop s = replicate (length (sb_bytes s)) 0"

section \<open>Keys\<close>

definition Identity_debug :: "Identity \<Rightarrow> string" where
  "Identity_debug identity = ''Identity([REDACTED])''"

definition HybridKeypair_debug :: "HybridKeypair \<Rightarrow> string" where
  "HybridKeypair_debug keypair = ''HybridKeypair([REDACTED])''"

definition HybridSigningKey_debug :: "HybridSigningKey \<Rightarrow> string" where
  "HybridSigningKey_debug key = ''HybridSigningKey([REDACTED])''"

definition MlDsaKeypair_debug :: "MlDsaKeypair \<Rightarrow> string" where
  "MlDsaKeypair_debug keypair = ''MlDsaKeypair([REDACTED])''"

section \<open>Identifiers\<close>

definition DropId_debug :: "hex_codec \<Rightarrow> DropId \<Rightarrow> string" where
  "DropId_debug H i = ''DropId('' @ DropId_to_hex (hex_encode H) i @ '')''"

definition DropId_display :: "hex_codec \<Rightarrow> DropId \<Rightarrow> string" where
  "DropId_display H i = DropId_to_hex (hex_encode H) i"

datatype ContentRoot = ContentRoot (content_root_bytes: bytes)

definition ContentRoot_from_bytes :: "bytes \<Rightarrow> ContentRoot" where
  "ContentRoot_from_bytes bs = ContentRoot bs"

definition ContentRoot_as_bytes :: "ContentRoot \<Rightarrow> bytes" where
  "ContentRoot_as_bytes root = content_root_bytes root"

definition ContentRoot_to_hex :: "hex_codec \<Rightarrow> ContentRoot \<Rightarrow> string" where
  "ContentRoot_to_hex H root = hex_encode H (content_root_bytes root)"

definition ContentRoot_debug :: "hex_codec \<Rightarrow> ContentRoot \<Rightarrow> string" where
  "ContentRoot_debug H root = ''ContentRoot('' @ ContentRoot_to_hex H root @ '')''"

definition CellId_debug :: "('f, 'l, 'r, 'c) h3 \<Rightarrow> 'c CellId \<Rightarrow> string" where
  "CellId_debug A cell = ''CellId('' @ cell_to_string A (cell_index cell) @ '')''"

definition CellId_display :: "('f, 'l, 'r, 'c) h3 \<Rightarrow> 'c CellId \<Rightarrow> string" where
  "CellId_display A cell = cell_to_string A (cell_index cell)"

section \<open>What printing reveals\<close>

text \<open>
  An interface for a type with a secret: what it prints is determined by what may be known,
  so no use of the printed text tells two secrets apart that agree in it.
\<close>

locale redacted =
  fixes debug :: "'a \<Rightarrow> string" and public :: "'a \<Rightarrow> 'b"
  assumes public_only: "public x = public y \<Longrightarrow> debug x = debug y"
begin

lemma nothing_else: "\<exists>f. \<forall>x. debug x = f (public x)"
proof
  show "\<forall>x. debug x = (\<lambda>p. debug (SOME x. public x = p)) (public x)"
    using public_only by (metis (mono_tags, lifting) someI)
qed

end

interpretation redacted_buffer: redacted SecretBytes_debug SecretBytes_len
  by unfold_locales (simp add: SecretBytes_debug_def SecretBytes_len_def)

interpretation redacted_identity: redacted Identity_debug "\<lambda>_. ()"
  by unfold_locales (simp add: Identity_debug_def)

interpretation redacted_hybrid: redacted HybridKeypair_debug "\<lambda>_. ()"
  by unfold_locales (simp add: HybridKeypair_debug_def)

interpretation redacted_signing: redacted HybridSigningKey_debug "\<lambda>_. ()"
  by unfold_locales (simp add: HybridSigningKey_debug_def)

interpretation redacted_mldsa: redacted MlDsaKeypair_debug "\<lambda>_. ()"
  by unfold_locales (simp add: MlDsaKeypair_debug_def)

lemma secret_buffer:
  "SecretBytes_write i b s = Ok s' \<Longrightarrow> SecretBytes_len s' = SecretBytes_len s \<and> SecretBytes_as_bytes s' ! i = b"
  "SecretBytes_drop s = SecretBytes_drop t \<longleftrightarrow> SecretBytes_len s = SecretBytes_len t"
  by (auto simp: SecretBytes_write_def SecretBytes_len_def SecretBytes_as_bytes_def SecretBytes_drop_def split: if_splits)

text \<open>What identifiers print determines them, and the short form can be read back.\<close>

lemma identifiers_print:
  assumes "hex_laws H"
  shows "length (as_bytes i) = 32 \<Longrightarrow> DropId_from_hex (hex_decode H) (DropId_display H i) = Ok i"
    and "DropId_debug H i = DropId_debug H j \<Longrightarrow> i = j" and "ContentRoot_debug H r = ContentRoot_debug H s \<Longrightarrow> r = s"
    and "h3_laws A \<Longrightarrow> CellId_parse_hex A (CellId_display A c) = Ok c"
proof -
  have inj: "hex_encode H a = hex_encode H b \<Longrightarrow> a = b" for a b using assms by (metis hex_laws_def option.inject)
  show "length (as_bytes i) = 32 \<Longrightarrow> DropId_from_hex (hex_decode H) (DropId_display H i) = Ok i"
    using assms by (cases i) (simp add: DropId_from_hex_def DropId_to_hex_def DropId_display_def hex_laws_def)
  show "i = j" if "DropId_debug H i = DropId_debug H j"
    using that inj by (cases i; cases j) (simp add: DropId_debug_def DropId_to_hex_def)
  show "r = s" if "ContentRoot_debug H r = ContentRoot_debug H s"
    using that inj by (cases r; cases s) (simp add: ContentRoot_debug_def ContentRoot_to_hex_def)
  show "h3_laws A \<Longrightarrow> CellId_parse_hex A (CellId_display A c) = Ok c"
    using CellId_hex_roundtrip by (simp add: CellId_display_def CellId_to_hex_def)
qed

end
