(* ===== verification/Spec2Isabelle.thy ===== *)
theory Spec2Isabelle
  imports Sth Anchor Chunk_Stream Shamir Hybrid Place Presence Node_Store Wire_Protocol Net Daemon System
    Programs Xtask Fuzz Secret
begin

text \<open>
  Verification of Keepstone: end-to-end encrypted dead drops addressed to places, kept in a
  local data directory, recorded in a transparency log and exchanged between peers. The
  source is a Rust workspace under \<^verbatim>\<open>src/crates\<close>.

  \<^bold>\<open>How the parts interact.\<close> A drop is created by the store: it encrypts the payload in chunks,
  wraps the content key for every recipient, mines a proof of work, signs the canonical
  encoding of the body, writes envelope and chunks to disk and appends the envelope to the
  log. Nodes exchange envelopes and chunks as framed messages. The log is a Merkle tree with
  signed tree heads, which can be anchored in a hash chain. Presence certificates and
  place-locked keys release a key to who was seen at a place.

  \<^bold>\<open>Theories and the code they model.\<close>

  \<^item> \<open>Prelude\<close>: results with errors and panics (\<open>res\<close>), byte strings, big-endian codings, the
    lemma collections; \<open>Errors\<close>: the error enums of \<^verbatim>\<open>crypto/src/error.rs\<close>,
    \<^verbatim>\<open>core/src/error.rs\<close> and \<^verbatim>\<open>log/src/lib.rs\<close>; \<open>Text_Ops\<close>: the operations on \<open>str\<close> of the Rust
    standard library that the code uses.
  \<^item> \<open>Cbor\<close> (\<^verbatim>\<open>core/src/cbor.rs\<close>): encoder and decoder of the canonical subset. A reader and its
    writer are an instance of the locale \<open>codec\<close>; every wire format rests on it.
  \<^item> \<open>Merkle\<close> (\<^verbatim>\<open>log/src/merkle.rs\<close>), \<open>Sth\<close> (\<^verbatim>\<open>log/src/sth.rs\<close>), \<open>Anchor\<close>
    (\<^verbatim>\<open>log/src/anchor.rs\<close>): tree hash, proofs and their verifiers; tree heads; the \<open>Anchor\<close>
    trait as a locale with the hash chain as its provider.
  \<^item> \<open>Crypto\<close> (\<^verbatim>\<open>crypto/src\<close>: \<^verbatim>\<open>aead\<close>, \<^verbatim>\<open>kdf\<close>, \<^verbatim>\<open>keys\<close>, \<^verbatim>\<open>sealed\<close>, \<^verbatim>\<open>suite\<close>), \<open>Hybrid\<close> (\<^verbatim>\<open>hybrid.rs\<close>,
    \<^verbatim>\<open>hybrid_sig.rs\<close>), \<open>Chunk_Stream\<close> (\<^verbatim>\<open>stream.rs\<close>), \<open>Interpolation\<close> and \<open>Shamir\<close>
    (\<^verbatim>\<open>shamir.rs\<close>): key sealing, hybrid sealing and signatures, chunked encryption, secret sharing
    over the field of 256 elements. The third-party primitives are the fields of the record
    \<open>crypto\<close>, and what the code relies on are the named hypotheses \<open>ed25519_laws\<close>, \<open>aead_laws\<close> and
    their like; each is shown satisfiable on a concrete record in the witnesses.
  \<^item> \<open>Pow\<close>, \<open>Drop_Types\<close>, \<open>Presence\<close>, \<open>Place\<close>, \<open>Address\<close> (\<^verbatim>\<open>core/src\<close>): proof of work, bodies and
    envelopes of drops, presence certificates, place-locked keys, cells. The H3 library is the
    parameter record \<open>h3\<close>.
  \<^item> \<open>Node_Store\<close> (\<^verbatim>\<open>node/src/lib.rs\<close>, \<^verbatim>\<open>relay/src/lib.rs\<close>), \<open>Wire_Protocol\<close>
    (\<^verbatim>\<open>node/src/protocol.rs\<close>), \<open>Net\<close> (\<^verbatim>\<open>node/src/net.rs\<close>): storage, messages and frames, the
    servers and clients. A connection is the bytes still to be read and the bytes written; the
    interleaving of a relay's connections is the step relation \<open>serve_step\<close>.
  \<^item> \<open>Store_Dir\<close> and \<open>Store_Drops\<close> (\<^verbatim>\<open>store/src/lib.rs\<close>): the data directory. A \<open>Disk\<close> maps paths to
    files and directories; an operation is a function on a \<open>World\<close> of disk, randomness and
    clock whose value is \<open>None\<close> when the operation does not return (mining), and otherwise a
    result and the new world.

  \<^item> \<open>Http\<close>, \<open>Json\<close>, \<open>Daemon\<close> (\<^verbatim>\<open>daemon/src/main.rs\<close>): reading requests from a socket in pieces,
    query decoding and responses; the JSON values the code builds and reads, over the
    third-party \<open>serde_json\<close> as the parameter record \<open>serde\<close>; the router, its token and every
    handler. A connection of the daemon is one step on the \<open>World\<close> (\<open>serve_connection\<close>).
  \<^item> \<open>P2p\<close> (\<^verbatim>\<open>p2p/src/lib.rs\<close>): the libp2p transport. What the swarm reports is a list of events,
    what the code asks of it is recorded as a list of calls, and which calls fail is the
    parameter record \<open>swarm\<close>; a loop is a fold over the events. The end of the events of a
    client is its timeout.
  \<^item> \<open>Commands\<close>, \<open>Serving\<close>, \<open>Exchange\<close>, \<open>Hunt\<close>, \<open>Cli\<close> (\<^verbatim>\<open>cli/src/main.rs\<close>): the commands on
    identity, contacts, drops, log and anchors; the store a node serves from; push and fetch
    over TCP and libp2p; hunts and their map; the dispatch of \<open>main\<close>. A command runs on a
    \<open>Console\<close>: the world of the data directory, the other files of the machine, what was
    printed, and a network that is a parameter. Floating-point numbers and the \<open>ots\<close> client
    are parameters too.
  \<^item> \<open>Frame\<close> and \<open>System\<close>: what operations leave alone. The locale \<open>disk_relation\<close> fixes a relation
    between the directory before and after and derives it for every operation from laws on
    single writes; \<open>key_relation\<close> and \<open>cli_relation\<close> extend it by what creates keys and appends to
    the log. It is interpreted for files that do not change and for an identity and a log that
    are only extended; \<open>System\<close> closes it under any sequence of commands and connections
    (\<open>history\<close>). The locales \<open>drop_source\<close> and \<open>relay_link\<close> of \<open>Exchange\<close> state what a client relies on
    in a peer, and the relay over TCP and the node over libp2p are their providers.
  \<^item> \<open>Programs\<close>: the functions that listen, namely \<open>serve_sth\<close> and \<open>serve_witness\<close> of
    \<^verbatim>\<open>node/src/net.rs\<close> and \<open>main\<close> of the daemon with \<open>Store::open\<close>; what a listener accepts is a list.
  \<^item> \<open>Xtask\<close> (\<^verbatim>\<open>src/xtask/src/main.rs\<close>): the developer tasks. The demo is a script of processes, each
    a run of \<open>cli_main\<close> on a directory of its own, that reads what earlier ones printed; its
    correctness is total correctness of a script (\<open>ensures\<close>) over what is known of the directories
    and the network (\<open>scene\<close>), with \<open>clap\<close> as a parameter under \<open>clap_laws\<close>.
  \<^item> \<open>Fuzz\<close> (\<^verbatim>\<open>src/fuzz/fuzz_targets\<close>): what each fuzz target does with one input, and for which
    inputs it survives. \<open>Secret\<close> (\<^verbatim>\<open>crypto/src/secret.rs\<close> and the \<open>Debug\<close> and \<open>Display\<close> of keys and
    identifiers): what printing reveals, as the locale \<open>redacted\<close>.

  \<^bold>\<open>What is proved.\<close> Inclusion and consistency proofs are sound and complete; the soundness
  statements name the strings on which SHA-256 must not collide. Every wire format accepts
  exactly what its encoder writes, with two documented exceptions of the message decoder.
  Sealing, chunked encryption, secret sharing, place locks and envelopes undo their inverses
  and detect tampering; fewer shares than the threshold say nothing about the secret. Mining
  returns exactly if a valid nonce exists, and then the least. A relay with any interleaving of
  connections behaves as a sequential pair of maps, holds only valid envelopes, and answers
  every request. Creating a drop in either suite and opening it gives the payload, and the log keeps every
  envelope, also across a torn write. The daemon says nothing without its token, reads a request
  the same however it arrives, and opens what was posted to it. A drop made on one machine can
  be pushed, fetched on another over either transport and opened there; a fetch writes only
  checked envelopes under the requested id; a node serves exactly what is on disk; anchoring
  keeps a verifiable chain; seeding a hunt twice is seeding it once; and no sequence of
  commands and requests changes the identity or the past of the log. The end-to-end demo passes,
  and the fuzz targets survive exactly the inputs that do not ask for too much memory. Some theorems state what the code does where that is
  less than it means to do; they are recorded as findings.

  \<^bold>\<open>Bounds, loops and panics.\<close> Integers have their width as words; \<open>usize\<close> is 64 bits wide and
  lengths are natural numbers, bounded by \<open>isize::MAX\<close> where the code could exceed it. Loops are
  structural recursion or functions with a measure; the mining loop and the doubling loop of
  the tree split at machine width are \<open>partial_function (option)\<close>, with theorems saying when they
  return. No definition needs fuel: the answer loop of a connection, for instance, ends because
  every step reads at least four bytes. Panics are the value \<open>Panic\<close> of \<open>res\<close>.

  \<^bold>\<open>Not modelled.\<close> Parsing of the command line, which is the third-party \<open>clap\<close>; tasks spawned for
  connections of the daemon run one after the other, and so do two processes on one data
  directory; configuration of the swarm (\<open>build_swarm\<close>) and waiting for time to pass (\<open>settle\<close>);
  derived \<open>Debug\<close>; the standard error stream and the wording of error contexts that carry a
  cause; tests and benchmarks; running out of memory, except where the code asks for an amount a
  peer chose. The other files of a machine (payloads, outputs) are taken to lie outside the data
  directory.
\<close>

end
